(* ===== verification/Engine_Prelude.thy ===== *)
theory Engine_Prelude
  imports
    Complex_Main
    "HOL-Library.AList"
    "HOL-Library.List_Lexorder"
    "HOL-Library.Char_ord"
    "HOL-Library.Product_Lexorder"
    "HOL-Library.Multiset"
begin

text \<open>
  What every component theory shares: JSON values (the engine exchanges and stores nothing
  else), Python's exceptions as values of a sum type with its \<open>bind\<close>, loops that may raise,
  order-preserving de-duplication, and the lemma collections the component proofs draw on.

  Strings are \<open>string\<close> (lists of characters). A Python dict that is only looked up is an
  association list with distinct keys, in insertion order; \<open>map_of\<close> is its lookup and
  \<open>AList.update\<close> is item assignment (an existing key keeps its position, a new key is
  appended), exactly as in CPython.
\<close>

named_theorems err_simps \<open>rewrite rules of the exception monad\<close>
named_theorems json_simps \<open>accessors of JSON values\<close>

section \<open>Exceptions\<close>

text \<open>
  One constructor per exception class that the modelled code raises on its own paths; the
  payload is the message (or the missing key, for \<open>KeyError\<close>).
\<close>

datatype err =
    ResourceError string
  | OrchestratorError string
  | LeaseError string
  | WaitError string
  | WorkstreamError string
  | BindingError string
  | KeyError string
  | TypeError
  | ValueError
  | IntegrityError
  | OsError string
  | AttributeError

definition ebind :: "err + 'a \<Rightarrow> ('a \<Rightarrow> err + 'b) \<Rightarrow> err + 'b" where
  "ebind m f = (case m of Inl e \<Rightarrow> Inl e | Inr x \<Rightarrow> f x)"

lemma ebind_simps [simp, err_simps]:
  "ebind (Inl e) f = Inl e"
  "ebind (Inr x) f = f x"
  by (simp_all add: ebind_def)

lemma ebind_Inr_right [simp]: "ebind m Inr = m"
  by (cases m) simp_all

lemma ebind_Inr_iff [err_simps]: "ebind m f = Inr y \<longleftrightarrow> (\<exists>x. m = Inr x \<and> f x = Inr y)"
  by (cases m) simp_all

lemma ebind_Inl_iff: "ebind m f = Inl e \<longleftrightarrow> m = Inl e \<or> (\<exists>x. m = Inr x \<and> f x = Inl e)"
  by (cases m) simp_all

lemma ebind_cong [fundef_cong]:
  "m = m' \<Longrightarrow> (\<And>x. m' = Inr x \<Longrightarrow> f x = g x) \<Longrightarrow> ebind m f = ebind m' g"
  by (cases m') simp_all

text \<open>For evaluation: the continuation waits for its argument.\<close>

lemma ebind_weak_cong: "m = m' \<Longrightarrow> ebind m f = ebind m' f"
  by simp

lemma ebind_assoc: "ebind (ebind m f) g = ebind m (\<lambda>x. ebind (f x) g)"
  by (cases m) simp_all

text \<open>\<open>if c: raise e\<close>\<close>

definition raise_if :: "bool \<Rightarrow> err \<Rightarrow> err + unit" where
  "raise_if c e = (if c then Inl e else Inr ())"

lemma raise_if_simps [simp, err_simps]:
  "raise_if True e = Inl e"
  "raise_if False e = Inr ()"
  "raise_if c e = Inr u \<longleftrightarrow> \<not> c"
  "raise_if c e = Inl e' \<longleftrightarrow> c \<and> e' = e"
  by (auto simp: raise_if_def)

text \<open>\<open>for x in xs: ...\<close> collecting results, and the short-circuiting \<open>any\<close> and
  \<open>all\<close> over a generator whose elements may raise.\<close>

fun emap :: "('a \<Rightarrow> err + 'b) \<Rightarrow> 'a list \<Rightarrow> err + 'b list" where
  "emap f [] = Inr []"
| "emap f (x # xs) = ebind (f x) (\<lambda>y. ebind (emap f xs) (\<lambda>ys. Inr (y # ys)))"

fun eany :: "('a \<Rightarrow> err + bool) \<Rightarrow> 'a list \<Rightarrow> err + bool" where
  "eany f [] = Inr False"
| "eany f (x # xs) = ebind (f x) (\<lambda>b. if b then Inr True else eany f xs)"

fun eall :: "('a \<Rightarrow> err + bool) \<Rightarrow> 'a list \<Rightarrow> err + bool" where
  "eall f [] = Inr True"
| "eall f (x # xs) = ebind (f x) (\<lambda>b. if b then eall f xs else Inr False)"

fun efold :: "('a \<Rightarrow> 's \<Rightarrow> err + 's) \<Rightarrow> 'a list \<Rightarrow> 's \<Rightarrow> err + 's" where
  "efold f [] s = Inr s"
| "efold f (x # xs) s = ebind (f x s) (\<lambda>s'. efold f xs s')"

lemma emap_cong [fundef_cong]:
  "xs = ys \<Longrightarrow> (\<And>x. x \<in> set ys \<Longrightarrow> f x = g x) \<Longrightarrow> emap f xs = emap g ys"
proof (induction ys arbitrary: xs)
  case (Cons a ys)
  then show ?case by (simp cong: ebind_cong if_cong)
qed simp

lemma eany_cong [fundef_cong]:
  "xs = ys \<Longrightarrow> (\<And>x. x \<in> set ys \<Longrightarrow> f x = g x) \<Longrightarrow> eany f xs = eany g ys"
proof (induction ys arbitrary: xs)
  case (Cons a ys)
  then show ?case by (simp cong: ebind_cong if_cong)
qed simp

lemma eall_cong [fundef_cong]:
  "xs = ys \<Longrightarrow> (\<And>x. x \<in> set ys \<Longrightarrow> f x = g x) \<Longrightarrow> eall f xs = eall g ys"
proof (induction ys arbitrary: xs)
  case (Cons a ys)
  then show ?case by (simp cong: ebind_cong if_cong)
qed simp

lemma emap_Inr_iff:
  "emap f xs = Inr ys \<longleftrightarrow> list_all2 (\<lambda>x y. f x = Inr y) xs ys"
  by (induction xs arbitrary: ys) (auto simp: err_simps list_all2_Cons1)

lemma emap_Inr_ex:
  "(\<exists>ys. emap f xs = Inr ys) \<longleftrightarrow> (\<forall>x\<in>set xs. \<exists>y. f x = Inr y)"
  by (induction xs) (auto simp: err_simps)

lemma emap_Inr_map: "(\<And>x. x \<in> set xs \<Longrightarrow> f x = Inr (g x)) \<Longrightarrow> emap f xs = Inr (map g xs)"
  by (induction xs) simp_all

lemma emap_Inr_set: "emap f xs = Inr ys \<Longrightarrow> y \<in> set ys \<Longrightarrow> \<exists>x\<in>set xs. f x = Inr y"
  by (induction xs arbitrary: ys) (auto simp: err_simps)

lemma emap_Inr_in: "emap f xs = Inr ys \<Longrightarrow> x \<in> set xs \<Longrightarrow> \<exists>y\<in>set ys. f x = Inr y"
  by (induction xs arbitrary: ys) (auto simp: err_simps)

lemma emap_length: "emap f xs = Inr ys \<Longrightarrow> length ys = length xs"
  by (induction xs arbitrary: ys) (auto simp: err_simps)

lemma eany_Inr_pure: "(\<And>x. x \<in> set xs \<Longrightarrow> f x = Inr (p x)) \<Longrightarrow> eany f xs = Inr (\<exists>x\<in>set xs. p x)"
  by (induction xs) simp_all

lemma eall_Inr_pure: "(\<And>x. x \<in> set xs \<Longrightarrow> f x = Inr (p x)) \<Longrightarrow> eall f xs = Inr (\<forall>x\<in>set xs. p x)"
  by (induction xs) simp_all

section \<open>JSON values\<close>

datatype json =
    JNull
  | JBool bool
  | JInt int
  | JReal rat
  | JStr string
  | JList "json list"
  | JObj "(string \<times> json) list"

type_synonym fields = "(string \<times> json) list"

text \<open>\<open>isinstance\<close> tests, \<open>d.get(k)\<close> with its default \<open>None\<close>, truth values, and
  hashability (a list or dict in a set or as a set operand raises \<open>TypeError\<close>).\<close>

fun is_obj :: "json \<Rightarrow> bool" where
  "is_obj (JObj _) = True"
| "is_obj _ = False"

fun is_str :: "json \<Rightarrow> bool" where
  "is_str (JStr _) = True"
| "is_str _ = False"

fun hashable :: "json \<Rightarrow> bool" where
  "hashable (JList _) = False"
| "hashable (JObj _) = False"
| "hashable _ = True"

fun truthy :: "json \<Rightarrow> bool" where
  "truthy JNull = False"
| "truthy (JBool b) = b"
| "truthy (JInt i) = (i \<noteq> 0)"
| "truthy (JReal r) = (r \<noteq> 0)"
| "truthy (JStr s) = (s \<noteq> [])"
| "truthy (JList xs) = (xs \<noteq> [])"
| "truthy (JObj fs) = (fs \<noteq> [])"

definition get :: "fields \<Rightarrow> string \<Rightarrow> json" where
  "get fs k = (case map_of fs k of None \<Rightarrow> JNull | Some v \<Rightarrow> v)"

definition get_or :: "fields \<Rightarrow> string \<Rightarrow> json \<Rightarrow> json" where
  "get_or fs k d = (case map_of fs k of None \<Rightarrow> d | Some v \<Rightarrow> v)"

fun obj_fields :: "json \<Rightarrow> fields" where
  "obj_fields (JObj fs) = fs"
| "obj_fields _ = []"

text \<open>\<open>d[k]\<close> with a string \<open>k\<close>, and the receiver of \<open>.get\<close>, \<open>.items\<close> or \<open>.values\<close>.\<close>

fun subscript :: "json \<Rightarrow> string \<Rightarrow> err + json" where
  "subscript (JObj fs) k = (case map_of fs k of None \<Rightarrow> Inl (KeyError k) | Some v \<Rightarrow> Inr v)"
| "subscript _ k = Inl TypeError"

fun dict_of :: "json \<Rightarrow> err + fields" where
  "dict_of (JObj fs) = Inr fs"
| "dict_of _ = Inl AttributeError"

lemma get_simps [simp, json_simps]:
  "get [] k = JNull"
  "get ((k', v) # fs) k = (if k' = k then v else get fs k)"
  "get_or [] k d = d"
  "get_or ((k', v) # fs) k d = (if k' = k then v else get_or fs k d)"
  by (auto simp: get_def get_or_def)

text \<open>
  Equality of Python dicts ignores the order of keys. \<open>jcanon\<close> sorts the keys of every
  object (what \<open>json.dumps(sort_keys=True)\<close> does), so that Python's \<open>==\<close> on decoded
  values is equality of canonical forms, once numbers are compared by value.
\<close>

fun jcanon :: "json \<Rightarrow> json" where
  "jcanon (JList xs) = JList (map jcanon xs)"
| "jcanon (JObj fs) = JObj (sort_key fst (map (\<lambda>(k, v). (k, jcanon v)) fs))"
| "jcanon JNull = JNull"
| "jcanon (JBool b) = JBool b"
| "jcanon (JInt i) = JInt i"
| "jcanon (JReal r) = JReal r"
| "jcanon (JStr s) = JStr s"

text \<open>Python's \<open>==\<close> identifies \<open>True\<close>, \<open>1\<close> and \<open>1.0\<close>.\<close>

fun jnum :: "json \<Rightarrow> json" where
  "jnum (JBool b) = JInt (if b then 1 else 0)"
| "jnum (JReal r) = (if r = of_int \<lfloor>r\<rfloor> then JInt \<lfloor>r\<rfloor> else JReal r)"
| "jnum (JList xs) = JList (map jnum xs)"
| "jnum (JObj fs) = JObj (map (\<lambda>(k, v). (k, jnum v)) fs)"
| "jnum v = v"

definition json_eq :: "json \<Rightarrow> json \<Rightarrow> bool" where
  "json_eq a b \<longleftrightarrow> jcanon (jnum a) = jcanon (jnum b)"

lemma json_eq_refl [simp]: "json_eq a a"
  by (simp add: json_eq_def)

lemma json_eq_int [simp, json_simps]:
  "json_eq (JInt a) (JInt b) \<longleftrightarrow> a = b"
  "json_eq (JBool c) (JInt b) \<longleftrightarrow> b = (if c then 1 else 0)"
  "json_eq (JStr s) (JStr t) \<longleftrightarrow> s = t"
  by (auto simp: json_eq_def)

lemma json_eq_sym: "json_eq a b \<Longrightarrow> json_eq b a"
  by (simp add: json_eq_def)

lemma json_eq_trans: "json_eq a b \<Longrightarrow> json_eq b c \<Longrightarrow> json_eq a c"
  by (simp add: json_eq_def)

section \<open>Lists as Python's ordered collections\<close>

text \<open>Keep the first occurrence of each element: the \<open>seen\<close> set of a generator.\<close>

fun dedup_from :: "'a list \<Rightarrow> 'a list \<Rightarrow> 'a list" where
  "dedup_from seen [] = []"
| "dedup_from seen (x # xs) =
     (if x \<in> set seen then dedup_from seen xs else x # dedup_from (x # seen) xs)"

definition dedup :: "'a list \<Rightarrow> 'a list" where
  "dedup xs = dedup_from [] xs"

lemma dedup_from_set: "set (dedup_from seen xs) = set xs - set seen"
  by (induction xs arbitrary: seen) auto

lemma dedup_set [simp]: "set (dedup xs) = set xs"
  by (simp add: dedup_def dedup_from_set)

lemma dedup_from_distinct: "distinct (dedup_from seen xs)"
  by (induction xs arbitrary: seen) (auto simp: dedup_from_set)

lemma dedup_distinct [simp]: "distinct (dedup xs)"
  by (simp add: dedup_def dedup_from_distinct)

lemma dedup_from_filter_cong:
  "(\<And>x. x \<in> set xs \<Longrightarrow> P x \<Longrightarrow> (x \<in> set seen \<longleftrightarrow> x \<in> set seen')) \<Longrightarrow>
   filter P (dedup_from seen xs) = dedup_from seen' (filter P xs)"
proof (induction xs arbitrary: seen seen')
  case (Cons x xs)
  show ?case
  proof (cases "P x")
    case True
    have "filter P (dedup_from (x # seen) xs) = dedup_from (x # seen') (filter P xs)"
      by (rule Cons.IH) (use Cons.prems in auto)
    moreover have "filter P (dedup_from seen xs) = dedup_from seen' (filter P xs)"
      by (rule Cons.IH) (use Cons.prems in auto)
    ultimately show ?thesis using Cons.prems [of x] True by auto
  next
    case False
    have "filter P (dedup_from (x # seen) xs) = dedup_from seen' (filter P xs)"
      by (rule Cons.IH) (use Cons.prems False in auto)
    moreover have "filter P (dedup_from seen xs) = dedup_from seen' (filter P xs)"
      by (rule Cons.IH) (use Cons.prems in auto)
    ultimately show ?thesis using False by auto
  qed
qed simp

lemma filter_dedup: "filter P (dedup xs) = dedup (filter P xs)"
  by (simp add: dedup_def dedup_from_filter_cong [of xs P "[]" "[]"])

lemma dedup_Nil_iff [simp]: "dedup xs = [] \<longleftrightarrow> xs = []"
  by (metis dedup_set set_empty)

definition disjoint_list :: "'a list \<Rightarrow> 'a list \<Rightarrow> bool" where
  "disjoint_list xs ys \<longleftrightarrow> (\<forall>x\<in>set xs. x \<notin> set ys)"

lemma disjoint_list_iff: "disjoint_list xs ys \<longleftrightarrow> set xs \<inter> set ys = {}"
  by (auto simp: disjoint_list_def)

lemma filter_concat_map: "filter P (concat (map f xs)) = concat (map (\<lambda>x. filter P (f x)) xs)"
  by (induction xs) simp_all

section \<open>Association lists as dicts\<close>

definition keys :: "('k \<times> 'v) list \<Rightarrow> 'k list" where
  "keys al = map fst al"

lemma set_keys: "set (keys al) = dom (map_of al)"
  by (simp add: keys_def dom_map_of_conv_image_fst)

lemma keys_update: "set (keys (AList.update k v al)) = insert k (set (keys al))"
  by (simp add: keys_def dom_update)

lemma map_of_update [simp]: "map_of (AList.update k v al) = (map_of al)(k \<mapsto> v)"
  by (simp add: update_conv')

lemma distinct_keys_update: "distinct (keys al) \<Longrightarrow> distinct (keys (AList.update k v al))"
  by (simp add: keys_def distinct_update)

lemma map_of_in_keys: "map_of al k = Some v \<Longrightarrow> k \<in> set (keys al)"
  by (auto simp: set_keys)

lemma update_same: "map_of al k = Some v \<Longrightarrow> AList.update k v al = al"
  by (induction al) (auto split: if_splits)

end
