(* ===== verification/Resource_Registry.thy ===== *)
theory Resource_Registry
  imports Engine_Prelude
begin

text \<open>
  The resource registry of \<open>resource_queue.py\<close>: physical leaves and the alias, pool and bundle
  selectors over them; its normalisation (\<open>normalize_registry\<close>), the structural walks
  (\<open>selector_leaves\<close>, \<open>selector_available\<close>, \<open>selector_claim_available\<close>), the enumeration of
  the leaf sets a selector can stand for (\<open>alternatives\<close>) and the validation of a stage's needs
  (\<open>demands\<close>).

  A registry is the dict of the code: an association list from names to entries. An entry keeps
  the whole dict it was read from (\<open>fields\<close>) beside the parsed values the code reads.

  \<open>alternatives\<close> is a generator in Python. Its model returns the list of everything it would
  yield. Nothing is lost by that: on a selector that is not a leaf the first thing the generator
  does is walk the complete selector with \<open>selector_available\<close>, which raises on every unknown or
  cyclic name below it, so it never raises after a yield (lemma \<open>alternatives_total\<close>).
\<close>

section \<open>Data\<close>

datatype release_mode = By_Process | By_Probe

record leaf_entry =
  physical_id :: string
  capacity :: int
  incarnation :: string
  release :: release_mode
  leaf_fields :: fields

datatype selector_kind = Alias | Pool | Bundle

datatype entry = Leaf leaf_entry | Selector selector_kind "string list" fields

type_synonym registry = "(string \<times> entry) list"

datatype mode = Exclusive | Shared

record claim =
  claim_mode :: mode
  claim_units :: int
  claim_group :: json

type_synonym allocation = "(string \<times> claim) list"

text \<open>A validated need: selector name, mode, units and compatibility group.\<close>

type_synonym demand = "string \<times> mode \<times> int \<times> json"

section \<open>Validation\<close>

fun identifier_of :: "json \<Rightarrow> err + string" where
  "identifier_of (JStr s) =
     (if s = [] \<or> 160 < length s
      then Inl (ResourceError ''expected a nonempty identifier of at most 160 characters'')
      else Inr s)"
| "identifier_of _ = Inl (ResourceError ''expected a nonempty identifier of at most 160 characters'')"

fun positive :: "json \<Rightarrow> err + int" where
  "positive (JInt i) =
     (if i < 1 then Inl (ResourceError ''capacity and units must be positive integers'') else Inr i)"
| "positive _ = Inl (ResourceError ''capacity and units must be positive integers'')"

text \<open>
  Members are JSON values; a member that is not a string is never a key of the registry. Names are
  nonempty (\<open>identifier\<close>), so such a member is represented by the empty name, which is no key either.
\<close>

fun member_name :: "json \<Rightarrow> string" where
  "member_name (JStr s) = s"
| "member_name _ = []"

definition selector_members :: "json \<Rightarrow> err + string list" where
  "selector_members v =
     (case v of
        JList ms \<Rightarrow>
          if ms = [] then Inl (ResourceError ''selectors need distinct nonempty members'')
          else if \<not> list_all hashable ms then Inl TypeError
          else if \<not> distinct ms then Inl (ResourceError ''selectors need distinct nonempty members'')
          else Inr (map member_name ms)
      | _ \<Rightarrow> Inl (ResourceError ''selectors need distinct nonempty members''))"

definition release_of :: "fields \<Rightarrow> err + release_mode" where
  "release_of fs =
     (if \<not> hashable (get fs ''release'') then Inl TypeError
      else if get fs ''release'' = JStr ''process'' then Inr By_Process
      else if get fs ''release'' = JStr ''probe'' then
        (if truthy (get fs ''probe'') then Inr By_Probe
         else Inl (ResourceError ''probe release requires a registered probe command''))
      else Inl (ResourceError ''each leaf must declare process or probe release''))"

definition normalize_leaf :: "string list \<Rightarrow> string \<Rightarrow> fields \<Rightarrow> err + string list \<times> entry" where
  "normalize_leaf physical name fs =
     ebind (identifier_of (get_or fs ''physical_id'' (JStr name))) (\<lambda>key.
     ebind (raise_if (key \<in> set physical) (ResourceError ''duplicate physical resource; use an alias'')) (\<lambda>_.
     ebind (positive (get_or fs ''capacity'' (JInt 1))) (\<lambda>cap.
     ebind (identifier_of (get_or fs ''incarnation'' (JStr ''1''))) (\<lambda>inc.
     let fs' = AList.update ''incarnation'' (JStr inc)
                 (AList.update ''capacity'' (JInt cap)
                   (AList.update ''physical_id'' (JStr key)
                     (AList.update ''kind'' (JStr ''resource'') fs)))
     in ebind (release_of fs') (\<lambda>rel.
        Inr (key # physical,
             Leaf \<lparr>physical_id = key, capacity = cap, incarnation = inc, release = rel,
                   leaf_fields = fs'\<rparr>))))))"

fun kind_of :: "json \<Rightarrow> selector_kind option" where
  "kind_of (JStr s) =
     (if s = ''alias'' then Some Alias else if s = ''pool'' then Some Pool
      else if s = ''bundle'' then Some Bundle else None)"
| "kind_of _ = None"

definition normalize_entry :: "string list \<Rightarrow> string \<Rightarrow> json \<Rightarrow> err + string list \<times> entry" where
  "normalize_entry physical name v =
     ebind (identifier_of (JStr name)) (\<lambda>_.
     case v of
       JObj fs \<Rightarrow>
         let kind = get_or fs ''kind'' (JStr ''resource'') in
         if kind = JStr ''resource'' then normalize_leaf physical name fs
         else if \<not> hashable kind then Inl TypeError
         else (case kind_of kind of
             None \<Rightarrow> Inl (ResourceError ''unsupported resource kind'')
           | Some k \<Rightarrow>
               ebind (selector_members (get fs ''members'')) (\<lambda>ms.
               ebind (raise_if (k = Alias \<and> length ms \<noteq> 1) (ResourceError ''alias must identify one target'')) (\<lambda>_.
               Inr (physical, Selector k ms (AList.update ''kind'' kind fs)))))
     | _ \<Rightarrow> Inl (ResourceError ''resource definition must be an object''))"

fun normalize_entries :: "string list \<Rightarrow> fields \<Rightarrow> err + registry" where
  "normalize_entries physical [] = Inr []"
| "normalize_entries physical ((name, v) # rest) =
     ebind (normalize_entry physical name v) (\<lambda>(physical', e).
     ebind (normalize_entries physical' rest) (\<lambda>reg. Inr ((name, e) # reg)))"

section \<open>Walking a selector\<close>

text \<open>
  \<open>trail\<close> holds the selectors above the current one. It only grows by names of the registry that
  are not in it yet, so the number of registry names outside the trail decreases in every call.
\<close>

abbreviation unknown_selector :: err where
  "unknown_selector \<equiv> ResourceError ''unknown or cyclic resource selector''"

definition fresh_names :: "registry \<Rightarrow> string list \<Rightarrow> nat" where
  "fresh_names reg trail = card (set (keys reg) - set trail)"

lemma fresh_names_decr:
  "n \<notin> set trail \<Longrightarrow> map_of reg n = Some e \<Longrightarrow> fresh_names reg (trail @ [n]) < fresh_names reg trail"
  unfolding fresh_names_def by (rule psubset_card_mono) (auto dest: map_of_in_keys)

function selector_leaves :: "registry \<Rightarrow> string \<Rightarrow> string list \<Rightarrow> err + string list" where
  "selector_leaves reg name trail =
     (if name \<in> set trail then Inl unknown_selector
      else (case map_of reg name of
          None \<Rightarrow> Inl unknown_selector
        | Some (Leaf _) \<Rightarrow> Inr [name]
        | Some (Selector k members fs) \<Rightarrow>
            ebind (emap (\<lambda>m. selector_leaves reg m (trail @ [name])) members) (\<lambda>ls. Inr (concat ls))))"
  by pat_completeness auto
termination
  by (relation "measure (\<lambda>(reg, name, trail). fresh_names reg trail)") (auto intro: fresh_names_decr)

function selector_available :: "registry \<Rightarrow> string \<Rightarrow> string list \<Rightarrow> string list \<Rightarrow> err + bool" where
  "selector_available reg name excluded trail =
     (if name \<in> set trail then Inl unknown_selector
      else (case map_of reg name of
          None \<Rightarrow> Inl unknown_selector
        | Some (Leaf _) \<Rightarrow> Inr (name \<notin> set excluded)
        | Some (Selector k members fs) \<Rightarrow>
            ebind (emap (\<lambda>m. selector_available reg m excluded (trail @ [name])) members) (\<lambda>available.
            Inr (if k = Alias \<or> k = Pool then list_ex id available else list_all id available))))"
  by pat_completeness auto
termination
  by (relation "measure (\<lambda>(reg, name, excluded, trail). fresh_names reg trail)")
    (auto intro: fresh_names_decr)

declare selector_leaves.simps [simp del] selector_available.simps [simp del]

text \<open>
  The sort key of a member: the least demand among its leaves (\<open>default=0\<close>), then its name.
  \<open>priority\<close> is a dict of counts; \<open>priority.get(leaf, 0)\<close>.
\<close>

definition prio_get :: "(string \<times> int) list \<Rightarrow> string \<Rightarrow> int" where
  "prio_get priority l = (case map_of priority l of None \<Rightarrow> 0 | Some n \<Rightarrow> n)"

definition min_prio :: "(string \<times> int) list \<Rightarrow> string list \<Rightarrow> int" where
  "min_prio priority ls = (case map (prio_get priority) ls of [] \<Rightarrow> 0 | p # ps \<Rightarrow> fold min ps p)"

definition sorted_members ::
    "registry \<Rightarrow> (string \<times> int) list \<Rightarrow> string list \<Rightarrow> err + string list" where
  "sorted_members reg priority members =
     ebind (emap (\<lambda>m. ebind (selector_leaves reg m []) (\<lambda>ls. Inr ((min_prio priority ls, m), m))) members)
       (\<lambda>keyed. Inr (map snd (sort_key fst keyed)))"

text \<open>\<open>combine\<close> of a bundle: choose one option per member, all disjoint; a choice is the sorted
  tuple of the chosen leaves.\<close>

fun combine :: "string list list list \<Rightarrow> string list \<Rightarrow> string list list" where
  "combine [] selected = [sort (remdups selected)]"
| "combine (options # rest) selected =
     concat (map (\<lambda>opt. if \<not> disjoint_list opt selected then [] else combine rest (selected @ opt)) options)"

lemma sorted_members_set: "sorted_members reg priority ms = Inr ms' \<Longrightarrow> set ms' = set ms"
proof -
  assume "sorted_members reg priority ms = Inr ms'"
  then obtain keyed where k: "emap (\<lambda>m. ebind (selector_leaves reg m [])
      (\<lambda>ls. Inr ((min_prio priority ls, m), m))) ms = Inr keyed"
    and ms': "ms' = map snd (sort_key fst keyed)"
    by (auto simp: sorted_members_def err_simps)
  from k have "map snd keyed = ms"
    by (induction ms arbitrary: keyed) (auto simp: err_simps)
  then show ?thesis unfolding ms' by (metis image_set set_sort)
qed

function alternatives ::
    "registry \<Rightarrow> string \<Rightarrow> string list \<Rightarrow> (string \<times> int) list \<Rightarrow> string list \<Rightarrow> err + string list list" where
  "alternatives reg name trail priority excluded =
     (if name \<in> set trail then Inl unknown_selector
      else (case map_of reg name of
          None \<Rightarrow> Inl unknown_selector
        | Some (Leaf _) \<Rightarrow> Inr (if name \<notin> set excluded then [[name]] else [])
        | Some (Selector k members fs) \<Rightarrow>
            ebind (selector_available reg name excluded trail) (\<lambda>avail.
            if \<not> avail then Inr []
            else ebind (sorted_members reg priority members) (\<lambda>ms.
              ebind (emap (\<lambda>m. alternatives reg m (trail @ [name]) priority excluded) ms) (\<lambda>options.
              Inr (if k = Alias \<or> k = Pool then dedup (concat options)
                   else dedup (combine options [])))))))"
  by pat_completeness auto
termination
  by (relation "measure (\<lambda>(reg, name, trail, priority, excluded). fresh_names reg trail)")
    (auto intro: fresh_names_decr)

declare alternatives.simps [simp del]

definition normalize_registry :: "json \<Rightarrow> err + registry" where
  "normalize_registry raw =
     (case raw of
        JObj fs \<Rightarrow>
          ebind (normalize_entries [] fs) (\<lambda>reg.
          ebind (emap (\<lambda>name. ebind (alternatives reg name [] [] []) (\<lambda>choices.
                   raise_if (choices = [])
                     (ResourceError ''bundle has no assignment without overlapping members'')))
                 (keys reg)) (\<lambda>_.
          Inr reg))
      | _ \<Rightarrow> Inl (ResourceError ''resources must be an object''))"

section \<open>Needs\<close>

definition demand_of :: "registry \<Rightarrow> json \<Rightarrow> err + demand" where
  "demand_of reg need =
     (case need of
        JObj fs \<Rightarrow>
          if map_of fs ''resource'' = None
          then Inl (ResourceError ''need requires a resource identifier'')
          else
            ebind (identifier_of (get fs ''resource'')) (\<lambda>name.
            let m = get_or fs ''mode'' (JStr ''exclusive'') in
            ebind (raise_if (\<not> hashable m) TypeError) (\<lambda>_.
            ebind (if m = JStr ''exclusive'' then Inr Exclusive
                   else if m = JStr ''shared'' then Inr Shared
                   else Inl (ResourceError ''unsupported resource mode'')) (\<lambda>md.
            ebind (positive (get_or fs ''units'' (JInt 1))) (\<lambda>units.
            let group = get fs ''compatibility'' in
            ebind (if md = Shared then ebind (identifier_of group) (\<lambda>_. Inr ()) else Inr ()) (\<lambda>_.
            ebind (raise_if (md = Exclusive \<and> units \<noteq> 1)
                     (ResourceError ''exclusive access consumes the entire leaf'')) (\<lambda>_.
            ebind (raise_if (map_of reg name = None) unknown_selector) (\<lambda>_.
            Inr (name, md, units, group))))))))
      | _ \<Rightarrow> Inl (ResourceError ''need requires a resource identifier''))"

definition demands :: "registry \<Rightarrow> json \<Rightarrow> err + demand list" where
  "demands reg needs =
     (case needs of
        JList ns \<Rightarrow> emap (demand_of reg) ns
      | _ \<Rightarrow> Inl (ResourceError ''needs must be a list''))"

section \<open>Facts about walking a selector\<close>

lemma selector_leaves_Leaf:
  "name \<notin> set trail \<Longrightarrow> map_of reg name = Some (Leaf l) \<Longrightarrow> selector_leaves reg name trail = Inr [name]"
  by (subst selector_leaves.simps) simp

lemma selector_leaves_Selector:
  "name \<notin> set trail \<Longrightarrow> map_of reg name = Some (Selector k members fs) \<Longrightarrow>
   selector_leaves reg name trail =
     ebind (emap (\<lambda>m. selector_leaves reg m (trail @ [name])) members) (\<lambda>ls. Inr (concat ls))"
  by (subst selector_leaves.simps) simp

lemma selector_available_Leaf:
  "name \<notin> set trail \<Longrightarrow> map_of reg name = Some (Leaf l) \<Longrightarrow>
   selector_available reg name excluded trail = Inr (name \<notin> set excluded)"
  by (subst selector_available.simps) simp

lemma selector_available_Selector:
  "name \<notin> set trail \<Longrightarrow> map_of reg name = Some (Selector k members fs) \<Longrightarrow>
   selector_available reg name excluded trail =
     ebind (emap (\<lambda>m. selector_available reg m excluded (trail @ [name])) members) (\<lambda>available.
       Inr (if k = Alias \<or> k = Pool then list_ex id available else list_all id available))"
  by (subst selector_available.simps) simp

text \<open>A case rule for a successful walk: the name is a leaf, or a selector all of whose members
  are walked successfully.\<close>

lemma selector_leaves_cases:
  assumes "selector_leaves reg name trail = Inr ls"
  obtains (leaf) l where "name \<notin> set trail" "map_of reg name = Some (Leaf l)" "ls = [name]"
  | (selector) k members fs lss where "name \<notin> set trail"
      "map_of reg name = Some (Selector k members fs)"
      "emap (\<lambda>m. selector_leaves reg m (trail @ [name])) members = Inr lss" "ls = concat lss"
proof -
  have nt: "name \<notin> set trail"
    using assms by (subst (asm) selector_leaves.simps) (simp split: if_splits)
  with assms obtain e where e: "map_of reg name = Some e"
    by (subst (asm) selector_leaves.simps) (auto split: option.splits)
  show ?thesis
  proof (cases e)
    case (Leaf l)
    with assms nt e show ?thesis by (intro leaf) (auto simp: selector_leaves_Leaf)
  next
    case (Selector k members fs)
    with assms nt e show ?thesis
      by (auto simp: selector_leaves_Selector err_simps intro: selector)
  qed
qed

text \<open>Induction over a successful walk.\<close>

lemma walk_induct [consumes 1, case_names leaf selector]:
  assumes "selector_leaves reg name trail = Inr ls"
    and "\<And>name trail l. name \<notin> set trail \<Longrightarrow> map_of reg name = Some (Leaf l) \<Longrightarrow> P name trail [name]"
    and "\<And>name trail k members fs lss. name \<notin> set trail \<Longrightarrow>
      map_of reg name = Some (Selector k members fs) \<Longrightarrow>
      emap (\<lambda>m. selector_leaves reg m (trail @ [name])) members = Inr lss \<Longrightarrow>
      (\<And>m. m \<in> set members \<Longrightarrow>
        \<exists>l\<in>set lss. selector_leaves reg m (trail @ [name]) = Inr l \<and> P m (trail @ [name]) l) \<Longrightarrow>
      P name trail (concat lss)"
  shows "P name trail ls"
  using assms(1)
proof (induction reg\<equiv>reg name trail arbitrary: ls rule: selector_leaves.induct)
  case (1 name trail)
  from "1.prems" show ?case
  proof (cases rule: selector_leaves_cases)
    case (leaf l)
    with assms(2) show ?thesis by blast
  next
    case (selector k members fs lss)
    have "\<exists>l\<in>set lss. selector_leaves reg m (trail @ [name]) = Inr l \<and> P m (trail @ [name]) l"
      if m: "m \<in> set members" for m
    proof -
      from emap_Inr_in [OF selector(3) m] obtain l where l: "l \<in> set lss"
        "selector_leaves reg m (trail @ [name]) = Inr l" by blast
      from "1.hyps" [OF selector(1) selector(2) refl m l(2)] l show ?thesis by blast
    qed
    from assms(3) [OF selector(1) selector(2) selector(3) this] selector(4) show ?thesis by simp
  qed
qed

lemma selector_leaves_trail_mono:
  assumes "selector_leaves reg name trail = Inr ls" "set trail' \<subseteq> set trail"
  shows "selector_leaves reg name trail' = Inr ls"
  using assms
proof (induction arbitrary: trail' rule: walk_induct)
  case (leaf name trail l)
  then show ?case by (auto intro!: selector_leaves_Leaf)
next
  case (selector name trail k members fs lss)
  have sub: "set (trail' @ [name]) \<subseteq> set (trail @ [name])" using selector.prems by auto
  have "emap (\<lambda>m. selector_leaves reg m (trail' @ [name])) members =
      emap (\<lambda>m. selector_leaves reg m (trail @ [name])) members"
  proof (rule emap_cong [OF refl])
    fix m assume "m \<in> set members"
    from selector.IH [OF this] sub
    show "selector_leaves reg m (trail' @ [name]) = selector_leaves reg m (trail @ [name])" by auto
  qed
  moreover have "name \<notin> set trail'" using selector.hyps(1) selector.prems by auto
  ultimately show ?case using selector.hyps by (simp add: selector_leaves_Selector)
qed

text \<open>Everything a walk finds is a physical leaf of the registry.\<close>

lemma selector_leaves_are_leaves:
  "selector_leaves reg name trail = Inr ls \<Longrightarrow> x \<in> set ls \<Longrightarrow> \<exists>l. map_of reg x = Some (Leaf l)"
proof (induction rule: walk_induct)
  case (selector name trail k members fs lss)
  then obtain l where l: "l \<in> set lss" "x \<in> set l" by auto
  from emap_Inr_set [OF selector.hyps(3) l(1)] selector.IH l(2) show ?case by fastforce
qed simp

text \<open>\<open>selector_available\<close> raises exactly when \<open>selector_leaves\<close> does.\<close>

lemma selector_available_total:
  "selector_leaves reg name trail = Inr ls \<Longrightarrow> \<exists>b. selector_available reg name excluded trail = Inr b"
proof (induction rule: walk_induct)
  case (leaf name trail l)
  then show ?case by (simp add: selector_available_Leaf)
next
  case (selector name trail k members fs lss)
  have "\<exists>bs. emap (\<lambda>m. selector_available reg m excluded (trail @ [name])) members = Inr bs"
    using selector.IH by (auto simp: emap_Inr_ex)
  with selector.hyps show ?case by (auto simp: selector_available_Selector)
qed

section \<open>What \<open>alternatives\<close> enumerates\<close>

text \<open>
  The reference enumeration: no exclusion and no pruning. A leaf stands for itself, an alias or a
  pool for the choices of one member, a bundle for one choice per member, all disjoint.
\<close>

function alternatives_ref ::
    "registry \<Rightarrow> string \<Rightarrow> string list \<Rightarrow> (string \<times> int) list \<Rightarrow> err + string list list" where
  "alternatives_ref reg name trail priority =
     (if name \<in> set trail then Inl unknown_selector
      else (case map_of reg name of
          None \<Rightarrow> Inl unknown_selector
        | Some (Leaf _) \<Rightarrow> Inr [[name]]
        | Some (Selector k members fs) \<Rightarrow>
            ebind (sorted_members reg priority members) (\<lambda>ms.
            ebind (emap (\<lambda>m. alternatives_ref reg m (trail @ [name]) priority) ms) (\<lambda>options.
            Inr (dedup (if k = Bundle then combine options [] else concat options))))))"
  by pat_completeness auto
termination
  by (relation "measure (\<lambda>(reg, name, trail, priority). fresh_names reg trail)")
    (auto intro: fresh_names_decr)

declare alternatives_ref.simps [simp del]

lemma sorted_members_total:
  assumes "\<And>m. m \<in> set members \<Longrightarrow> \<exists>ls. selector_leaves reg m [] = Inr ls"
  shows "\<exists>ms. sorted_members reg priority members = Inr ms \<and> set ms = set members"
proof -
  have "\<exists>keyed. emap (\<lambda>m. ebind (selector_leaves reg m [])
      (\<lambda>ls. Inr ((min_prio priority ls, m), m))) members = Inr keyed"
    using assms by (auto simp: emap_Inr_ex err_simps)
  then have "\<exists>ms. sorted_members reg priority members = Inr ms"
    by (auto simp: sorted_members_def)
  then show ?thesis using sorted_members_set by blast
qed

text \<open>The members of a selector that is walked successfully, once sorted.\<close>

lemma sorted_members_of_walk:
  assumes "emap (\<lambda>m. selector_leaves reg m (trail @ [name])) members = Inr lss"
  obtains ms where "sorted_members reg priority members = Inr ms" "set ms = set members"
proof -
  have "\<exists>ls. selector_leaves reg m [] = Inr ls" if "m \<in> set members" for m
  proof -
    from emap_Inr_in [OF assms that] obtain l where
      "selector_leaves reg m (trail @ [name]) = Inr l" by blast
    then have "selector_leaves reg m [] = Inr l" by (rule selector_leaves_trail_mono) simp
    then show ?thesis ..
  qed
  then show thesis using sorted_members_total [of members reg priority] that by blast
qed

lemma combine_choice:
  "c \<in> set (combine options selected) \<Longrightarrow>
   \<exists>os. list_all2 (\<lambda>opts opt. opt \<in> set opts) options os \<and> set c = set selected \<union> \<Union> (set (map set os))"
proof (induction options arbitrary: selected)
  case (Cons opts rest)
  then obtain opt where opt: "opt \<in> set opts" "c \<in> set (combine rest (selected @ opt))"
    by (auto split: if_splits)
  from Cons.IH [OF opt(2)] obtain os where "list_all2 (\<lambda>opts opt. opt \<in> set opts) rest os"
    "set c = set (selected @ opt) \<union> \<Union> (set (map set os))" by blast
  with opt(1) show ?case by (intro exI [of _ "opt # os"]) auto
qed auto

lemma combine_sorted: "c \<in> set (combine options selected) \<Longrightarrow> sorted c \<and> distinct c"
  by (induction options arbitrary: selected) (auto split: if_splits)

lemma filter_combine:
  assumes "\<And>xs. P xs \<longleftrightarrow> (\<forall>x\<in>set xs. q x)"
  shows "filter P (combine options selected) =
    (if P selected then combine (map (filter P) options) selected else [])"
proof (induction options arbitrary: selected)
  case Nil
  show ?case by (simp add: assms)
next
  case (Cons opts rest)
  have P_append: "P (xs @ ys) \<longleftrightarrow> P xs \<and> P ys" for xs ys by (auto simp: assms)
  have "concat (map (\<lambda>opt. filter P (if \<not> disjoint_list opt selected then [] else combine rest (selected @ opt))) opts)
    = (if P selected then concat (map (\<lambda>opt. if \<not> disjoint_list opt selected then []
          else combine (map (filter P) rest) (selected @ opt)) (filter P opts)) else [])"
    by (induction opts) (auto simp: Cons.IH P_append)
  then show ?case by (simp add: filter_concat_map)
qed


lemma selector_leaves_if_available:
  "selector_available reg name excluded trail = Inr b \<Longrightarrow> \<exists>ls. selector_leaves reg name trail = Inr ls"
proof (induction reg name trail arbitrary: b rule: selector_leaves.induct)
  case (1 reg name trail)
  have nt: "name \<notin> set trail"
    using "1.prems" by (subst (asm) selector_available.simps) (simp split: if_splits)
  with "1.prems" obtain e where e: "map_of reg name = Some e"
    by (subst (asm) selector_available.simps) (auto split: option.splits)
  show ?case
  proof (cases e)
    case (Leaf l)
    with nt e show ?thesis by (simp add: selector_leaves_Leaf)
  next
    case (Selector k members fs)
    with nt e "1.prems" obtain bs where
      bs: "emap (\<lambda>m. selector_available reg m excluded (trail @ [name])) members = Inr bs"
      by (auto simp: selector_available_Selector err_simps)
    have "\<exists>l. selector_leaves reg m (trail @ [name]) = Inr l" if m: "m \<in> set members" for m
      using emap_Inr_in [OF bs m] "1.IH" [OF nt e Selector m] by blast
    then have "\<exists>lss. emap (\<lambda>m. selector_leaves reg m (trail @ [name])) members = Inr lss"
      by (simp add: emap_Inr_ex)
    with nt e Selector show ?thesis by (auto simp: selector_leaves_Selector)
  qed
qed

lemma alternatives_Leaf:
  "name \<notin> set trail \<Longrightarrow> map_of reg name = Some (Leaf l) \<Longrightarrow>
   alternatives reg name trail priority excluded = Inr (if name \<notin> set excluded then [[name]] else [])"
  by (subst alternatives.simps) simp

lemma alternatives_ref_Leaf:
  "name \<notin> set trail \<Longrightarrow> map_of reg name = Some (Leaf l) \<Longrightarrow>
   alternatives_ref reg name trail priority = Inr [[name]]"
  by (subst alternatives_ref.simps) simp

lemma alternatives_ref_Selector:
  "name \<notin> set trail \<Longrightarrow> map_of reg name = Some (Selector k members fs) \<Longrightarrow>
   sorted_members reg priority members = Inr ms \<Longrightarrow>
   alternatives_ref reg name trail priority =
     ebind (emap (\<lambda>m. alternatives_ref reg m (trail @ [name]) priority) ms) (\<lambda>options.
       Inr (dedup (if k = Bundle then combine options [] else concat options)))"
  by (subst alternatives_ref.simps) simp

lemma alternatives_Selector:
  "name \<notin> set trail \<Longrightarrow> map_of reg name = Some (Selector k members fs) \<Longrightarrow>
   sorted_members reg priority members = Inr ms \<Longrightarrow>
   selector_available reg name excluded trail = Inr avail \<Longrightarrow>
   alternatives reg name trail priority excluded =
     (if \<not> avail then Inr []
      else ebind (emap (\<lambda>m. alternatives reg m (trail @ [name]) priority excluded) ms) (\<lambda>options.
        Inr (dedup (if k = Bundle then combine options [] else concat options))))"
  by (subst alternatives.simps) (cases k; simp)

lemma alternatives_ref_total:
  "selector_leaves reg name trail = Inr ls \<Longrightarrow> \<exists>cs. alternatives_ref reg name trail priority = Inr cs"
proof (induction rule: walk_induct)
  case (leaf name trail l)
  then show ?case by (simp add: alternatives_ref_Leaf)
next
  case (selector name trail k members fs lss)
  from sorted_members_of_walk [OF selector.hyps(3)] obtain ms where
    ms: "sorted_members reg priority members = Inr ms" "set ms = set members" by blast
  have "\<exists>os. emap (\<lambda>m. alternatives_ref reg m (trail @ [name]) priority) ms = Inr os"
    using selector.IH ms(2) by (auto simp: emap_Inr_ex)
  with selector.hyps ms(1) show ?case by (auto simp: alternatives_ref_Selector)
qed

text \<open>Every choice consists of leaves of the selector.\<close>

lemma alternatives_ref_leaves:
  "selector_leaves reg name trail = Inr ls \<Longrightarrow> alternatives_ref reg name trail priority = Inr cs \<Longrightarrow>
   c \<in> set cs \<Longrightarrow> set c \<subseteq> set ls"
proof (induction arbitrary: cs c rule: walk_induct)
  case (leaf name trail l)
  then show ?case by (auto simp: alternatives_ref_Leaf)
next
  case (selector name trail k members fs lss)
  from sorted_members_of_walk [OF selector.hyps(3)] obtain ms where
    ms: "sorted_members reg priority members = Inr ms" "set ms = set members" by blast
  from selector.prems(1) obtain options where
    options: "emap (\<lambda>m. alternatives_ref reg m (trail @ [name]) priority) ms = Inr options"
    and cs: "cs = dedup (if k = Bundle then combine options [] else concat options)"
    using selector.hyps ms(1) by (auto simp: alternatives_ref_Selector err_simps)
  have opt: "set o' \<subseteq> set (concat lss)" if "opts \<in> set options" "o' \<in> set opts" for opts o'
  proof -
    from emap_Inr_set [OF options that(1)] ms(2) obtain m where m: "m \<in> set members"
      "alternatives_ref reg m (trail @ [name]) priority = Inr opts" by blast
    from selector.IH [OF m(1)] m(2) that(2) show ?thesis by fastforce
  qed
  show ?case
  proof (cases "k = Bundle")
    case True
    with selector.prems(2) cs have "c \<in> set (combine options [])" by simp
    from combine_choice [OF this] obtain os where
      os: "list_all2 (\<lambda>opts opt. opt \<in> set opts) options os" "set c = \<Union> (set (map set os))"
      by auto
    from os(1) opt have "\<forall>o'\<in>set os. set o' \<subseteq> set (concat lss)"
      by (fastforce simp: list_all2_conv_all_nth in_set_conv_nth)
    with os(2) show ?thesis by auto
  next
    case False
    with selector.prems(2) cs opt show ?thesis by auto
  qed
qed

text \<open>A selector that is not available has no choice that avoids the excluded leaves.\<close>

lemma unavailable_no_choice:
  "selector_leaves reg name trail = Inr ls \<Longrightarrow> selector_available reg name excluded trail = Inr False \<Longrightarrow>
   alternatives_ref reg name trail priority = Inr cs \<Longrightarrow> c \<in> set cs \<Longrightarrow> \<not> disjoint_list c excluded"
proof (induction arbitrary: cs c rule: walk_induct)
  case (leaf name trail l)
  then show ?case by (auto simp: alternatives_ref_Leaf selector_available_Leaf disjoint_list_def)
next
  case (selector name trail k members fs lss)
  from sorted_members_of_walk [OF selector.hyps(3)] obtain ms where
    ms: "sorted_members reg priority members = Inr ms" "set ms = set members" by blast
  from selector.prems(2) obtain options where
    options: "emap (\<lambda>m. alternatives_ref reg m (trail @ [name]) priority) ms = Inr options"
    and cs: "cs = dedup (if k = Bundle then combine options [] else concat options)"
    using selector.hyps ms(1) by (auto simp: alternatives_ref_Selector err_simps)
  from selector.prems(1) obtain bs where
    bs: "emap (\<lambda>m. selector_available reg m excluded (trail @ [name])) members = Inr bs"
    and b: "(if k = Alias \<or> k = Pool then list_ex id bs else list_all id bs) = False"
    using selector.hyps by (auto simp: selector_available_Selector err_simps)
  have member: "\<not> disjoint_list o' excluded"
    if "m \<in> set members" "selector_available reg m excluded (trail @ [name]) = Inr False"
      "alternatives_ref reg m (trail @ [name]) priority = Inr opts" "o' \<in> set opts" for m opts o'
    using selector.IH [OF that(1)] that(2-4) by blast
  show ?case
  proof (cases "k = Bundle")
    case True
    with b have "False \<in> set bs" by (auto simp: list_all_iff)
    from emap_Inr_set [OF bs this] obtain m where
      m: "m \<in> set members" "selector_available reg m excluded (trail @ [name]) = Inr False" by blast
    from True selector.prems(3) cs have "c \<in> set (combine options [])" by simp
    from combine_choice [OF this] obtain os where
      os: "list_all2 (\<lambda>opts opt. opt \<in> set opts) options os" "set c = \<Union> (set (map set os))"
      by auto
    from m(1) ms(2) have "m \<in> set ms" by simp
    then obtain i where i: "i < length ms" "ms ! i = m" by (auto simp: in_set_conv_nth)
    from options have "list_all2 (\<lambda>m opts. alternatives_ref reg m (trail @ [name]) priority = Inr opts) ms options"
      by (simp add: emap_Inr_iff)
    with i have "alternatives_ref reg m (trail @ [name]) priority = Inr (options ! i)"
      and "i < length options" by (auto simp: list_all2_conv_all_nth)
    moreover from this(2) os(1) have "os ! i \<in> set (options ! i)" "i < length os"
      by (auto simp: list_all2_conv_all_nth)
    ultimately have "\<not> disjoint_list (os ! i) excluded" "set (os ! i) \<subseteq> set c"
      using member [OF m] os(2) by auto
    then show ?thesis by (auto simp: disjoint_list_def)
  next
    case False
    then have pool: "k = Alias \<or> k = Pool" by (cases k) auto
    with False selector.prems(3) cs obtain opts where "opts \<in> set options" "c \<in> set opts" by auto
    moreover from emap_Inr_set [OF options this(1)] ms(2) obtain m where
      m: "m \<in> set members" "alternatives_ref reg m (trail @ [name]) priority = Inr opts" by blast
    moreover from emap_Inr_in [OF bs m(1)] b pool have
      "selector_available reg m excluded (trail @ [name]) = Inr False" by (auto simp: list_ex_iff)
    ultimately show ?thesis using member by blast
  qed
qed

text \<open>
  The pruned enumeration is the reference enumeration without the choices that touch an excluded
  leaf, in the same order.
\<close>

lemma alternatives_filter:
  "selector_leaves reg name trail = Inr ls \<Longrightarrow> alternatives_ref reg name trail priority = Inr cs \<Longrightarrow>
   alternatives reg name trail priority excluded = Inr (filter (\<lambda>c. disjoint_list c excluded) cs)"
proof (induction arbitrary: cs rule: walk_induct)
  case (leaf name trail l)
  then show ?case by (auto simp: alternatives_ref_Leaf alternatives_Leaf disjoint_list_def)
next
  case (selector name trail k members fs lss)
  let ?P = "\<lambda>c. disjoint_list c excluded"
  have walk: "selector_leaves reg name trail = Inr (concat lss)"
    using selector.hyps by (simp add: selector_leaves_Selector)
  from sorted_members_of_walk [OF selector.hyps(3)] obtain ms where
    ms: "sorted_members reg priority members = Inr ms" "set ms = set members" by blast
  from selector.prems obtain options where
    options: "emap (\<lambda>m. alternatives_ref reg m (trail @ [name]) priority) ms = Inr options"
    and cs: "cs = dedup (if k = Bundle then combine options [] else concat options)"
    using selector.hyps ms(1) by (auto simp: alternatives_ref_Selector err_simps)
  from selector_available_total [OF walk] obtain b where
    b: "selector_available reg name excluded trail = Inr b" by blast
  show ?case
  proof (cases b)
    case False
    have "filter ?P cs = []"
      using unavailable_no_choice [OF walk _ selector.prems] b False by (auto simp: filter_empty_conv)
    then show ?thesis using selector.hyps ms(1) b False by (simp add: alternatives_Selector)
  next
    case True
    have "list_all2 (\<lambda>m opts. alternatives reg m (trail @ [name]) priority excluded = Inr opts)
        ms (map (filter ?P) options)"
      using options selector.IH ms(2)
      by (fastforce simp: emap_Inr_iff list_all2_conv_all_nth)
    then have "emap (\<lambda>m. alternatives reg m (trail @ [name]) priority excluded) ms =
        Inr (map (filter ?P) options)" by (simp add: emap_Inr_iff)
    moreover have "filter ?P cs =
        dedup (if k = Bundle then combine (map (filter ?P) options) [] else concat (map (filter ?P) options))"
      by (simp add: cs filter_dedup filter_combine [where q = "\<lambda>x. x \<notin> set excluded"]
          disjoint_list_def filter_concat)
    ultimately show ?thesis using selector.hyps ms(1) b True by (simp add: alternatives_Selector)
  qed
qed

lemma alternatives_total:
  "selector_leaves reg name trail = Inr ls \<Longrightarrow> \<exists>cs. alternatives reg name trail priority excluded = Inr cs"
  using alternatives_ref_total alternatives_filter by blast

lemma alternatives_leaves:
  assumes "selector_leaves reg name trail = Inr ls"
    and "alternatives reg name trail priority excluded = Inr cs" "c \<in> set cs"
  shows "set c \<subseteq> set ls" "disjoint_list c excluded"
  using assms alternatives_ref_total [OF assms(1), of priority] alternatives_ref_leaves
    alternatives_filter by fastforce+


section \<open>Normalised registries\<close>

fun entry_fields :: "entry \<Rightarrow> fields" where
  "entry_fields (Leaf l) = leaf_fields l"
| "entry_fields (Selector k ms fs) = fs"

definition registry_json :: "registry \<Rightarrow> json" where
  "registry_json reg = JObj (map (\<lambda>(n, e). (n, JObj (entry_fields e))) reg)"

definition physical_ids :: "registry \<Rightarrow> string list" where
  "physical_ids reg = concat (map (\<lambda>(n, e). case e of Leaf l \<Rightarrow> [physical_id l] | _ \<Rightarrow> []) reg)"

fun entry_ok :: "entry \<Rightarrow> bool" where
  "entry_ok (Leaf l) =
     (1 \<le> capacity l \<and> get (leaf_fields l) ''kind'' = JStr ''resource''
      \<and> get (leaf_fields l) ''capacity'' = JInt (capacity l)
      \<and> get (leaf_fields l) ''incarnation'' = JStr (incarnation l))"
| "entry_ok (Selector k ms fs) =
     (ms \<noteq> [] \<and> (k = Alias \<longrightarrow> length ms = 1) \<and> get fs ''kind'' \<noteq> JStr ''resource'')"

definition walks :: "registry \<Rightarrow> string \<Rightarrow> bool" where
  "walks reg name = (case selector_leaves reg name [] of Inl _ \<Rightarrow> False | Inr _ \<Rightarrow> True)"

definition has_choice :: "registry \<Rightarrow> string \<Rightarrow> bool" where
  "has_choice reg name = (case alternatives reg name [] [] [] of Inl _ \<Rightarrow> False | Inr cs \<Rightarrow> cs \<noteq> [])"

definition wf_registry :: "registry \<Rightarrow> bool" where
  "wf_registry reg \<longleftrightarrow>
     (\<forall>(n, e) \<in> set reg. n \<noteq> [] \<and> length n \<le> 160 \<and> entry_ok e \<and> walks reg n \<and> has_choice reg n) \<and>
     distinct (physical_ids reg)"

lemma walks_iff: "walks reg name \<longleftrightarrow> (\<exists>ls. selector_leaves reg name [] = Inr ls)"
  by (auto simp: walks_def split: sum.splits)

lemma identifier_of_Inr [simp]: "identifier_of v = Inr s \<longleftrightarrow> v = JStr s \<and> s \<noteq> [] \<and> length s \<le> 160"
  by (cases v) auto

lemma positive_Inr [simp]: "positive v = Inr i \<longleftrightarrow> v = JInt i \<and> 1 \<le> i"
  by (cases v) auto

lemma get_update [simp]:
  "get (AList.update k v fs) k' = (if k' = k then v else get fs k')"
  "get_or (AList.update k v fs) k' d = (if k' = k then v else get_or fs k' d)"
  by (auto simp: get_def get_or_def)

lemma normalize_leaf_ok:
  assumes "normalize_leaf physical name fs = Inr (physical', e)"
  shows "\<exists>l. e = Leaf l \<and> entry_ok e \<and> physical_id l \<notin> set physical \<and>
    physical' = physical_id l # physical"
  using assms by (auto simp: normalize_leaf_def err_simps Let_def)

lemma normalize_entry_ok:
  assumes "normalize_entry physical name v = Inr (physical', e)"
  shows "name \<noteq> [] \<and> length name \<le> 160 \<and> entry_ok e \<and>
    physical' = (case e of Leaf l \<Rightarrow> physical_id l # physical | _ \<Rightarrow> physical) \<and>
    (case e of Leaf l \<Rightarrow> physical_id l \<notin> set physical | _ \<Rightarrow> True)"
  using assms
  by (auto simp: normalize_entry_def err_simps Let_def selector_members_def
      split: json.splits if_splits option.splits dest!: normalize_leaf_ok)

lemma normalize_entries_ok:
  "normalize_entries physical fs = Inr reg \<Longrightarrow>
    (\<forall>(n, e) \<in> set reg. n \<noteq> [] \<and> length n \<le> 160 \<and> entry_ok e) \<and>
    distinct (physical_ids reg) \<and> set (physical_ids reg) \<inter> set physical = {}"
proof (induction physical fs arbitrary: reg rule: normalize_entries.induct)
  case (2 physical name v rest)
  then obtain physical' e reg' where e: "normalize_entry physical name v = Inr (physical', e)"
    and reg': "normalize_entries physical' rest = Inr reg'" and reg: "reg = (name, e) # reg'"
    by (auto simp: err_simps)
  from "2.IH" [OF e refl reg'] normalize_entry_ok [OF e] show ?case
    by (auto simp: reg physical_ids_def split: entry.splits)
qed (simp add: physical_ids_def)

lemma normalize_registry_wf: "normalize_registry raw = Inr reg \<Longrightarrow> wf_registry reg"
proof -
  assume "normalize_registry raw = Inr reg"
  then obtain fs us where fs: "normalize_entries [] fs = Inr reg"
    and us: "emap (\<lambda>name. ebind (alternatives reg name [] [] []) (\<lambda>choices.
           raise_if (choices = [])
             (ResourceError ''bundle has no assignment without overlapping members''))) (keys reg) = Inr us"
    by (auto simp: normalize_registry_def err_simps split: json.splits)
  have "walks reg n \<and> has_choice reg n" if "(n, e) \<in> set reg" for n e
  proof -
    from that have "n \<in> set (keys reg)" by (force simp: keys_def)
    from emap_Inr_in [OF us this] obtain cs where
      cs: "alternatives reg n [] [] [] = Inr cs" "cs \<noteq> []" by (auto simp: err_simps)
    have "\<exists>ls. selector_leaves reg n [] = Inr ls"
    proof (cases "map_of reg n")
      case None
      with cs show ?thesis by (subst (asm) alternatives.simps) simp
    next
      case (Some e)
      show ?thesis
      proof (cases e)
        case (Leaf l)
        with Some show ?thesis by (simp add: selector_leaves_Leaf)
      next
        case (Selector k ms fs)
        with Some cs obtain b where "selector_available reg n [] [] = Inr b"
          by (subst (asm) alternatives.simps) (auto simp: err_simps)
        then show ?thesis by (rule selector_leaves_if_available)
      qed
    qed
    with cs show ?thesis by (simp add: walks_iff has_choice_def)
  qed
  with normalize_entries_ok [OF fs] show ?thesis by (auto simp: wf_registry_def)
qed


text \<open>
  Normalising a normalised registry again changes nothing. \<open>update_configuration\<close> relies on
  it: it rolls a failed update back by configuring the old (already normalised) registry.
\<close>

lemma normalize_leaf_idem:
  assumes "normalize_leaf physical name fs = Inr (physical', e)"
  shows "normalize_leaf physical name' (entry_fields e) = Inr (physical', e)"
proof -
  from assms obtain key cap inc rel where e:
    "key \<noteq> []" "length key \<le> 160" "key \<notin> set physical" "1 \<le> cap" "inc \<noteq> []" "length inc \<le> 160"
    "release_of (entry_fields e) = Inr rel" "physical' = key # physical"
    "e = Leaf \<lparr>physical_id = key, capacity = cap, incarnation = inc, release = rel,
      leaf_fields = AList.update ''incarnation'' (JStr inc) (AList.update ''capacity'' (JInt cap)
        (AList.update ''physical_id'' (JStr key) (AList.update ''kind'' (JStr ''resource'') fs)))\<rparr>"
    by (auto simp: normalize_leaf_def err_simps Let_def)
  let ?fs = "entry_fields e"
  have m: "map_of ?fs ''kind'' = Some (JStr ''resource'')" "map_of ?fs ''physical_id'' = Some (JStr key)"
    "map_of ?fs ''capacity'' = Some (JInt cap)" "map_of ?fs ''incarnation'' = Some (JStr inc)"
    by (simp_all add: e(9))
  then have g: "get_or ?fs ''physical_id'' d = JStr key" "get_or ?fs ''capacity'' d = JInt cap"
    "get_or ?fs ''incarnation'' d = JStr inc" for d by (simp_all add: get_or_def)
  have fs: "leaf_fields \<lparr>physical_id = key, capacity = cap, incarnation = inc, release = rel,
      leaf_fields = AList.update ''incarnation'' (JStr inc) (AList.update ''capacity'' (JInt cap)
        (AList.update ''physical_id'' (JStr key) (AList.update ''kind'' (JStr ''resource'') fs)))\<rparr> = ?fs"
    by (simp add: e(9))
  show ?thesis
    using e(1-8) unfolding normalize_leaf_def
    by (simp add: g m update_same Let_def) (simp add: e(9))
qed

lemma normalize_entry_idem:
  assumes "normalize_entry physical name v = Inr (physical', e)"
  shows "normalize_entry physical name (JObj (entry_fields e)) = Inr (physical', e)"
proof -
  from assms obtain fs where v: "v = JObj fs" and n: "name \<noteq> []" "length name \<le> 160"
    by (auto simp: normalize_entry_def err_simps split: json.splits if_splits)
  show ?thesis
  proof (cases "get_or fs ''kind'' (JStr ''resource'') = JStr ''resource''")
    case True
    with assms v have l: "normalize_leaf physical name fs = Inr (physical', e)"
      by (auto simp: normalize_entry_def err_simps Let_def)
    then have "get_or (entry_fields e) ''kind'' (JStr ''resource'') = JStr ''resource''"
      by (auto simp: normalize_leaf_def err_simps Let_def)
    with normalize_leaf_idem [OF l] n show ?thesis by (simp add: normalize_entry_def Let_def)
  next
    case False
    let ?kind = "get_or fs ''kind'' (JStr ''resource'')"
    from False assms v obtain k ms where k: "hashable ?kind" "kind_of ?kind = Some k"
      "selector_members (get fs ''members'') = Inr ms" "\<not> (k = Alias \<and> length ms \<noteq> 1)"
      "physical' = physical" "e = Selector k ms (AList.update ''kind'' ?kind fs)"
      by (auto simp: normalize_entry_def err_simps Let_def split: if_splits option.splits)
    have "AList.update ''kind'' ?kind (AList.update ''kind'' ?kind fs) = AList.update ''kind'' ?kind fs"
      by (rule update_same) simp
    with k n False show ?thesis by (auto simp: normalize_entry_def Let_def raise_if_def)
  qed
qed

lemma normalize_entries_idem:
  "normalize_entries physical fs = Inr reg \<Longrightarrow>
   normalize_entries physical (map (\<lambda>(n, e). (n, JObj (entry_fields e))) reg) = Inr reg"
proof (induction physical fs arbitrary: reg rule: normalize_entries.induct)
  case (2 physical name v rest)
  then obtain physical' e reg' where e: "normalize_entry physical name v = Inr (physical', e)"
    and reg': "normalize_entries physical' rest = Inr reg'" and reg: "reg = (name, e) # reg'"
    by (auto simp: err_simps)
  from "2.IH" [OF e refl reg'] normalize_entry_idem [OF e] show ?case by (simp add: reg)
qed simp

lemma normalize_registry_idem_aux:
  assumes "normalize_registry raw = Inr reg"
  shows "normalize_registry (registry_json reg) = Inr reg"
proof -
  from assms obtain fs where "normalize_entries [] fs = Inr reg"
    by (auto simp: normalize_registry_def err_simps split: json.splits)
  from normalize_entries_idem [OF this] assms show ?thesis
    by (auto simp: normalize_registry_def registry_json_def err_simps split: json.splits)
qed

end
