(* ===== verification/Resource_Assign.thy ===== *)
theory Resource_Assign
  imports Resource_Registry
begin

text \<open>
  Claims against capacity and the search for a complete assignment (\<open>resource_queue.py\<close>:
  \<open>selector_claim_available\<close>, \<open>assignments\<close>, \<open>compatible\<close>), with the proof that the pruned
  depth-first search over explicit frames yields exactly the allocations of a plain exhaustive
  search, in the same order.

  \<open>assignments\<close> is a generator as well; \<open>next(assignments(...), None)\<close> is the head of the model's
  list.
\<close>

section \<open>Compatibility of claims\<close>

text \<open>
  \<open>registry[leaf]["capacity"]\<close>: a normalised leaf has one; a selector has none unless its dict
  happens to carry the key (compared with integers only, so a real stands for its floor).
\<close>

fun entry_capacity :: "entry \<Rightarrow> err + int" where
  "entry_capacity (Leaf l) = Inr (capacity l)"
| "entry_capacity (Selector k ms fs) =
     (case map_of fs ''capacity'' of
        None \<Rightarrow> Inl (KeyError ''capacity'')
      | Some (JInt i) \<Rightarrow> Inr i
      | Some (JBool b) \<Rightarrow> Inr (if b then 1 else 0)
      | Some (JReal r) \<Rightarrow> Inr \<lfloor>r\<rfloor>
      | Some _ \<Rightarrow> Inl TypeError)"

definition capacity_at :: "registry \<Rightarrow> string \<Rightarrow> err + int" where
  "capacity_at reg x = (case map_of reg x of None \<Rightarrow> Inl (KeyError x) | Some e \<Rightarrow> entry_capacity e)"

text \<open>\<open>[other[leaf] for other in others if leaf in other]\<close>\<close>

definition occupied_at :: "allocation list \<Rightarrow> string \<Rightarrow> claim list" where
  "occupied_at others x = List.map_filter (\<lambda>other. map_of other x) others"

definition units_sum :: "claim list \<Rightarrow> int" where
  "units_sum cs = sum_list (map claim_units cs)"

definition clashes :: "claim \<Rightarrow> claim list \<Rightarrow> bool" where
  "clashes c occupied \<longleftrightarrow>
     claim_mode c = Exclusive \<or>
     list_ex (\<lambda>i. claim_mode i \<noteq> Shared \<or> claim_group i \<noteq> claim_group c) occupied"

fun compatible :: "registry \<Rightarrow> allocation \<Rightarrow> allocation list \<Rightarrow> err + bool" where
  "compatible reg [] others = Inr True"
| "compatible reg ((x, c) # rest) others =
     ebind (if map_of reg x \<noteq> None
            then ebind (capacity_at reg x) (\<lambda>cap. Inr (cap < claim_units c)) else Inr False) (\<lambda>too_big.
     if too_big then Inr False
     else let occupied = occupied_at others x in
       if occupied = [] then compatible reg rest others
       else if clashes c occupied then Inr False
       else ebind (capacity_at reg x) (\<lambda>cap.
         if cap < claim_units c + units_sum occupied then Inr False
         else compatible reg rest others))"

function selector_claim_available ::
    "registry \<Rightarrow> string \<Rightarrow> claim \<Rightarrow> allocation list \<Rightarrow> string list \<Rightarrow> string list \<Rightarrow> err + bool" where
  "selector_claim_available reg name c others excluded trail =
     (if name \<in> set trail then Inl unknown_selector
      else (case map_of reg name of
          None \<Rightarrow> Inl unknown_selector
        | Some (Leaf _) \<Rightarrow>
            if name \<in> set excluded then Inr False else compatible reg [(name, c)] others
        | Some (Selector k members fs) \<Rightarrow>
            if k = Alias \<or> k = Pool
            then eany (\<lambda>m. selector_claim_available reg m c others excluded (trail @ [name])) members
            else eall (\<lambda>m. selector_claim_available reg m c others excluded (trail @ [name])) members))"
  by pat_completeness auto
termination
  by (relation "measure (\<lambda>(reg, name, c, others, excluded, trail). fresh_names reg trail)")
    (auto intro: fresh_names_decr)

declare selector_claim_available.simps [simp del]

section \<open>The search\<close>

text \<open>
  The inner \<open>for leaf in leaves\<close> loop: merge the claim of one need into a candidate allocation.
  \<open>None\<close> is the loop's \<open>break\<close>.
\<close>

fun place :: "registry \<Rightarrow> mode \<Rightarrow> int \<Rightarrow> json \<Rightarrow> string list \<Rightarrow> allocation \<Rightarrow> err + allocation option" where
  "place reg md units grp [] candidate = Inr (Some candidate)"
| "place reg md units grp (x # xs) candidate =
     (let merged = (case map_of candidate x of
           None \<Rightarrow> Some units
         | Some old \<Rightarrow>
             if md \<noteq> Shared \<or> claim_mode old \<noteq> md \<or> claim_group old \<noteq> grp then None
             else Some (units + claim_units old))
      in case merged of
           None \<Rightarrow> Inr None
         | Some u \<Rightarrow>
             ebind (capacity_at reg x) (\<lambda>cap.
             if cap < u then Inr None
             else place reg md units grp xs
                    (AList.update x \<lparr>claim_mode = md, claim_units = u, claim_group = grp\<rparr> candidate)))"

text \<open>The parameters of one search: \<open>others\<close>, \<open>excluded\<close>, \<open>priority\<close>, \<open>required\<close>.\<close>

record search =
  s_others :: "allocation list"
  s_excluded :: "string list"
  s_priority :: "(string \<times> int) list"
  s_required :: "string list"

text \<open>
  Opening a frame: \<open>None\<close> when the selector cannot satisfy the claim (the frame is popped),
  otherwise the alternatives left after excluding the leaves that cannot take the claim.
\<close>

fun open_frame :: "registry \<Rightarrow> search \<Rightarrow> demand \<times> string list \<Rightarrow> err + string list list option" where
  "open_frame reg s ((name, md, units, grp), lvs) =
     (let c = \<lparr>claim_mode = md, claim_units = units, claim_group = grp\<rparr> in
      ebind (selector_claim_available reg name c (s_others s) (s_excluded s) []) (\<lambda>avail.
      if \<not> avail then Inr None
      else ebind (emap (\<lambda>x. ebind (compatible reg [(x, c)] (s_others s)) (\<lambda>ok. Inr (if ok then [] else [x]))) lvs)
        (\<lambda>unavailable.
        ebind (alternatives reg name [] (s_priority s) (s_excluded s @ concat unavailable)) (\<lambda>it.
        Inr (Some it)))))"

text \<open>
  A frame is the suffix of the needs still to place (the code's \<open>index\<close>, with the leaves of each
  need, from which \<open>remaining[index]\<close> is computed), the allocation so far and the iterator.
\<close>

type_synonym spec = "demand \<times> string list"
type_synonym frame = "spec list \<times> allocation \<times> string list list option"

definition iterations :: "registry \<Rightarrow> search \<Rightarrow> spec \<Rightarrow> nat" where
  "iterations reg s sp = (case open_frame reg s sp of Inr (Some it) \<Rightarrow> length it | _ \<Rightarrow> 0)"

fun search_cost :: "registry \<Rightarrow> search \<Rightarrow> spec list \<Rightarrow> nat" where
  "search_cost reg s [] = 1"
| "search_cost reg s (sp # sps) = 2 + iterations reg s sp * (1 + search_cost reg s sps)"

fun frame_cost :: "registry \<Rightarrow> search \<Rightarrow> frame \<Rightarrow> nat" where
  "frame_cost reg s (specs, alloc, None) = search_cost reg s specs"
| "frame_cost reg s (specs, alloc, Some it) = 1 + length it * (1 + search_cost reg s (tl specs))"

lemma iterations_open: "open_frame reg s sp = Inr (Some it) \<Longrightarrow> iterations reg s sp = length it"
  by (simp add: iterations_def)

lemma search_cost_pos: "0 < search_cost reg s specs"
  by (cases specs) auto

lemma frame_cost_pos: "0 < frame_cost reg s f"
  by (cases f; cases "snd (snd f)") (auto simp: search_cost_pos)

function dfs :: "registry \<Rightarrow> search \<Rightarrow> frame list \<Rightarrow> err + allocation list" where
  "dfs reg s [] = Inr []"
| "dfs reg s ((specs, alloc, it) # stack) =
     (if s_required s \<noteq> [] \<and> disjoint_list (s_required s) (keys alloc @ concat (map snd specs))
      then dfs reg s stack
      else (case specs of
          [] \<Rightarrow> ebind (dfs reg s stack) (\<lambda>rest. Inr (alloc # rest))
        | sp # later \<Rightarrow>
            ebind (case it of None \<Rightarrow> open_frame reg s sp | Some l \<Rightarrow> Inr (Some l)) (\<lambda>opened.
            case opened of
              None \<Rightarrow> dfs reg s stack
            | Some [] \<Rightarrow> dfs reg s stack
            | Some (lvs # tail) \<Rightarrow>
                (case sp of ((name, md, units, grp), _) \<Rightarrow>
                ebind (place reg md units grp lvs alloc) (\<lambda>placed.
                case placed of
                  None \<Rightarrow> dfs reg s ((specs, alloc, Some tail) # stack)
                | Some candidate \<Rightarrow>
                    ebind (compatible reg candidate (s_others s)) (\<lambda>ok.
                    if ok then dfs reg s ((later, candidate, None) # (specs, alloc, Some tail) # stack)
                    else dfs reg s ((specs, alloc, Some tail) # stack)))))))"
  by pat_completeness auto
termination
  by (relation "measure (\<lambda>(reg, s, stack). sum_list (map (frame_cost reg s) stack))")
    (auto simp: frame_cost_pos search_cost_pos split: option.splits dest!: iterations_open)

declare dfs.simps [simp del]

definition specifications :: "registry \<Rightarrow> json \<Rightarrow> err + spec list" where
  "specifications reg needs =
     ebind (demands reg needs) (\<lambda>ds.
     emap (\<lambda>d. ebind (selector_leaves reg (fst d) []) (\<lambda>ls. Inr (d, ls))) ds)"

definition assignments :: "registry \<Rightarrow> json \<Rightarrow> search \<Rightarrow> err + allocation list" where
  "assignments reg needs s =
     ebind (specifications reg needs) (\<lambda>specs. dfs reg s [(specs, [], None)])"

text \<open>\<open>next(assignments(...), None)\<close>\<close>

definition first_assignment :: "registry \<Rightarrow> json \<Rightarrow> search \<Rightarrow> err + allocation option" where
  "first_assignment reg needs s =
     ebind (assignments reg needs s) (\<lambda>as. Inr (case as of [] \<Rightarrow> None | a # _ \<Rightarrow> Some a))"

section \<open>The search computes without raising\<close>

definition is_leaf :: "registry \<Rightarrow> string \<Rightarrow> bool" where
  "is_leaf reg x = (case map_of reg x of Some (Leaf l) \<Rightarrow> True | _ \<Rightarrow> False)"

definition cap_of :: "registry \<Rightarrow> string \<Rightarrow> int" where
  "cap_of reg x = (case map_of reg x of Some (Leaf l) \<Rightarrow> capacity l | _ \<Rightarrow> 0)"

text \<open>One claim on one leaf beside the claims that occupy it.\<close>

definition fits :: "registry \<Rightarrow> allocation list \<Rightarrow> string \<Rightarrow> claim \<Rightarrow> bool" where
  "fits reg others x c \<longleftrightarrow>
     claim_units c \<le> cap_of reg x \<and>
     (occupied_at others x = [] \<or>
      \<not> clashes c (occupied_at others x) \<and> claim_units c + units_sum (occupied_at others x) \<le> cap_of reg x)"

definition all_fit :: "registry \<Rightarrow> allocation list \<Rightarrow> allocation \<Rightarrow> bool" where
  "all_fit reg others a \<longleftrightarrow> (\<forall>(x, c) \<in> set a. fits reg others x c)"

lemma is_leaf_iff: "is_leaf reg x \<longleftrightarrow> (\<exists>l. map_of reg x = Some (Leaf l))"
  by (auto simp: is_leaf_def split: option.splits entry.splits)

lemma capacity_at_leaf [simp]: "is_leaf reg x \<Longrightarrow> capacity_at reg x = Inr (cap_of reg x)"
  by (auto simp: is_leaf_iff capacity_at_def cap_of_def)

lemma compatible_pure:
  "(\<And>x c. (x, c) \<in> set a \<Longrightarrow> is_leaf reg x) \<Longrightarrow> compatible reg a others = Inr (all_fit reg others a)"
proof (induction reg a others rule: compatible.induct)
  case (2 reg x c rest others)
  have leaf: "is_leaf reg x" using "2.prems" [of x c] by simp
  then have known: "map_of reg x \<noteq> None" by (auto simp: is_leaf_iff)
  have rest: "compatible reg rest others = Inr (all_fit reg others rest)"
    if "\<not> cap_of reg x < claim_units c"
      "occupied_at others x = [] \<or> \<not> clashes c (occupied_at others x) \<and>
         \<not> cap_of reg x < claim_units c + units_sum (occupied_at others x)"
    using "2.IH" [of "cap_of reg x < claim_units c" "occupied_at others x"]
      "2.prems" leaf known that by fastforce
  have "all_fit reg others ((x, c) # rest) \<longleftrightarrow> fits reg others x c \<and> all_fit reg others rest"
    by (simp add: all_fit_def)
  then show ?case using rest leaf known by (auto simp: fits_def Let_def not_less)
qed (simp add: all_fit_def)

declare compatible.simps [simp del]

lemma compatible_single:
  "is_leaf reg x \<Longrightarrow> compatible reg [(x, c)] others = Inr (fits reg others x c)"
  using compatible_pure [of "[(x, c)]" reg others] by (simp add: all_fit_def)

text \<open>\<open>place\<close> on leaves, without the exception monad.\<close>

fun place_ref :: "registry \<Rightarrow> mode \<Rightarrow> int \<Rightarrow> json \<Rightarrow> string list \<Rightarrow> allocation \<Rightarrow> allocation option" where
  "place_ref reg md units grp [] candidate = Some candidate"
| "place_ref reg md units grp (x # xs) candidate =
     (let u = (case map_of candidate x of None \<Rightarrow> units | Some old \<Rightarrow> units + claim_units old) in
      if (case map_of candidate x of None \<Rightarrow> False
          | Some old \<Rightarrow> md \<noteq> Shared \<or> claim_mode old \<noteq> Shared \<or> claim_group old \<noteq> grp) \<or> cap_of reg x < u
      then None
      else place_ref reg md units grp xs
             (AList.update x \<lparr>claim_mode = md, claim_units = u, claim_group = grp\<rparr> candidate))"

lemma place_pure:
  "(\<And>x. x \<in> set xs \<Longrightarrow> is_leaf reg x) \<Longrightarrow>
   place reg md units grp xs a = Inr (place_ref reg md units grp xs a)"
  by (induction xs arbitrary: a) (auto simp: Let_def split: option.splits)

text \<open>Every claim of an allocation is positive; placing keeps that, adds no leaf but the given
  ones, and leaves at least the placed units on each of them.\<close>

definition pos_units :: "allocation \<Rightarrow> bool" where
  "pos_units a \<longleftrightarrow> (\<forall>(x, c) \<in> set a. 1 \<le> claim_units c)"

definition leaf_keys :: "registry \<Rightarrow> allocation \<Rightarrow> bool" where
  "leaf_keys reg a \<longleftrightarrow> (\<forall>x \<in> set (keys a). is_leaf reg x)"

lemma leaf_keysD: "leaf_keys reg a \<Longrightarrow> (x, c) \<in> set a \<Longrightarrow> is_leaf reg x"
  by (force simp: leaf_keys_def keys_def)

lemma set_update_subset: "set (AList.update k v al) \<subseteq> insert (k, v) (set al)"
  by (induction al) auto

lemma pos_units_update: "pos_units a \<Longrightarrow> 1 \<le> claim_units c \<Longrightarrow> pos_units (AList.update x c a)"
  using set_update_subset [of x c a] unfolding pos_units_def by blast

lemma pos_units_map_of: "pos_units a \<Longrightarrow> map_of a x = Some c \<Longrightarrow> 1 \<le> claim_units c"
  by (auto simp: pos_units_def dest!: map_of_SomeD)

lemma place_ref_pos:
  "place_ref reg md units grp xs a = Some a' \<Longrightarrow> 1 \<le> units \<Longrightarrow> pos_units a \<Longrightarrow> pos_units a'"
proof (induction xs arbitrary: a)
  case (Cons x xs)
  let ?u = "case map_of a x of None \<Rightarrow> units | Some old \<Rightarrow> units + claim_units old"
  let ?c = "\<lparr>claim_mode = md, claim_units = ?u, claim_group = grp\<rparr>"
  have "place_ref reg md units grp xs (AList.update x ?c a) = Some a'"
    using Cons.prems(1) by (auto simp: Let_def split: if_splits)
  moreover have "1 \<le> ?u" using Cons.prems(2,3) by (auto split: option.splits dest: pos_units_map_of)
  ultimately show ?case using Cons.IH Cons.prems(2,3) by (simp add: pos_units_update)
qed simp

lemma place_ref_keys:
  "place_ref reg md units grp xs a = Some a' \<Longrightarrow> set (keys a') = set (keys a) \<union> set xs"
  by (induction xs arbitrary: a) (auto simp: Let_def keys_update split: if_splits)

lemma place_ref_distinct:
  "place_ref reg md units grp xs a = Some a' \<Longrightarrow> distinct (keys a) \<Longrightarrow> distinct (keys a')"
  by (induction xs arbitrary: a) (auto simp: Let_def distinct_keys_update split: if_splits)

lemma place_ref_other:
  "place_ref reg md units grp xs a = Some a' \<Longrightarrow> x \<notin> set xs \<Longrightarrow> map_of a' x = map_of a x"
  by (induction xs arbitrary: a) (auto simp: Let_def split: if_splits)

lemma place_ref_mono:
  "place_ref reg md units grp xs a = Some a' \<Longrightarrow> 1 \<le> units \<Longrightarrow> map_of a x = Some c \<Longrightarrow>
   \<exists>c'. map_of a' x = Some c' \<and> claim_mode c' = claim_mode c \<and> claim_group c' = claim_group c \<and>
     claim_units c \<le> claim_units c'"
proof (induction xs arbitrary: a c)
  case (Cons y xs)
  let ?u = "case map_of a y of None \<Rightarrow> units | Some old \<Rightarrow> units + claim_units old"
  let ?a = "AList.update y \<lparr>claim_mode = md, claim_units = ?u, claim_group = grp\<rparr> a"
  have step: "place_ref reg md units grp xs ?a = Some a'"
    using Cons.prems(1) by (auto simp: Let_def split: if_splits)
  show ?case
  proof (cases "y = x")
    case True
    have "claim_mode c = md" "claim_group c = grp"
      using Cons.prems(1,3) True by (auto simp: Let_def split: if_splits)
    with Cons.IH [OF step Cons.prems(2), of "\<lparr>claim_mode = md, claim_units = ?u, claim_group = grp\<rparr>"]
      True Cons.prems(2,3) show ?thesis by fastforce
  next
    case False
    then show ?thesis using Cons.IH [OF step Cons.prems(2), of c] Cons.prems(3) by simp
  qed
qed simp

lemma place_ref_covers:
  "place_ref reg md units grp xs a = Some a' \<Longrightarrow> 1 \<le> units \<Longrightarrow> pos_units a \<Longrightarrow> x \<in> set xs \<Longrightarrow>
   \<exists>c. map_of a' x = Some c \<and> claim_mode c = md \<and> claim_group c = grp \<and> units \<le> claim_units c"
proof (induction xs arbitrary: a)
  case (Cons y xs)
  let ?u = "case map_of a y of None \<Rightarrow> units | Some old \<Rightarrow> units + claim_units old"
  let ?c = "\<lparr>claim_mode = md, claim_units = ?u, claim_group = grp\<rparr>"
  let ?a = "AList.update y ?c a"
  have step: "place_ref reg md units grp xs ?a = Some a'"
    using Cons.prems(1) by (auto simp: Let_def split: if_splits)
  have u: "units \<le> ?u" using Cons.prems(3) by (auto split: option.splits dest: pos_units_map_of)
  show ?case
  proof (cases "y = x")
    case True
    then show ?thesis using place_ref_mono [OF step Cons.prems(2), of x ?c] u by fastforce
  next
    case False
    then have "x \<in> set xs" using Cons.prems(4) by simp
    moreover have "pos_units ?a" using Cons.prems(2,3) u by (simp add: pos_units_update)
    ultimately show ?thesis using Cons.IH [OF step Cons.prems(2)] by blast
  qed
qed simp

text \<open>Claims that do not fit do not fit with more units either.\<close>

lemma fits_mono:
  "fits reg others x c' \<Longrightarrow> claim_mode c' = claim_mode c \<Longrightarrow> claim_group c' = claim_group c \<Longrightarrow>
   claim_units c \<le> claim_units c' \<Longrightarrow> fits reg others x c"
  by (auto simp: fits_def clashes_def)

lemma place_ref_unfit:
  assumes "place_ref reg md units grp xs a = Some a'" "1 \<le> units" "pos_units a" "x \<in> set xs"
    and "\<not> fits reg others x \<lparr>claim_mode = md, claim_units = units, claim_group = grp\<rparr>"
  shows "\<not> all_fit reg others a'"
proof -
  from place_ref_covers [OF assms(1-4)] obtain c where c: "map_of a' x = Some c"
    "claim_mode c = md" "claim_group c = grp" "units \<le> claim_units c" by blast
  have "\<not> fits reg others x c"
    using fits_mono [of reg others x c "\<lparr>claim_mode = md, claim_units = units, claim_group = grp\<rparr>"]
      c(2-4) assms(5) by auto
  with c(1) show ?thesis by (auto simp: all_fit_def dest: map_of_SomeD)
qed

section \<open>Pruning loses nothing\<close>

lemma selector_claim_available_Leaf:
  "name \<notin> set trail \<Longrightarrow> map_of reg name = Some (Leaf l) \<Longrightarrow>
   selector_claim_available reg name c others excluded trail =
     Inr (name \<notin> set excluded \<and> fits reg others name c)"
  by (subst selector_claim_available.simps) (simp add: compatible_single is_leaf_iff)

lemma selector_claim_available_Selector:
  "name \<notin> set trail \<Longrightarrow> map_of reg name = Some (Selector k members fs) \<Longrightarrow>
   selector_claim_available reg name c others excluded trail =
     (if k = Alias \<or> k = Pool
      then eany (\<lambda>m. selector_claim_available reg m c others excluded (trail @ [name])) members
      else eall (\<lambda>m. selector_claim_available reg m c others excluded (trail @ [name])) members)"
  by (subst selector_claim_available.simps) simp

text \<open>The leaves a claim cannot take: asking whether a claim can be satisfied is asking whether the
  selector is available once they are excluded.\<close>

definition unfit :: "registry \<Rightarrow> allocation list \<Rightarrow> claim \<Rightarrow> string list \<Rightarrow> string list" where
  "unfit reg others c xs = filter (\<lambda>x. \<not> fits reg others x c) xs"

lemma selector_claim_available_eq:
  assumes "selector_leaves reg name trail = Inr ls" "set ls \<subseteq> set all"
  shows "selector_claim_available reg name c others excluded trail =
    selector_available reg name (excluded @ unfit reg others c all) trail"
  using assms
proof (induction rule: walk_induct)
  case (leaf name trail l)
  then show ?case
    by (auto simp: selector_claim_available_Leaf selector_available_Leaf unfit_def)
next
  case (selector name trail k members fs lss)
  let ?f = "\<lambda>m. selector_claim_available reg m c others excluded (trail @ [name])"
  let ?g = "\<lambda>m. selector_available reg m (excluded @ unfit reg others c all) (trail @ [name])"
  have eq: "?f m = ?g m \<and> (\<exists>b. ?g m = Inr b)" if m: "m \<in> set members" for m
  proof -
    from selector.IH [OF m] obtain l where l: "l \<in> set lss"
      "selector_leaves reg m (trail @ [name]) = Inr l"
      "set l \<subseteq> set all \<longrightarrow> ?f m = ?g m" by blast
    from l(1) selector.prems have "set l \<subseteq> set all" by auto
    with l selector_available_total [OF l(2)] show ?thesis by blast
  qed
  let ?b = "\<lambda>m. case ?g m of Inr b \<Rightarrow> b | Inl _ \<Rightarrow> False"
  have f: "?f m = Inr (?b m)" and g: "?g m = Inr (?b m)" if "m \<in> set members" for m
    using eq [OF that] by auto
  show ?case
    using selector.hyps(1,2) emap_Inr_map [of members ?g ?b, OF g] eany_Inr_pure [of members ?f ?b, OF f]
      eall_Inr_pure [of members ?f ?b, OF f]
    by (auto simp: selector_claim_available_Selector selector_available_Selector list_ex_iff list_all_iff)
qed


text \<open>The exhaustive search: every alternative of every need, no pruning, filtered at the end.\<close>

fun try_leaves :: "registry \<Rightarrow> allocation list \<Rightarrow> demand \<Rightarrow> string list \<Rightarrow> allocation \<Rightarrow> allocation option" where
  "try_leaves reg others (name, md, units, grp) lvs a =
     (case place_ref reg md units grp lvs a of
        None \<Rightarrow> None
      | Some a' \<Rightarrow> if all_fit reg others a' then Some a' else None)"

fun exhaustive ::
    "registry \<Rightarrow> allocation list \<Rightarrow> (demand \<times> string list list) list \<Rightarrow> allocation \<Rightarrow> allocation list" where
  "exhaustive reg others [] a = [a]"
| "exhaustive reg others ((d, choices) # rest) a =
     concat (map (\<lambda>lvs. case try_leaves reg others d lvs a of
                          None \<Rightarrow> [] | Some a' \<Rightarrow> exhaustive reg others rest a') choices)"

text \<open>The reference choices of one need: the unpruned alternatives that avoid the excluded leaves.\<close>

definition choices_of :: "registry \<Rightarrow> search \<Rightarrow> demand \<Rightarrow> string list list" where
  "choices_of reg s d =
     (case alternatives_ref reg (fst d) [] (s_priority s) of
        Inl _ \<Rightarrow> []
      | Inr cs \<Rightarrow> filter (\<lambda>c. disjoint_list c (s_excluded s)) cs)"

definition meets_required :: "search \<Rightarrow> allocation \<Rightarrow> bool" where
  "meets_required s a \<longleftrightarrow> s_required s = [] \<or> \<not> disjoint_list (s_required s) (keys a)"

definition spec_ok :: "registry \<Rightarrow> spec \<Rightarrow> bool" where
  "spec_ok reg sp \<longleftrightarrow> selector_leaves reg (fst (fst sp)) [] = Inr (snd sp) \<and> 1 \<le> fst (snd (snd (fst sp)))"

lemma choices_leaves:
  assumes "spec_ok reg sp" "lvs \<in> set (choices_of reg s (fst sp))"
  shows "set lvs \<subseteq> set (snd sp)"
proof -
  from assms(1) obtain cs where "alternatives_ref reg (fst (fst sp)) [] (s_priority s) = Inr cs"
    using alternatives_ref_total by (fastforce simp: spec_ok_def)
  with assms alternatives_ref_leaves show ?thesis
    by (fastforce simp: choices_of_def spec_ok_def)
qed

lemma spec_leaf: "spec_ok reg sp \<Longrightarrow> x \<in> set (snd sp) \<Longrightarrow> is_leaf reg x"
  using selector_leaves_are_leaves by (fastforce simp: spec_ok_def is_leaf_iff)

definition the_claim :: "demand \<Rightarrow> claim" where
  "the_claim d = \<lparr>claim_mode = fst (snd d), claim_units = fst (snd (snd d)), claim_group = snd (snd (snd d))\<rparr>"

text \<open>Opening a frame yields the reference choices without those that need an unfit leaf.\<close>

lemma open_frame_eq:
  assumes "spec_ok reg sp"
  shows "\<exists>opened. open_frame reg s sp = Inr opened \<and>
    (case opened of None \<Rightarrow> [] | Some it \<Rightarrow> it) =
      filter (\<lambda>c. disjoint_list c (unfit reg (s_others s) (the_claim (fst sp)) (snd sp)))
        (choices_of reg s (fst sp))"
proof -
  obtain name md units grp ls where sp: "sp = ((name, md, units, grp), ls)" by (metis prod.collapse)
  let ?c = "\<lparr>claim_mode = md, claim_units = units, claim_group = grp\<rparr>"
  let ?bad = "unfit reg (s_others s) ?c ls"
  from assms sp have walk: "selector_leaves reg name [] = Inr ls" by (simp add: spec_ok_def)
  from alternatives_ref_total [OF walk] obtain cs where
    cs: "alternatives_ref reg name [] (s_priority s) = Inr cs" by blast
  from selector_available_total [OF walk] obtain b where
    b: "selector_available reg name (s_excluded s @ ?bad) [] = Inr b" by blast
  have claim: "selector_claim_available reg name ?c (s_others s) (s_excluded s) [] = Inr b"
    using selector_claim_available_eq [OF walk order.refl] b by simp
  have "emap (\<lambda>x. ebind (compatible reg [(x, ?c)] (s_others s)) (\<lambda>ok. Inr (if ok then [] else [x]))) ls =
      Inr (map (\<lambda>x. if fits reg (s_others s) x ?c then [] else [x]) ls)"
    by (rule emap_Inr_map) (use spec_leaf [OF assms] sp in \<open>simp add: compatible_single\<close>)
  moreover have "concat (map (\<lambda>x. if fits reg (s_others s) x ?c then [] else [x]) ls) = ?bad"
    by (induction ls) (auto simp: unfit_def)
  moreover have filt: "filter (\<lambda>c. disjoint_list c (s_excluded s @ ?bad)) cs =
      filter (\<lambda>c. disjoint_list c ?bad) (filter (\<lambda>c. disjoint_list c (s_excluded s)) cs)"
    by (auto simp: disjoint_list_def intro!: filter_cong)
  moreover have "b \<or> filter (\<lambda>c. disjoint_list c (s_excluded s @ ?bad)) cs = []"
    using unavailable_no_choice [OF walk _ cs] b by (auto simp: filter_empty_conv)
  ultimately show ?thesis
    using claim alternatives_filter [OF walk cs, of "s_excluded s @ ?bad"] cs
    by (cases b) (auto simp: sp choices_of_def the_claim_def Let_def)
qed

text \<open>A choice with an unfit leaf contributes nothing.\<close>

lemma try_leaves_unfit:
  assumes "spec_ok reg sp" "pos_units a"
    and "\<not> disjoint_list lvs (unfit reg others (the_claim (fst sp)) (snd sp))"
  shows "try_leaves reg others (fst sp) lvs a = None"
proof -
  obtain name md units grp ls where sp: "sp = ((name, md, units, grp), ls)" by (metis prod.collapse)
  from assms(3) obtain x where "x \<in> set lvs"
    "\<not> fits reg others x \<lparr>claim_mode = md, claim_units = units, claim_group = grp\<rparr>"
    by (auto simp: disjoint_list_def unfit_def the_claim_def sp)
  with place_ref_unfit [where others = others] assms(1,2) show ?thesis
    by (fastforce simp: sp spec_ok_def split: option.splits)
qed


section \<open>The explicit-frame search is the exhaustive search\<close>

definition refs :: "registry \<Rightarrow> search \<Rightarrow> spec list \<Rightarrow> (demand \<times> string list list) list" where
  "refs reg s specs = map (\<lambda>sp. (fst sp, choices_of reg s (fst sp))) specs"

definition branch :: "registry \<Rightarrow> search \<Rightarrow> spec \<Rightarrow> spec list \<Rightarrow> allocation \<Rightarrow> string list list \<Rightarrow> allocation list" where
  "branch reg s sp later a its =
     concat (map (\<lambda>lvs. case try_leaves reg (s_others s) (fst sp) lvs a of
                          None \<Rightarrow> [] | Some a' \<Rightarrow> exhaustive reg (s_others s) (refs reg s later) a') its)"

lemma refs_Cons [simp]:
  "refs reg s [] = []"
  "refs reg s (sp # later) = (fst sp, choices_of reg s (fst sp)) # refs reg s later"
  by (simp_all add: refs_def)

lemma exhaustive_branch:
  "exhaustive reg (s_others s) (refs reg s (sp # later)) a =
   branch reg s sp later a (choices_of reg s (fst sp))"
  by (simp add: branch_def)

lemma try_leaves_keys:
  "try_leaves reg others d lvs a = Some a' \<Longrightarrow> set (keys a') = set (keys a) \<union> set lvs"
  by (cases d) (auto split: option.splits if_splits dest: place_ref_keys)

lemma try_leaves_pos:
  "try_leaves reg others d lvs a = Some a' \<Longrightarrow> 1 \<le> fst (snd (snd d)) \<Longrightarrow> pos_units a \<Longrightarrow> pos_units a'"
  by (cases d) (auto split: option.splits if_splits dest: place_ref_pos)

lemma exhaustive_keys:
  "\<forall>sp\<in>set specs. spec_ok reg sp \<Longrightarrow> a' \<in> set (exhaustive reg (s_others s) (refs reg s specs) a) \<Longrightarrow>
   set (keys a') \<subseteq> set (keys a) \<union> set (concat (map snd specs))"
proof (induction specs arbitrary: a)
  case (Cons sp later)
  from Cons.prems(2) obtain lvs where lvs: "lvs \<in> set (choices_of reg s (fst sp))"
    and c: "a' \<in> set (case try_leaves reg (s_others s) (fst sp) lvs a of
      None \<Rightarrow> [] | Some b \<Rightarrow> exhaustive reg (s_others s) (refs reg s later) b)" by auto
  from c obtain b where b: "try_leaves reg (s_others s) (fst sp) lvs a = Some b"
    and a': "a' \<in> set (exhaustive reg (s_others s) (refs reg s later) b)"
    by (cases "try_leaves reg (s_others s) (fst sp) lvs a") auto
  from Cons.IH [OF _ a'] Cons.prems(1) try_leaves_keys [OF b] choices_leaves [OF _ lvs] show ?case
    by auto
qed simp

lemma branch_keys:
  assumes "\<forall>sp\<in>set (sp # later). spec_ok reg sp" "set its \<subseteq> set (choices_of reg s (fst sp))"
    and "a' \<in> set (branch reg s sp later a its)"
  shows "set (keys a') \<subseteq> set (keys a) \<union> set (concat (map snd (sp # later)))"
proof -
  have "set (branch reg s sp later a its) \<subseteq> set (branch reg s sp later a (choices_of reg s (fst sp)))"
    using assms(2) by (auto simp: branch_def)
  then have "a' \<in> set (exhaustive reg (s_others s) (refs reg s (sp # later)) a)"
    using assms(3) unfolding exhaustive_branch by blast
  from exhaustive_keys [OF assms(1) this] show ?thesis .
qed

lemma branch_filter:
  "(\<And>lvs. \<not> P lvs \<Longrightarrow> try_leaves reg (s_others s) (fst sp) lvs a = None) \<Longrightarrow>
   branch reg s sp later a (filter P its) = branch reg s sp later a its"
  by (induction its) (auto simp: branch_def)

lemma pruned_frame:
  assumes "s_required s \<noteq> []" "disjoint_list (s_required s) (keys a @ xs)"
    and "set (keys a') \<subseteq> set (keys a) \<union> set xs"
  shows "\<not> meets_required s a'"
  using assms by (auto simp: meets_required_def disjoint_list_def)

definition prepend :: "allocation list \<Rightarrow> err + allocation list \<Rightarrow> err + allocation list" where
  "prepend r m = ebind m (\<lambda>rest. Inr (r @ rest))"

lemma prepend_simps [simp]:
  "prepend [] m = m"
  "prepend r (prepend r' m) = prepend (r @ r') m"
  "ebind (prepend r m) f = ebind m (\<lambda>rest. f (r @ rest))"
  by (cases m; simp add: prepend_def)+

lemma dfs_pruned:
  "s_required s \<noteq> [] \<Longrightarrow> disjoint_list (s_required s) (keys a @ concat (map snd specs)) \<Longrightarrow>
   dfs reg s ((specs, a, it) # stack) = dfs reg s stack"
  by (subst dfs.simps) simp

lemma dfs_open:
  "open_frame reg s sp = Inr opened \<Longrightarrow>
   dfs reg s ((sp # later, a, None) # stack) =
     (case opened of None \<Rightarrow> dfs reg s stack | Some it \<Rightarrow> dfs reg s ((sp # later, a, Some it) # stack))"
  by (subst dfs.simps) (subst (3) dfs.simps, auto split: option.splits list.splits)

lemma dfs_iterator:
  assumes IH: "\<And>a stack. pos_units a \<Longrightarrow> leaf_keys reg a \<Longrightarrow> dfs reg s ((later, a, None) # stack) =
      prepend (filter (meets_required s) (exhaustive reg (s_others s) (refs reg s later) a)) (dfs reg s stack)"
    and ok: "\<forall>sp\<in>set (sp # later). spec_ok reg sp" and a: "pos_units a" "leaf_keys reg a"
    and its: "set its \<subseteq> set (choices_of reg s (fst sp))"
  shows "dfs reg s ((sp # later, a, Some its) # stack) =
    prepend (filter (meets_required s) (branch reg s sp later a its)) (dfs reg s stack)"
proof (cases "s_required s \<noteq> [] \<and> disjoint_list (s_required s) (keys a @ concat (map snd (sp # later)))")
  case True
  have "\<not> meets_required s a'" if "a' \<in> set (branch reg s sp later a its)" for a'
    using pruned_frame [OF _ _ branch_keys [OF ok its that]] True by blast
  then have "filter (meets_required s) (branch reg s sp later a its) = []"
    by (simp add: filter_empty_conv)
  with True show ?thesis by (simp add: dfs_pruned)
next
  case False
  obtain name md units grp ls where sp: "sp = ((name, md, units, grp), ls)" by (metis prod.collapse)
  from its show ?thesis
  proof (induction its)
    case Nil
    from False show ?case by (subst dfs.simps) (auto simp: branch_def)
  next
    case (Cons lvs rest)
    have leaves: "\<And>x. x \<in> set lvs \<Longrightarrow> is_leaf reg x"
      using choices_leaves [of reg sp lvs s] spec_leaf [of reg sp] Cons.prems ok by auto
    let ?placed = "place_ref reg md units grp lvs a"
    let ?next = "dfs reg s ((sp # later, a, Some rest) # stack)"
    have fit: "compatible reg a' (s_others s) = Inr (all_fit reg (s_others s) a')"
      and keys: "pos_units a' \<and> leaf_keys reg a'" if "?placed = Some a'" for a'
    proof -
      have "leaf_keys reg a'"
        using place_ref_keys [OF that] leaves a(2) by (auto simp: leaf_keys_def)
      then show "compatible reg a' (s_others s) = Inr (all_fit reg (s_others s) a')"
        using compatible_pure leaf_keysD by blast
      show "pos_units a' \<and> leaf_keys reg a'"
        using place_ref_pos [OF that] a(1) ok sp \<open>leaf_keys reg a'\<close> by (auto simp: spec_ok_def)
    qed
    have step: "dfs reg s ((sp # later, a, Some (lvs # rest)) # stack) =
      (case ?placed of None \<Rightarrow> ?next
       | Some a' \<Rightarrow> if all_fit reg (s_others s) a'
           then dfs reg s ((later, a', None) # (sp # later, a, Some rest) # stack) else ?next)"
      using False by (subst dfs.simps) (auto simp: sp place_pure leaves fit split: option.splits)
    have "?next = prepend (filter (meets_required s) (branch reg s sp later a rest)) (dfs reg s stack)"
      using Cons by simp
    then show ?case
      unfolding step using IH keys
      by (auto simp: branch_def sp split: option.splits)
  qed
qed

lemma dfs_exhaustive:
  assumes "\<forall>sp\<in>set specs. spec_ok reg sp" "pos_units a" "leaf_keys reg a"
  shows "dfs reg s ((specs, a, None) # stack) =
    prepend (filter (meets_required s) (exhaustive reg (s_others s) (refs reg s specs) a)) (dfs reg s stack)"
  using assms
proof (induction specs arbitrary: a stack)
  case Nil
  show ?case
    by (subst dfs.simps) (auto simp: prepend_def meets_required_def)
next
  case (Cons sp later)
  let ?bad = "unfit reg (s_others s) (the_claim (fst sp)) (snd sp)"
  let ?all = "choices_of reg s (fst sp)"
  have sp: "spec_ok reg sp" using Cons.prems by simp
  from open_frame_eq [OF sp, of s] obtain opened where o: "open_frame reg s sp = Inr opened"
    "(case opened of None \<Rightarrow> [] | Some it \<Rightarrow> it) = filter (\<lambda>c. disjoint_list c ?bad) ?all" by blast
  have branch: "branch reg s sp later a (filter (\<lambda>c. disjoint_list c ?bad) ?all) = branch reg s sp later a ?all"
    by (rule branch_filter) (rule try_leaves_unfit [OF sp Cons.prems(2)])
  have IH: "\<And>a stack. pos_units a \<Longrightarrow> leaf_keys reg a \<Longrightarrow> dfs reg s ((later, a, None) # stack) =
      prepend (filter (meets_required s) (exhaustive reg (s_others s) (refs reg s later) a)) (dfs reg s stack)"
    using Cons.IH Cons.prems(1) by simp
  show ?case
  proof (cases opened)
    case None
    with o branch have "branch reg s sp later a ?all = []" by (simp add: branch_def)
    with o(1) None show ?thesis unfolding exhaustive_branch by (simp add: dfs_open)
  next
    case (Some it)
    with o(2) have it: "it = filter (\<lambda>c. disjoint_list c ?bad) ?all" by simp
    then have "set it \<subseteq> set ?all" by auto
    from dfs_iterator [OF IH Cons.prems this] show ?thesis
      using o(1) Some branch unfolding exhaustive_branch it by (simp add: dfs_open)
  qed
qed


section \<open>What the search yields\<close>

lemma demand_of_units: "demand_of reg need = Inr (name, md, units, grp) \<Longrightarrow> 1 \<le> units"
  by (auto simp: demand_of_def err_simps Let_def split: json.splits if_splits)

lemma specifications_ok:
  assumes "specifications reg needs = Inr specs"
  shows "\<forall>sp\<in>set specs. spec_ok reg sp"
proof
  fix sp assume sp: "sp \<in> set specs"
  from assms obtain ds where ds: "demands reg needs = Inr ds"
    and specs: "emap (\<lambda>d. ebind (selector_leaves reg (fst d) []) (\<lambda>ls. Inr (d, ls))) ds = Inr specs"
    by (auto simp: specifications_def err_simps)
  from emap_Inr_set [OF specs sp] obtain d ls where d: "d \<in> set ds" "sp = (d, ls)"
    "selector_leaves reg (fst d) [] = Inr ls" by (auto simp: err_simps)
  from ds obtain ns where "emap (demand_of reg) ns = Inr ds"
    by (auto simp: demands_def split: json.splits)
  from emap_Inr_set [OF this d(1)] demand_of_units have "1 \<le> fst (snd (snd d))"
    by (metis prod.collapse)
  with d show "spec_ok reg sp" by (simp add: spec_ok_def)
qed

lemma leaf_keys_Nil [simp]: "leaf_keys reg []" "pos_units []" "all_fit reg others []" "keys [] = []"
  by (simp_all add: leaf_keys_def pos_units_def all_fit_def keys_def)

lemma assignments_exhaustive:
  assumes "specifications reg needs = Inr specs"
  shows "assignments reg needs s =
    Inr (filter (meets_required s) (exhaustive reg (s_others s) (refs reg s specs) []))"
  using dfs_exhaustive [OF specifications_ok [OF assms], of "[]" s "[]"] assms
  by (simp add: assignments_def prepend_def dfs.simps)

text \<open>The shape of every yielded allocation.\<close>

definition within_capacity :: "registry \<Rightarrow> allocation \<Rightarrow> bool" where
  "within_capacity reg a \<longleftrightarrow> (\<forall>(x, c) \<in> set a. claim_units c \<le> cap_of reg x)"

definition allocation_ok :: "registry \<Rightarrow> allocation \<Rightarrow> bool" where
  "allocation_ok reg a \<longleftrightarrow>
     distinct (keys a) \<and> leaf_keys reg a \<and> pos_units a \<and> within_capacity reg a"

lemma allocation_ok_Nil [simp]: "allocation_ok reg []"
  by (simp add: allocation_ok_def within_capacity_def)

lemma place_ref_within:
  "place_ref reg md units grp xs a = Some a' \<Longrightarrow> within_capacity reg a \<Longrightarrow> within_capacity reg a'"
proof (induction xs arbitrary: a)
  case (Cons x xs)
  let ?u = "case map_of a x of None \<Rightarrow> units | Some old \<Rightarrow> units + claim_units old"
  let ?c = "\<lparr>claim_mode = md, claim_units = ?u, claim_group = grp\<rparr>"
  have "place_ref reg md units grp xs (AList.update x ?c a) = Some a'" and "?u \<le> cap_of reg x"
    using Cons.prems(1) by (auto simp: Let_def split: if_splits)
  moreover from this(2) Cons.prems(2) have "within_capacity reg (AList.update x ?c a)"
    using set_update_subset [of x ?c a] unfolding within_capacity_def by fastforce
  ultimately show ?case using Cons.IH by blast
qed simp

lemma try_leaves_ok:
  assumes "try_leaves reg (s_others s) (fst sp) lvs a = Some a'" "spec_ok reg sp"
    and "lvs \<in> set (choices_of reg s (fst sp))" "allocation_ok reg a"
  shows "allocation_ok reg a'"
proof -
  obtain name md units grp ls where sp: "sp = ((name, md, units, grp), ls)" by (metis prod.collapse)
  from assms(1) have p: "place_ref reg md units grp lvs a = Some a'"
    by (simp add: sp split: option.splits if_splits)
  have "is_leaf reg x" if "x \<in> set lvs" for x
    using choices_leaves [OF assms(2,3)] spec_leaf [OF assms(2)] that by blast
  with p assms(2,4) sp show ?thesis
    unfolding allocation_ok_def
    by (auto simp: leaf_keys_def spec_ok_def dest: place_ref_keys place_ref_distinct place_ref_pos
        place_ref_within)
qed

text \<open>\<open>a\<close> satisfies the need \<open>d\<close> on the leaves \<open>lvs\<close>: each is claimed in the need's mode and group
  with at least its units.\<close>

definition satisfies :: "allocation \<Rightarrow> demand \<Rightarrow> string list \<Rightarrow> bool" where
  "satisfies a d lvs \<longleftrightarrow>
     (\<forall>x\<in>set lvs. \<exists>c. map_of a x = Some c \<and> claim_mode c = fst (snd d) \<and>
        claim_group c = snd (snd (snd d)) \<and> fst (snd (snd d)) \<le> claim_units c)"

lemma exhaustive_mono:
  "a' \<in> set (exhaustive reg (s_others s) (refs reg s specs) a) \<Longrightarrow> \<forall>sp\<in>set specs. spec_ok reg sp \<Longrightarrow>
   satisfies a d lvs \<Longrightarrow> satisfies a' d lvs"
proof (induction specs arbitrary: a)
  case (Cons sp later)
  obtain name md units grp ls where sp: "sp = ((name, md, units, grp), ls)" by (metis prod.collapse)
  from Cons.prems(1) obtain lvs' where
    c: "a' \<in> set (case try_leaves reg (s_others s) (fst sp) lvs' a of
      None \<Rightarrow> [] | Some b \<Rightarrow> exhaustive reg (s_others s) (refs reg s later) b)" by auto
  then obtain b where b: "try_leaves reg (s_others s) (fst sp) lvs' a = Some b"
    and a': "a' \<in> set (exhaustive reg (s_others s) (refs reg s later) b)"
    by (cases "try_leaves reg (s_others s) (fst sp) lvs' a") auto
  from b have p: "place_ref reg md units grp lvs' a = Some b"
    by (simp add: sp split: option.splits if_splits)
  have "1 \<le> units" using Cons.prems(2) by (simp add: sp spec_ok_def)
  have "satisfies b d lvs"
    unfolding satisfies_def
  proof
    fix x assume "x \<in> set lvs"
    with Cons.prems(3) obtain c where c: "map_of a x = Some c" "claim_mode c = fst (snd d)"
      "claim_group c = snd (snd (snd d))" "fst (snd (snd d)) \<le> claim_units c"
      by (auto simp: satisfies_def)
    from place_ref_mono [OF p \<open>1 \<le> units\<close> c(1)] c(2-4)
    show "\<exists>c. map_of b x = Some c \<and> claim_mode c = fst (snd d) \<and>
        claim_group c = snd (snd (snd d)) \<and> fst (snd (snd d)) \<le> claim_units c" by auto
  qed
  with Cons.IH [OF a'] Cons.prems(2) show ?case by simp
qed simp

lemma exhaustive_sound:
  "a' \<in> set (exhaustive reg (s_others s) (refs reg s specs) a) \<Longrightarrow> \<forall>sp\<in>set specs. spec_ok reg sp \<Longrightarrow>
   allocation_ok reg a \<Longrightarrow> all_fit reg (s_others s) a \<Longrightarrow>
   allocation_ok reg a' \<and> all_fit reg (s_others s) a' \<and>
   (\<forall>sp\<in>set specs. \<exists>lvs\<in>set (choices_of reg s (fst sp)). satisfies a' (fst sp) lvs) \<and>
   (set (keys a) \<inter> set (s_excluded s) = {} \<longrightarrow> set (keys a') \<inter> set (s_excluded s) = {})"
proof (induction specs arbitrary: a)
  case (Cons sp later)
  obtain name md units grp ls where sp: "sp = ((name, md, units, grp), ls)" by (metis prod.collapse)
  from Cons.prems(1) obtain lvs where lvs: "lvs \<in> set (choices_of reg s (fst sp))"
    and c: "a' \<in> set (case try_leaves reg (s_others s) (fst sp) lvs a of
      None \<Rightarrow> [] | Some b \<Rightarrow> exhaustive reg (s_others s) (refs reg s later) b)" by auto
  from c obtain b where b: "try_leaves reg (s_others s) (fst sp) lvs a = Some b"
    and a': "a' \<in> set (exhaustive reg (s_others s) (refs reg s later) b)"
    by (cases "try_leaves reg (s_others s) (fst sp) lvs a") auto
  from b have p: "place_ref reg md units grp lvs a = Some b" and fit: "all_fit reg (s_others s) b"
    by (auto simp: sp split: option.splits if_splits)
  have ok: "spec_ok reg sp" and units: "1 \<le> units"
    using Cons.prems(2) by (simp_all add: sp spec_ok_def)
  have "satisfies b (fst sp) lvs"
    using place_ref_covers [OF p units] Cons.prems(3) by (auto simp: satisfies_def allocation_ok_def sp)
  from exhaustive_mono [OF a' _ this] Cons.prems(2) have "satisfies a' (fst sp) lvs" by simp
  moreover have "set lvs \<inter> set (s_excluded s) = {}"
    using lvs by (auto simp: choices_of_def disjoint_list_def split: sum.splits)
  ultimately show ?case
    using Cons.IH [OF a' _ try_leaves_ok [OF b ok lvs Cons.prems(3)] fit] Cons.prems(2) lvs
      try_leaves_keys [OF b] by auto
qed simp

end
