(* ===== verification/Host_Binding.thy ===== *)
theory Host_Binding
  imports Engine_Prelude
begin

text \<open>
  Identifiers of durable events (\<open>core.validate_event_id\<close>) and the host binding contract of
  \<open>binding.py\<close>: which host and thread a completion is delivered to, the wake target captured from
  a binding at dispatch time, and the comparison of two destinations.

  \<open>datetime.fromisoformat\<close> is represented by the function \<open>isoformat\<close>: \<open>None\<close> is its \<open>ValueError\<close>,
  \<open>Some tz\<close> a timestamp that has (\<open>tz\<close>) or lacks a timezone. The clock's text (\<open>core.utc_now\<close>) is
  an argument.
\<close>

section \<open>Event identifiers\<close>

definition is_alnum :: "char \<Rightarrow> bool" where
  "is_alnum c \<longleftrightarrow>
     CHR ''0'' \<le> c \<and> c \<le> CHR ''9'' \<or> CHR ''A'' \<le> c \<and> c \<le> CHR ''Z'' \<or> CHR ''a'' \<le> c \<and> c \<le> CHR ''z''"

definition is_id_char :: "char \<Rightarrow> bool" where
  "is_id_char c \<longleftrightarrow> is_alnum c \<or> c = CHR ''_'' \<or> c = CHR ''.'' \<or> c = CHR ''-''"

text \<open>The regular expression \<open>[A-Za-z0-9][A-Za-z0-9_.-]{0,127}\<close>, matched in full.\<close>

fun id_pattern :: "string \<Rightarrow> bool" where
  "id_pattern [] = False"
| "id_pattern (c # cs) = (is_alnum c \<and> length cs \<le> 127 \<and> list_all is_id_char cs)"

fun validate_event_id :: "json \<Rightarrow> err + string" where
  "validate_event_id (JStr s) =
     (if id_pattern s then Inr s
      else Inl (OrchestratorError ''event_id must match [A-Za-z0-9][A-Za-z0-9_.-]{0,127}''))"
| "validate_event_id _ =
     Inl (OrchestratorError ''event_id must match [A-Za-z0-9][A-Za-z0-9_.-]{0,127}'')"

definition is_supported_schema_version :: "json \<Rightarrow> bool" where
  "is_supported_schema_version v \<longleftrightarrow> v = JInt 1"

section \<open>Bindings\<close>

definition supported_hosts :: "json list" where
  "supported_hosts = [JStr ''codex'', JStr ''claude'', JStr ''vscode'']"

definition requires_thread_id :: "json \<Rightarrow> bool" where
  "requires_thread_id host \<longleftrightarrow> host = JStr ''codex''"

definition write_binding ::
    "string \<Rightarrow> string \<Rightarrow> string option \<Rightarrow> string option \<Rightarrow> err + fields" where
  "write_binding now host thread_id codex_command =
     ebind (raise_if (JStr host \<notin> set supported_hosts) (BindingError ''unsupported host'')) (\<lambda>_.
     ebind (raise_if (requires_thread_id (JStr host) \<and> (thread_id = None \<or> thread_id = Some []))
              (BindingError ''host requires a target thread id'')) (\<lambda>_.
     Inr ([(''schema_version'', JInt 1), (''kind'', JStr ''ORCHESTRATOR_BINDING''),
           (''host'', JStr host), (''created_at'', JStr now)]
          @ (case thread_id of Some t \<Rightarrow> if t \<noteq> [] then [(''target_thread_id'', JStr t)] else [] | None \<Rightarrow> [])
          @ (case codex_command of Some c \<Rightarrow> if c \<noteq> [] then [(''codex_command'', JStr c)] else [] | None \<Rightarrow> []))))"

definition validate_binding :: "fields \<Rightarrow> err + unit" where
  "validate_binding b =
     ebind (raise_if (\<not> is_supported_schema_version (get b ''schema_version''))
              (BindingError ''unsupported binding schema'')) (\<lambda>_.
     ebind (raise_if (get b ''kind'' \<noteq> JStr ''ORCHESTRATOR_BINDING'')
              (BindingError ''unsupported binding kind'')) (\<lambda>_.
     let host = get b ''host''; thread_id = get b ''target_thread_id''; cmd = get b ''codex_command'' in
     ebind (raise_if (\<not> hashable host) TypeError) (\<lambda>_.
     ebind (raise_if (host \<notin> set supported_hosts) (BindingError ''binding has unsupported host'')) (\<lambda>_.
     ebind (raise_if (requires_thread_id host \<and> (\<not> is_str thread_id \<or> \<not> truthy thread_id))
              (BindingError ''binding for host is missing target_thread_id'')) (\<lambda>_.
     raise_if (cmd \<noteq> JNull \<and> \<not> is_str cmd) (BindingError ''binding codex_command must be a string''))))))"

definition copy_field :: "fields \<Rightarrow> string \<Rightarrow> fields" where
  "copy_field fs k = (case map_of fs k of None \<Rightarrow> [] | Some v \<Rightarrow> [(k, v)])"

definition wake_target_from_binding :: "string \<Rightarrow> fields \<Rightarrow> err + fields" where
  "wake_target_from_binding now b =
     ebind (validate_binding b) (\<lambda>_.
     Inr ([(''schema_version'', JInt 1), (''kind'', JStr ''ORCHESTRATOR_WAKE_TARGET''),
           (''host'', get b ''host''), (''captured_at'', JStr now)]
          @ copy_field b ''target_thread_id'' @ copy_field b ''codex_command''))"

text \<open>\<open>captured_at.replace("Z", "+00:00")\<close>\<close>

definition replace_Z :: "string \<Rightarrow> string" where
  "replace_Z s = concat (map (\<lambda>c. if c = CHR ''Z'' then ''+00:00'' else [c]) s)"

definition validate_wake_target :: "(string \<Rightarrow> bool option) \<Rightarrow> fields \<Rightarrow> err + unit" where
  "validate_wake_target isoformat t =
     ebind (raise_if (\<not> is_supported_schema_version (get t ''schema_version''))
              (BindingError ''unsupported wake target schema'')) (\<lambda>_.
     ebind (raise_if (get t ''kind'' \<noteq> JStr ''ORCHESTRATOR_WAKE_TARGET'')
              (BindingError ''unsupported wake target kind'')) (\<lambda>_.
     (case get t ''captured_at'' of
        JStr s \<Rightarrow>
          (case isoformat (replace_Z s) of
             None \<Rightarrow> Inl (BindingError ''wake target captured_at is invalid'')
           | Some tz \<Rightarrow>
               ebind (raise_if (\<not> tz) (BindingError ''wake target captured_at must include a timezone'')) (\<lambda>_.
               validate_binding
                 ([(''schema_version'', get t ''schema_version''), (''kind'', JStr ''ORCHESTRATOR_BINDING''),
                   (''host'', get t ''host'')]
                  @ copy_field t ''target_thread_id'' @ copy_field t ''codex_command'')))
      | _ \<Rightarrow> Inl (BindingError ''wake target is missing captured_at''))))"

text \<open>\<open>(first or {}).get(field)\<close>: a destination is absent (\<open>null\<close>) or a dict.\<close>

definition wake_fields :: "string list" where
  "wake_fields = [''schema_version'', ''kind'', ''host'', ''target_thread_id'', ''codex_command'']"

definition same_wake_destination :: "json \<Rightarrow> json \<Rightarrow> bool" where
  "same_wake_destination a b \<longleftrightarrow>
     list_all (\<lambda>f. json_eq (get (obj_fields a) f) (get (obj_fields b) f)) wake_fields"

section \<open>A captured target is valid and goes where the binding goes\<close>

lemma get_append: "get (xs @ ys) k = (case map_of xs k of None \<Rightarrow> get ys k | Some v \<Rightarrow> v)"
  by (auto simp: get_def map_add_def split: option.splits)

lemma map_of_copy_field: "map_of (copy_field fs k) k' = (if k = k' then map_of fs k else None)"
  by (auto simp: copy_field_def split: option.splits)

lemma get_copy_field: "get (copy_field fs k) k' = (if k = k' then get fs k else JNull)"
  by (auto simp: copy_field_def get_def split: option.splits)

lemmas binding_simps = get_append map_of_copy_field get_copy_field

lemma same_wake_destination_refl [simp]: "same_wake_destination a a"
  by (simp add: same_wake_destination_def list_all_iff)

lemma same_wake_destination_sym: "same_wake_destination a b \<Longrightarrow> same_wake_destination b a"
  by (auto simp: same_wake_destination_def list_all_iff dest: json_eq_sym)

lemma same_wake_destination_trans:
  "same_wake_destination a b \<Longrightarrow> same_wake_destination b c \<Longrightarrow> same_wake_destination a c"
  by (auto simp: same_wake_destination_def list_all_iff intro: json_eq_trans)

lemma write_binding_valid:
  assumes "write_binding now host thread_id cmd = Inr b"
  shows "validate_binding b = Inr ()"
proof -
  let ?head = "[(''schema_version'', JInt 1), (''kind'', JStr ''ORCHESTRATOR_BINDING''),
      (''host'', JStr host), (''created_at'', JStr now)]"
  from assms have host: "JStr host \<in> set supported_hosts"
    and thread: "requires_thread_id (JStr host) \<longrightarrow> (\<exists>t. thread_id = Some t \<and> t \<noteq> [])"
    and b: "b = ?head
      @ (case thread_id of Some t \<Rightarrow> if t \<noteq> [] then [(''target_thread_id'', JStr t)] else [] | None \<Rightarrow> [])
      @ (case cmd of Some c \<Rightarrow> if c \<noteq> [] then [(''codex_command'', JStr c)] else [] | None \<Rightarrow> [])"
    by (auto simp: write_binding_def err_simps)
  have "get b ''target_thread_id'' = (case thread_id of Some t \<Rightarrow> if t \<noteq> [] then JStr t else JNull | None \<Rightarrow> JNull)"
    "get b ''codex_command'' = JNull \<or> is_str (get b ''codex_command'')"
    by (auto simp: b split: option.splits)
  with host thread show ?thesis
    by (auto simp: validate_binding_def b is_supported_schema_version_def Let_def raise_if_def)
qed

lemma wake_target_valid:
  assumes "wake_target_from_binding now b = Inr t" "isoformat (replace_Z now) = Some True"
  shows "validate_wake_target isoformat t = Inr ()" and "same_wake_destination (JObj t) (JObj
    (AList.update ''kind'' (JStr ''ORCHESTRATOR_WAKE_TARGET'') b))"
proof -
  from assms(1) have v: "validate_binding b = Inr ()"
    and t: "t = [(''schema_version'', JInt 1), (''kind'', JStr ''ORCHESTRATOR_WAKE_TARGET''),
           (''host'', get b ''host''), (''captured_at'', JStr now)]
          @ copy_field b ''target_thread_id'' @ copy_field b ''codex_command''"
    by (auto simp: wake_target_from_binding_def err_simps)
  have g: "get t ''target_thread_id'' = get b ''target_thread_id''"
    "get t ''codex_command'' = get b ''codex_command''" "get t ''host'' = get b ''host''"
    by (auto simp: t get_def map_of_copy_field map_add_def split: option.splits)
  show "validate_wake_target isoformat t = Inr ()"
    using v assms(2) g
    by (auto simp: validate_wake_target_def validate_binding_def t is_supported_schema_version_def
        binding_simps raise_if_def Let_def split: if_splits option.splits)
  have "get b ''schema_version'' = JInt 1"
    using v by (auto simp: validate_binding_def err_simps is_supported_schema_version_def)
  with g show "same_wake_destination (JObj t) (JObj (AList.update ''kind'' (JStr ''ORCHESTRATOR_WAKE_TARGET'') b))"
    by (simp add: same_wake_destination_def wake_fields_def get_def) (simp add: t get_def)
qed

end
