(* ===== verification/Worker_Lease.thy ===== *)
theory Worker_Lease
  imports Engine_Prelude
begin

text \<open>
  Process identity and identity-safe signalling (\<open>worker_lease.py\<close>): the token read from
  \<open>/proc/<pid>/stat\<close>, the comparison of a recorded token with an observed one, the liveness of a
  recorded process, the fail-closed classification of a process group, and the stop of an orphaned
  worker tree.

  The operating system is the record \<open>host\<close>. What it answers may differ at every call, so each of
  its answers is a function of the number of the call (the \<open>tick\<close>), which the operations thread.
  The macOS and Windows backends (\<open>runtime_macos.py\<close>, \<open>runtime_windows.py\<close>, foreign function calls)
  are the fields \<open>native_probe\<close>, \<open>machine_id\<close> and \<open>terminate_job\<close>.
\<close>

section \<open>The operating system\<close>

datatype platform = Linux | Darwin | Win32

datatype stat_read = Stat_Text string | Stat_Missing | Stat_Error string

datatype liveness = Alive | Gone | Unknown

record probe =
  pr_state :: string
  pr_identity :: "fields option"

datatype target = Group int | Process int | Job int

datatype sig = SIGTERM | SIGKILL | TerminateJobObject

record host =
  plat :: platform
  lifecycle_supported :: bool
  boot_id :: "nat \<Rightarrow> string option"
  read_stat :: "nat \<Rightarrow> int \<Rightarrow> stat_read"
  native_probe :: "nat \<Rightarrow> int \<Rightarrow> probe"
  machine_id :: json
  kill :: "nat \<Rightarrow> target \<Rightarrow> sig \<Rightarrow> bool"
  monotonic :: "nat \<Rightarrow> int"
  terminate_job :: "json \<Rightarrow> int \<Rightarrow> bool option"

section \<open>Parsing a stat line\<close>

text \<open>\<open>text.rpartition(") ")\<close>: what follows the last \<open>") "\<close>, \<open>None\<close> when there is none.\<close>

fun after_last_paren :: "string \<Rightarrow> string option" where
  "after_last_paren [] = None"
| "after_last_paren (c # cs) =
     (case after_last_paren cs of
        Some t \<Rightarrow> Some t
      | None \<Rightarrow> (if c = CHR '')'' \<and> cs \<noteq> [] \<and> hd cs = CHR '' '' then Some (tl cs) else None))"

definition is_space :: "char \<Rightarrow> bool" where
  "is_space c \<longleftrightarrow> c = CHR '' '' \<or> (of_char c :: nat) \<in> {9, 10, 11, 12, 13, 28, 29, 30, 31, 133, 160}"

definition is_byte_space :: "char \<Rightarrow> bool" where
  "is_byte_space c \<longleftrightarrow> c = CHR '' '' \<or> (of_char c :: nat) \<in> {9, 10, 11, 12, 13}"

text \<open>\<open>split()\<close> without a separator; \<open>word\<close> is the field being read, in reverse.\<close>

fun split_fields :: "(char \<Rightarrow> bool) \<Rightarrow> string \<Rightarrow> string \<Rightarrow> string list" where
  "split_fields sp word [] = (if word = [] then [] else [rev word])"
| "split_fields sp word (c # cs) =
     (if sp c then (if word = [] then split_fields sp [] cs else rev word # split_fields sp [] cs)
      else split_fields sp (c # word) cs)"

definition is_digit :: "char \<Rightarrow> bool" where
  "is_digit c \<longleftrightarrow> CHR ''0'' \<le> c \<and> c \<le> CHR ''9''"

definition digit_value :: "char \<Rightarrow> int" where
  "digit_value c = of_char c - 48"

text \<open>\<open>int(text)\<close> on a field without blanks: an optional sign, digits, single underscores between
  digits; \<open>None\<close> is its \<open>ValueError\<close>. \<open>prev\<close> says that the previous character was a digit.\<close>

fun parse_digits :: "bool \<Rightarrow> int \<Rightarrow> string \<Rightarrow> int option" where
  "parse_digits prev acc [] = (if prev then Some acc else None)"
| "parse_digits prev acc (c # cs) =
     (if is_digit c then parse_digits True (10 * acc + digit_value c) cs
      else if c = CHR ''_'' \<and> prev \<and> cs \<noteq> [] then parse_digits False acc cs
      else None)"

fun parse_int :: "string \<Rightarrow> int option" where
  "parse_int [] = None"
| "parse_int (c # cs) =
     (if c = CHR ''-'' then map_option uminus (parse_digits False 0 cs)
      else if c = CHR ''+'' then parse_digits False 0 cs
      else parse_digits False 0 (c # cs))"

section \<open>Identity tokens\<close>

definition identity_source :: json where
  "identity_source = JStr ''linux-proc-stat''"

definition starttime_index :: nat where
  "starttime_index = 19"

definition process_identity_probe :: "host \<Rightarrow> nat \<Rightarrow> json \<Rightarrow> probe" where
  "process_identity_probe h n pid =
     (case pid of
        JInt p \<Rightarrow>
          if p \<le> 0 then \<lparr>pr_state = ''unknown'', pr_identity = None\<rparr>
          else if plat h \<noteq> Linux then native_probe h n p
          else (case read_stat h n p of
              Stat_Missing \<Rightarrow> \<lparr>pr_state = ''gone'', pr_identity = None\<rparr>
            | Stat_Error e \<Rightarrow> \<lparr>pr_state = ''unknown'', pr_identity = None\<rparr>
            | Stat_Text t \<Rightarrow>
                (case after_last_paren t of
                   None \<Rightarrow> \<lparr>pr_state = ''unknown'', pr_identity = None\<rparr>
                 | Some rest \<Rightarrow>
                     let fs = split_fields is_space [] rest in
                     if length fs \<le> starttime_index then \<lparr>pr_state = ''unknown'', pr_identity = None\<rparr>
                     else (case parse_int (fs ! starttime_index) of
                         None \<Rightarrow> \<lparr>pr_state = ''unknown'', pr_identity = None\<rparr>
                       | Some ticks \<Rightarrow>
                           \<lparr>pr_state = ''present'',
                            pr_identity = Some
                              ([(''source'', identity_source), (''pid'', JInt p), (''start_ticks'', JInt ticks),
                                (''state'', JStr (hd fs))]
                               @ (case boot_id h n of None \<Rightarrow> [] | Some b \<Rightarrow> [(''boot_id'', JStr b)]))\<rparr>)))
      | _ \<Rightarrow> \<lparr>pr_state = ''unknown'', pr_identity = None\<rparr>)"

definition process_identity :: "host \<Rightarrow> nat \<Rightarrow> json \<Rightarrow> fields option" where
  "process_identity h n pid = pr_identity (process_identity_probe h n pid)"

fun is_int :: "json \<Rightarrow> bool" where
  "is_int (JInt _) = True"
| "is_int _ = False"

text \<open>\<open>identity_matches\<close>: \<open>observed = None\<close> is a process that could not be read.\<close>

definition identity_matches :: "json \<Rightarrow> fields option \<Rightarrow> bool" where
  "identity_matches recorded observed =
     (case (recorded, observed) of
        (JObj r, Some ob) \<Rightarrow>
          \<not> (\<not> json_eq (get r ''source'') (get ob ''source'')
              \<and> (get r ''source'' \<noteq> JNull \<or> get ob ''source'' \<noteq> identity_source))
          \<and> list_all (\<lambda>key. is_int (get r key) \<and> json_eq (get r key) (get ob key)) [''pid'', ''start_ticks'']
          \<and> json_eq (get r ''machine_id'') (get ob ''machine_id'')
          \<and> \<not> (get ob ''source'' = JStr ''darwin-proc-bsdinfo'' \<and> \<not> truthy (get r ''boot_id''))
          \<and> (get r ''boot_id'' \<noteq> JNull \<and> get ob ''boot_id'' \<noteq> JNull
              \<longrightarrow> json_eq (get r ''boot_id'') (get ob ''boot_id''))
      | _ \<Rightarrow> False)"

section \<open>Liveness\<close>

record id_state =
  is_state :: liveness
  is_verified :: bool
  is_observed :: "fields option"
  is_reason :: "string option"

definition unknown_state :: "string option \<Rightarrow> id_state" where
  "unknown_state reason = \<lparr>is_state = Unknown, is_verified = False, is_observed = None, is_reason = reason\<rparr>"

definition expected_source :: "platform \<Rightarrow> json" where
  "expected_source p = (case p of Darwin \<Rightarrow> JStr ''darwin-proc-bsdinfo''
                        | Win32 \<Rightarrow> JStr ''windows-process-times'' | Linux \<Rightarrow> identity_source)"

text \<open>The process table is read once, and a second time when the first reading gave no token.\<close>

definition identity_state :: "host \<Rightarrow> json \<Rightarrow> nat \<Rightarrow> id_state \<times> nat" where
  "identity_state h recorded n =
     (if \<not> lifecycle_supported h then (unknown_state None, n)
      else case recorded of
        JObj r \<Rightarrow>
          if \<not> is_int (get r ''pid'') \<or> \<not> is_int (get r ''start_ticks'')
             \<or> (plat h = Darwin \<and> \<not> truthy (get r ''boot_id''))
          then (unknown_state None, n)
          else if \<not> json_eq (get_or r ''source'' identity_source) (expected_source (plat h))
          then (unknown_state (Some ''foreign_process_identity''), n)
          else if plat h = Win32 \<and> \<not> json_eq (get r ''machine_id'') (machine_id h)
          then (unknown_state (Some ''foreign_process_identity''), n)
          else (case process_identity h n (get r ''pid'') of
              None \<Rightarrow>
                if pr_state (process_identity_probe h (Suc n) (get r ''pid'')) = ''unknown''
                then (unknown_state (Some ''process_identity_unavailable''), Suc (Suc n))
                else (\<lparr>is_state = Gone, is_verified = False, is_observed = None, is_reason = None\<rparr>, Suc (Suc n))
            | Some ob \<Rightarrow>
                if \<not> identity_matches recorded (Some ob)
                then (\<lparr>is_state = Gone, is_verified = False, is_observed = Some ob, is_reason = None\<rparr>, Suc n)
                else if get ob ''state'' = JStr ''Z''
                then (\<lparr>is_state = Gone, is_verified = True, is_observed = Some ob, is_reason = None\<rparr>, Suc n)
                else (\<lparr>is_state = Alive, is_verified = True, is_observed = Some ob, is_reason = None\<rparr>, Suc n))
      | _ \<Rightarrow> (unknown_state None, n))"

definition pid_state :: "host \<Rightarrow> json \<Rightarrow> nat \<Rightarrow> id_state \<times> nat" where
  "pid_state h pid n =
     (if \<not> lifecycle_supported h then (unknown_state None, n)
      else if \<not> (case pid of JInt p \<Rightarrow> 0 < p | _ \<Rightarrow> False) then (unknown_state None, n)
      else case process_identity h n pid of
          None \<Rightarrow>
            if pr_state (process_identity_probe h (Suc n) pid) = ''unknown''
            then (unknown_state (Some ''process_identity_unavailable''), Suc (Suc n))
            else (\<lparr>is_state = Gone, is_verified = False, is_observed = None, is_reason = None\<rparr>, Suc (Suc n))
        | Some ob \<Rightarrow>
            (\<lparr>is_state = (if get ob ''state'' = JStr ''Z'' then Gone else Alive),
              is_verified = False, is_observed = Some ob, is_reason = None\<rparr>, Suc n))"

section \<open>Process groups\<close>

text \<open>
  One reading of \<open>/proc\<close>: \<open>None\<close> when it cannot be listed, otherwise its entries, each with the
  result of reading its own \<open>stat\<close> and of listing and reading its tasks. \<open>None\<close> is a file that is
  missing or unreadable.
\<close>

record proc_task =
  tk_name :: string
  tk_stat :: "string option"

record proc_entry =
  pe_name :: string
  pe_stat :: "string option"
  pe_tasks :: "proc_task list option"

type_synonym member = "int \<times> int \<times> int"

definition numeric_name :: "string \<Rightarrow> bool" where
  "numeric_name s \<longleftrightarrow> s \<noteq> [] \<and> list_all is_digit s"

definition name_number :: "string \<Rightarrow> int" where
  "name_number s = (case parse_int s of None \<Rightarrow> 0 | Some i \<Rightarrow> i)"

text \<open>\<open>_linux_proc_stat\<close>: state, process group and start time; \<open>None\<close> is its \<open>ValueError\<close>.\<close>

definition linux_proc_stat :: "string \<Rightarrow> (string \<times> int \<times> int) option" where
  "linux_proc_stat raw =
     (case after_last_paren raw of
        None \<Rightarrow> None
      | Some rest \<Rightarrow>
          let fs = split_fields is_byte_space [] rest in
          if length fs \<le> starttime_index then None
          else if \<not> list_all (\<lambda>c. (of_char c :: nat) < 128) (fs ! 0) then None
          else (case (parse_int (fs ! 2), parse_int (fs ! starttime_index)) of
              (Some grp, Some start) \<Rightarrow> if length (fs ! 0) \<noteq> 1 then None else Some (fs ! 0, grp, start)
            | _ \<Rightarrow> None))"

definition non_executing :: "string \<Rightarrow> bool" where
  "non_executing s \<longleftrightarrow> s = ''X'' \<or> s = ''Z''"

text \<open>The scan of the tasks of one entry. \<open>Inl\<close> is the early return that found an executing member.\<close>

fun scan_tasks :: "int \<Rightarrow> string \<Rightarrow> proc_task list \<Rightarrow> bool \<times> member list \<Rightarrow> member list + bool \<times> member list" where
  "scan_tasks pgid name [] acc = Inr acc"
| "scan_tasks pgid name (t # ts) (uncertain, members) =
     (if \<not> numeric_name (tk_name t) then scan_tasks pgid name ts (True, members)
      else case Option.bind (tk_stat t) linux_proc_stat of
          None \<Rightarrow> scan_tasks pgid name ts (True, members)
        | Some (state, grp, start) \<Rightarrow>
            if grp \<noteq> pgid then scan_tasks pgid name ts (True, members)
            else let members' = (name_number name, name_number (tk_name t), start) # members in
                 if non_executing state then scan_tasks pgid name ts (uncertain, members')
                 else Inl members')"

fun scan_entries :: "int \<Rightarrow> proc_entry list \<Rightarrow> bool \<times> member list \<Rightarrow> member list + bool \<times> member list" where
  "scan_entries pgid [] acc = Inr acc"
| "scan_entries pgid (e # es) (uncertain, members) =
     (if \<not> numeric_name (pe_name e) then scan_entries pgid es (uncertain, members)
      else case Option.bind (pe_stat e) linux_proc_stat of
          None \<Rightarrow> scan_entries pgid es (True, members)
        | Some (_, grp, _) \<Rightarrow>
            if grp \<noteq> pgid then scan_entries pgid es (uncertain, members)
            else (case pe_tasks e of
                None \<Rightarrow> scan_entries pgid es (True, members)
              | Some ts \<Rightarrow>
                  if ts = [] then scan_entries pgid es (True, members)
                  else (case scan_tasks pgid (pe_name e) ts (uncertain, members) of
                      Inl ms \<Rightarrow> Inl ms
                    | Inr acc \<Rightarrow> scan_entries pgid es acc)))"

definition process_group_snapshot :: "int \<Rightarrow> proc_entry list option \<Rightarrow> liveness \<times> member list" where
  "process_group_snapshot pgid entries =
     (case entries of
        None \<Rightarrow> (Unknown, [])
      | Some es \<Rightarrow>
          (case scan_entries pgid es (False, []) of
             Inl members \<Rightarrow> (Alive, members)
           | Inr (uncertain, members) \<Rightarrow> (if uncertain then Unknown else Gone, members)))"

text \<open>\<open>linux_process_group_execution_state\<close> on two successive readings of \<open>/proc\<close>.\<close>

definition group_execution_state :: "int \<Rightarrow> proc_entry list option \<Rightarrow> proc_entry list option \<Rightarrow> liveness" where
  "group_execution_state pgid first second =
     (let (s1, m1) = process_group_snapshot pgid first in
      if s1 \<noteq> Gone then s1
      else let (s2, m2) = process_group_snapshot pgid second in
      if s2 \<noteq> Gone then s2
      else if set m1 \<noteq> set m2 then Unknown
      else if m1 \<noteq> [] then Gone else Unknown)"

text \<open>\<open>killpg(pgid, 0)\<close>: \<open>None\<close> is any error but \<open>ProcessLookupError\<close>.\<close>

definition raw_process_group_state :: "platform \<Rightarrow> json \<Rightarrow> bool option \<Rightarrow> liveness" where
  "raw_process_group_state p pgid answer =
     (if \<not> (case pgid of JInt i \<Rightarrow> 0 < i | _ \<Rightarrow> False) then Unknown
      else if p = Win32 then Unknown
      else (case answer of None \<Rightarrow> Unknown | Some True \<Rightarrow> Alive | Some False \<Rightarrow> Gone))"

text \<open>\<open>process_group_state\<close>: \<open>job\<close> is \<open>runtime_windows.job_state\<close>.\<close>

definition process_group_state ::
    "platform \<Rightarrow> (fields \<Rightarrow> liveness) \<Rightarrow> json \<Rightarrow> json \<Rightarrow> bool option \<Rightarrow> proc_entry list option
     \<Rightarrow> proc_entry list option \<Rightarrow> bool option \<Rightarrow> liveness" where
  "process_group_state p job pgid ident answer first second answer' =
     (if p = Win32 then
        (if \<not> (case pgid of JInt i \<Rightarrow> 0 < i | _ \<Rightarrow> False) then Unknown
         else case ident of
             JObj r \<Rightarrow> if json_eq (get r ''pid'') pgid then job r else Unknown
           | _ \<Rightarrow> Unknown)
      else let raw = raw_process_group_state p pgid answer in
        if raw \<noteq> Alive then raw
        else if p = Linux then
          (let state = group_execution_state (case pgid of JInt i \<Rightarrow> i | _ \<Rightarrow> 0) first second in
           if state \<noteq> Gone then state
           else (case raw_process_group_state p pgid answer' of Unknown \<Rightarrow> Unknown | _ \<Rightarrow> Gone))
        else Alive)"

section \<open>The task lease\<close>

text \<open>
  A lease is a JSON object that every operation writes back to \<open>lease.json\<close>, so the returned fields
  are also the content of the file. \<open>now\<close> is \<open>core.utc_now()\<close>, \<open>schema\<close> the schema version 1.
\<close>

definition load_lease :: "json option option \<Rightarrow> err + fields option" where
  "load_lease file =
     (case file of
        None \<Rightarrow> Inr None
      | Some (Some (JObj lease)) \<Rightarrow>
          if get lease ''kind'' \<noteq> JStr ''WORKER_LEASE'' then Inl (LeaseError ''task lease has unexpected kind'')
          else Inr (Some lease)
      | Some _ \<Rightarrow> Inl (LeaseError ''task lease is unreadable''))"

definition renew_lease :: "string \<Rightarrow> fields \<Rightarrow> fields" where
  "renew_lease now lease = AList.update ''renewed_at'' (JStr now) lease"

definition acquire_lease ::
    "host \<Rightarrow> nat \<Rightarrow> int \<Rightarrow> string \<Rightarrow> string \<Rightarrow> string \<Rightarrow> rat \<Rightarrow> err + fields" where
  "acquire_lease h n pid now task_id worker interval =
     (case process_identity h n (JInt pid) of
        None \<Rightarrow> Inl (LeaseError ''cannot read a process identity token for the supervisor'')
      | Some ident \<Rightarrow>
          Inr [(''schema_version'', JInt 1), (''kind'', JStr ''WORKER_LEASE''),
               (''task_id'', JStr task_id), (''worker'', JStr worker),
               (''status'', JStr ''held''), (''holder'', JStr ''supervisor''),
               (''supervisor_pid'', JInt pid), (''supervisor_identity'', JObj ident),
               (''lease_interval_seconds'', JReal interval),
               (''lease_expiry_seconds'', JReal (interval * 3)),
               (''acquired_at'', JStr now), (''renewed_at'', JStr now)])"

definition record_worker_identity ::
    "host \<Rightarrow> nat \<Rightarrow> string \<Rightarrow> fields \<Rightarrow> int \<Rightarrow> int option \<Rightarrow> fields" where
  "record_worker_identity h n now lease worker_pid worker_pgid =
     (let l1 = AList.update ''worker_pid'' (JInt worker_pid) lease;
          l2 = (case worker_pgid of None \<Rightarrow> l1 | Some g \<Rightarrow> AList.update ''worker_pgid'' (JInt g) l1);
          l3 = (case process_identity h n (JInt worker_pid) of
                  None \<Rightarrow> l2 | Some ident \<Rightarrow> AList.update ''worker_identity'' (JObj ident) l2)
      in renew_lease now l3)"

definition release_lease :: "string \<Rightarrow> fields \<Rightarrow> string \<Rightarrow> string \<Rightarrow> fields" where
  "release_lease now lease released_by terminal_status =
     AList.update ''released_at'' (JStr now)
       (AList.update ''terminal_status'' (JStr terminal_status)
         (AList.update ''released_by'' (JStr released_by)
           (AList.update ''status'' (JStr ''released'') lease)))"

text \<open>\<open>instant\<close> is \<open>datetime.fromisoformat\<close> followed by the reading in UTC (a naive stamp is taken as
  UTC), in seconds; \<open>None\<close> is its \<open>ValueError\<close>.\<close>

definition lease_age_seconds :: "(string \<Rightarrow> rat option) \<Rightarrow> rat \<Rightarrow> fields \<Rightarrow> rat option" where
  "lease_age_seconds instant now lease =
     (case (if truthy (get lease ''renewed_at'') then get lease ''renewed_at'' else get lease ''acquired_at'') of
        JStr stamp \<Rightarrow> map_option (\<lambda>t. max (now - t) 0) (instant stamp)
      | _ \<Rightarrow> None)"

section \<open>Stopping an orphaned worker\<close>

text \<open>
  \<open>wait_until_gone\<close>: the loop ends when the process is gone or the clock has reached the deadline.
  The clock is the host's, so the loop carries fuel (\<open>None\<close>: out of fuel).
\<close>

fun wait_loop :: "nat \<Rightarrow> host \<Rightarrow> json \<Rightarrow> int \<Rightarrow> nat \<Rightarrow> (bool \<times> nat) option" where
  "wait_loop 0 h ident deadline n = None"
| "wait_loop (Suc fuel) h ident deadline n =
     (let (st, n1) = identity_state h ident n in
      if is_state st = Gone then Some (True, n1)
      else if deadline \<le> monotonic h n1 then Some (False, Suc n1)
      else wait_loop fuel h ident deadline (Suc n1))"

definition wait_until_gone :: "nat \<Rightarrow> host \<Rightarrow> json \<Rightarrow> int \<Rightarrow> nat \<Rightarrow> (bool \<times> nat) option" where
  "wait_until_gone fuel h ident timeout n =
     wait_loop fuel h ident (monotonic h n + max timeout 0) (Suc n)"

text \<open>The stop ledger. A signal is stored with the tick of the observation that authorised it.\<close>

record stop_ledger =
  sl_scope :: string
  sl_process_group :: "int option"
  sl_escalated :: bool
  sl_exited :: bool
  sl_identity_verified :: bool
  sl_signals :: "(sig \<times> target \<times> nat) list"
  sl_outcome :: string
  sl_sweep :: "string option"

definition initial_stop :: stop_ledger where
  "initial_stop = \<lparr>sl_scope = ''process'', sl_process_group = None, sl_escalated = False, sl_exited = True,
     sl_identity_verified = False, sl_signals = [], sl_outcome = [], sl_sweep = None\<rparr>"

text \<open>\<open>group = worker_pgid if worker_pgid == worker_pid else None\<close>, then \<open>isinstance(group, int)\<close>
  (which holds of a boolean) decides what is signalled.\<close>

definition signal_target :: "int \<Rightarrow> json \<Rightarrow> target" where
  "signal_target pid pgid =
     (if json_eq pgid (JInt pid)
      then (case pgid of JInt g \<Rightarrow> Group g | JBool b \<Rightarrow> Group (if b then 1 else 0) | _ \<Rightarrow> Process pid)
      else Process pid)"

definition deliver ::
    "host \<Rightarrow> int \<Rightarrow> json \<Rightarrow> json \<Rightarrow> sig \<Rightarrow> stop_ledger \<Rightarrow> nat \<Rightarrow> stop_ledger \<times> nat" where
  "deliver h pid pgid ident sg led n =
     (if \<not> identity_matches ident (process_identity h n (JInt pid)) then (led, Suc n)
      else let tgt = signal_target pid pgid in
        if kill h (Suc n) tgt sg then (led\<lparr>sl_signals := sl_signals led @ [(sg, tgt, n)]\<rparr>, Suc (Suc n))
        else (led, Suc (Suc n)))"

definition stop_worker_tree ::
    "nat \<Rightarrow> host \<Rightarrow> json \<Rightarrow> json \<Rightarrow> json \<Rightarrow> int \<Rightarrow> int \<Rightarrow> nat \<Rightarrow> (stop_ledger \<times> nat) option" where
  "stop_worker_tree fuel h worker_pid worker_pgid ident grace timeout n =
     (case worker_pid of
        JInt pid \<Rightarrow>
          if plat h = Win32 then
            (case ident of
               JObj r \<Rightarrow>
                 if \<not> json_eq (get r ''pid'') worker_pid \<or> \<not> json_eq worker_pgid worker_pid
                 then Some (initial_stop\<lparr>sl_exited := False, sl_outcome := ''refused_no_identity_token''\<rparr>, n)
                 else (case terminate_job h ident timeout of
                     None \<Rightarrow> Some (initial_stop\<lparr>sl_exited := False, sl_outcome := ''refused_job_unavailable''\<rparr>, Suc n)
                   | Some exited \<Rightarrow>
                       Some (initial_stop\<lparr>sl_scope := ''job_object'', sl_process_group := Some pid,
                         sl_exited := exited, sl_identity_verified := True,
                         sl_outcome := (if exited then ''job_terminated'' else ''kill_not_confirmed''),
                         sl_signals := [(TerminateJobObject, Job pid, n)]\<rparr>, Suc n))
             | _ \<Rightarrow> Some (initial_stop\<lparr>sl_exited := False, sl_outcome := ''refused_no_identity_token''\<rparr>, n))
          else
            (let (st, n1) = identity_state h ident n in
             if is_state st = Unknown then
               (let (ps, n2) = pid_state h worker_pid n1 in
                Some (initial_stop\<lparr>sl_exited := (is_state ps = Gone),
                  sl_outcome := (if is_reason st = Some ''process_identity_unavailable''
                                 then ''refused_identity_unavailable'' else ''refused_no_identity_token'')\<rparr>, n2))
             else if is_state st = Gone then
               Some (initial_stop\<lparr>sl_outcome := (if is_observed st \<noteq> None then ''refused_identity_mismatch''
                                                 else ''already_exited'')\<rparr>, n1)
             else
               (let led0 = initial_stop\<lparr>sl_identity_verified := True, sl_exited := False\<rparr>;
                    led1 = (if json_eq worker_pgid worker_pid \<and> is_int worker_pgid
                            then led0\<lparr>sl_scope := ''process_group'', sl_process_group := Some pid\<rparr> else led0);
                    (led2, n2) = deliver h pid worker_pgid ident SIGTERM led1 n1
                in case wait_until_gone fuel h ident grace n2 of
                     None \<Rightarrow> None
                   | Some (True, n3) \<Rightarrow>
                       Some (led2\<lparr>sl_exited := True, sl_outcome := ''stopped_on_sigterm'',
                                  sl_sweep := Some ''skipped_unverifiable_group''\<rparr>, n3)
                   | Some (False, n3) \<Rightarrow>
                       (let (led3, n4) = deliver h pid worker_pgid ident SIGKILL (led2\<lparr>sl_escalated := True\<rparr>) n3
                        in case wait_until_gone fuel h ident timeout n4 of
                             None \<Rightarrow> None
                           | Some (gone, n5) \<Rightarrow>
                               Some (led3\<lparr>sl_exited := gone,
                                          sl_outcome := (if gone then ''killed'' else ''kill_not_confirmed'')\<rparr>, n5))))
      | _ \<Rightarrow> Some (initial_stop\<lparr>sl_outcome := ''no_worker_recorded''\<rparr>, n))"

section \<open>Liveness is decided by a matching observation\<close>

lemma identity_state_mono: "identity_state h ident n = (st, n') \<Longrightarrow> n \<le> n'"
  by (auto simp: identity_state_def split: if_splits json.splits option.splits)

lemma pid_state_mono: "pid_state h pid n = (st, n') \<Longrightarrow> n \<le> n'"
  by (auto simp: pid_state_def split: if_splits json.splits option.splits)

lemma identity_state_alive:
  assumes "identity_state h ident n = (st, n')" and "is_state st = Alive"
  shows "\<exists>r ob. ident = JObj r \<and> n' = Suc n \<and> process_identity h n (get r ''pid'') = Some ob
           \<and> identity_matches ident (Some ob) \<and> get ob ''state'' \<noteq> JStr ''Z''"
  using assms
  by (auto simp: identity_state_def unknown_state_def split: if_splits json.splits option.splits)

text \<open>What counts as proof that the recorded process is gone: the process table was read and has no
  such process, another process, or its zombie.\<close>

definition observed_gone :: "host \<Rightarrow> json \<Rightarrow> nat \<Rightarrow> bool" where
  "observed_gone h ident k =
     (case ident of
        JObj r \<Rightarrow>
          (case process_identity h k (get r ''pid'') of
             None \<Rightarrow> pr_state (process_identity_probe h (Suc k) (get r ''pid'')) \<noteq> ''unknown''
           | Some ob \<Rightarrow> \<not> identity_matches ident (Some ob) \<or> get ob ''state'' = JStr ''Z'')
      | _ \<Rightarrow> False)"

lemma identity_state_gone:
  assumes "identity_state h ident n = (st, n')" and "is_state st = Gone"
  shows "observed_gone h ident n"
  using assms
  by (auto simp: identity_state_def unknown_state_def observed_gone_def split: if_splits json.splits option.splits)

section \<open>Waiting\<close>

lemma wait_loop_mono: "wait_loop fuel h ident d n = Some (b, n') \<Longrightarrow> n \<le> n'"
proof (induction fuel arbitrary: n)
  case (Suc fuel)
  obtain st n1 where st: "identity_state h ident n = (st, n1)" by force
  with Suc identity_state_mono [OF st] show ?case
    by (force split: if_splits)
qed simp

lemma wait_loop_observed:
  "wait_loop fuel h ident d n = Some (True, n') \<Longrightarrow> \<exists>k\<ge>n. k \<le> n' \<and> observed_gone h ident k"
proof (induction fuel arbitrary: n)
  case (Suc fuel)
  obtain st n1 where st: "identity_state h ident n = (st, n1)" by force
  note le = identity_state_mono [OF st]
  show ?case
  proof (cases "is_state st = Gone")
    case True
    with Suc.prems st le identity_state_gone [OF st True] show ?thesis by auto
  next
    case False
    with Suc.prems st have "wait_loop fuel h ident d (Suc n1) = Some (True, n')"
      by (auto split: if_splits)
    from Suc.IH [OF this] le show ?thesis by (meson Suc_leD order_trans)
  qed
qed simp

lemma wait_loop_fuel:
  "wait_loop fuel h ident d n = Some r \<Longrightarrow> fuel \<le> fuel' \<Longrightarrow> wait_loop fuel' h ident d n = Some r"
proof (induction fuel arbitrary: n fuel')
  case (Suc fuel)
  then obtain g where g: "fuel' = Suc g" by (cases fuel') auto
  obtain st n1 where st: "identity_state h ident n = (st, n1)" by force
  from Suc.prems Suc.IH [of "Suc n1" g] g st show ?case by (auto split: if_splits)
qed simp

lemma wait_loop_returns:
  assumes clock: "\<forall>k\<ge>m. d \<le> monotonic h k"
  shows "m - n < fuel \<Longrightarrow> \<exists>r. wait_loop fuel h ident d n = Some r"
proof (induction fuel arbitrary: n)
  case (Suc fuel)
  obtain st n1 where st: "identity_state h ident n = (st, n1)" by force
  note le = identity_state_mono [OF st]
  show ?case
  proof (cases "is_state st = Gone \<or> d \<le> monotonic h n1")
    case True
    with st show ?thesis by auto
  next
    case False
    then have "n1 < m" using clock by (meson leI)
    with le Suc.prems have "m - Suc n1 < fuel" by linarith
    from Suc.IH [OF this] False st show ?thesis by simp
  qed
qed simp

lemma wait_until_gone_fuel:
  "wait_until_gone fuel h ident t n = Some r \<Longrightarrow> fuel \<le> fuel' \<Longrightarrow> wait_until_gone fuel' h ident t n = Some r"
  unfolding wait_until_gone_def by (rule wait_loop_fuel)

lemma wait_until_gone_mono: "wait_until_gone fuel h ident t n = Some (b, n') \<Longrightarrow> Suc n \<le> n'"
  by (auto simp: wait_until_gone_def dest: wait_loop_mono)

lemma wait_until_gone_observed:
  "wait_until_gone fuel h ident t n = Some (True, n') \<Longrightarrow> \<exists>k>n. k \<le> n' \<and> observed_gone h ident k"
  by (auto simp: wait_until_gone_def less_eq_Suc_le dest!: wait_loop_observed)

text \<open>A clock that eventually passes every deadline, as \<open>time.monotonic\<close> does.\<close>

definition clock_advances :: "host \<Rightarrow> bool" where
  "clock_advances h \<longleftrightarrow> (\<forall>d. \<exists>m. \<forall>k\<ge>m. d \<le> monotonic h k)"

lemma wait_until_gone_returns: "clock_advances h \<Longrightarrow> \<exists>fuel r. wait_until_gone fuel h ident t n = Some r"
proof -
  assume "clock_advances h"
  then obtain m where "\<forall>k\<ge>m. monotonic h n + max t 0 \<le> monotonic h k"
    unfolding clock_advances_def by blast
  from wait_loop_returns [OF this lessI] show ?thesis
    unfolding wait_until_gone_def by blast
qed

section \<open>Signals are sent to the recorded process only\<close>

definition authorised :: "host \<Rightarrow> int \<Rightarrow> json \<Rightarrow> sig \<times> target \<times> nat \<Rightarrow> bool" where
  "authorised h pid ident s \<longleftrightarrow>
     (case s of (sg, tgt, k) \<Rightarrow>
        tgt \<in> {Group pid, Process pid} \<and> identity_matches ident (process_identity h k (JInt pid)))"

lemma signal_target_own: "signal_target pid pgid \<in> {Group pid, Process pid}"
  by (cases pgid) (simp_all add: signal_target_def)

lemma deliver_mono: "deliver h pid pgid ident sg led n = (led', n') \<Longrightarrow> n < n'"
  by (auto simp: deliver_def Let_def split: if_splits)

lemma deliver_authorised:
  assumes "deliver h pid pgid ident sg led n = (led', n')" and "s \<in> set (sl_signals led')"
  shows "s \<in> set (sl_signals led) \<or> fst s = sg \<and> snd (snd s) = n \<and> authorised h pid ident s"
  using assms signal_target_own [of pid pgid]
  by (auto simp: deliver_def authorised_def Let_def split: if_splits)

lemma deliver_keeps:
  "deliver h pid pgid ident sg led n = (led', n') \<Longrightarrow>
     sl_escalated led' = sl_escalated led \<and> sl_identity_verified led' = sl_identity_verified led"
  by (auto simp: deliver_def Let_def split: if_splits)

text \<open>The three ways through \<open>stop_worker_tree\<close> once the process was observed alive or not.\<close>

lemma stop_worker_tree_cases:
  assumes run: "stop_worker_tree fuel h (JInt pid) pgid ident grace timeout n = Some (led, n')"
    and posix: "plat h \<noteq> Win32"
  obtains (refused) st n1 where "identity_state h ident n = (st, n1)" "is_state st \<noteq> Alive"
      "sl_signals led = []" "\<not> sl_escalated led"
      "sl_exited led \<Longrightarrow> is_state st = Gone \<or> (\<exists>ps. pid_state h (JInt pid) n1 = (ps, n') \<and> is_state ps = Gone)"
      "sl_outcome led \<notin> {''stopped_on_sigterm'', ''killed''}"
  | (stopped) st n1 led0 led2 n2 where "identity_state h ident n = (st, n1)" "is_state st = Alive"
      "sl_signals led0 = []" "\<not> sl_escalated led0"
      "deliver h pid pgid ident SIGTERM led0 n1 = (led2, n2)"
      "wait_until_gone fuel h ident grace n2 = Some (True, n')"
      "sl_signals led = sl_signals led2" "\<not> sl_escalated led" "sl_outcome led = ''stopped_on_sigterm''"
  | (killed) st n1 led0 led2 n2 n3 led3 n4 gone where "identity_state h ident n = (st, n1)" "is_state st = Alive"
      "sl_signals led0 = []"
      "deliver h pid pgid ident SIGTERM led0 n1 = (led2, n2)"
      "wait_until_gone fuel h ident grace n2 = Some (False, n3)"
      "deliver h pid pgid ident SIGKILL (led2\<lparr>sl_escalated := True\<rparr>) n3 = (led3, n4)"
      "wait_until_gone fuel h ident timeout n4 = Some (gone, n')"
      "sl_signals led = sl_signals led3" "sl_escalated led" "sl_exited led = gone"
      "sl_outcome led = (if gone then ''killed'' else ''kill_not_confirmed'')"
proof -
  obtain st n1 where st: "identity_state h ident n = (st, n1)" by force
  define led0 where "led0 = (let l = initial_stop\<lparr>sl_identity_verified := True, sl_exited := False\<rparr> in
     if json_eq pgid (JInt pid) \<and> is_int pgid
     then l\<lparr>sl_scope := ''process_group'', sl_process_group := Some pid\<rparr> else l)"
  have led0: "sl_signals led0 = []" "\<not> sl_escalated led0"
    by (simp_all add: led0_def initial_stop_def Let_def)
  show thesis
  proof (cases "is_state st")
    case Alive
    obtain led2 n2 where d: "deliver h pid pgid ident SIGTERM led0 n1 = (led2, n2)" by force
    obtain w n3 where w: "wait_until_gone fuel h ident grace n2 = Some (w, n3)"
      using run posix st Alive d
      by (auto simp: stop_worker_tree_def led0_def Let_def split: option.splits)
    show thesis
    proof (cases w)
      case True
      with run posix st Alive d w deliver_keeps [OF d] led0 show thesis
        by (intro stopped [OF st Alive led0 d]) (auto simp: stop_worker_tree_def led0_def Let_def)
    next
      case False
      obtain led3 n4 where d3: "deliver h pid pgid ident SIGKILL (led2\<lparr>sl_escalated := True\<rparr>) n3 = (led3, n4)"
        by force
      obtain gone n5 where w2: "wait_until_gone fuel h ident timeout n4 = Some (gone, n5)"
        using run posix st Alive d w False d3
        by (auto simp: stop_worker_tree_def led0_def Let_def split: option.splits)
      have "led = led3\<lparr>sl_exited := gone, sl_outcome := (if gone then ''killed'' else ''kill_not_confirmed'')\<rparr>"
        and "n5 = n'"
        using run posix st Alive d w False d3 w2
        by (auto simp: stop_worker_tree_def led0_def Let_def)
      with w w2 False d3 deliver_keeps [OF d3] led0 show thesis
        by (intro killed [OF st Alive led0(1) d _ d3]) auto
    qed
  next
    case Gone
    with run posix st show thesis
      by (intro refused [OF st]) (auto simp: stop_worker_tree_def initial_stop_def split: if_splits)
  next
    case Unknown
    with run posix st show thesis
      by (intro refused [OF st])
        (auto simp: stop_worker_tree_def initial_stop_def split: prod.splits if_splits)
  qed
qed

section \<open>What a stop establishes\<close>


lemma wait_loop_timeout:
  "wait_loop fuel h ident d n = Some (False, n') \<Longrightarrow> \<exists>k\<ge>n. k < n' \<and> d \<le> monotonic h k"
proof (induction fuel arbitrary: n)
  case (Suc fuel)
  obtain st n1 where st: "identity_state h ident n = (st, n1)" by force
  note le = identity_state_mono [OF st]
  show ?case
  proof (cases "d \<le> monotonic h n1")
    case True
    with Suc.prems st le show ?thesis by (auto split: if_splits)
  next
    case False
    with Suc.prems st have "wait_loop fuel h ident d (Suc n1) = Some (False, n')"
      by (auto split: if_splits)
    from Suc.IH [OF this] le show ?thesis by (meson Suc_leD order_trans)
  qed
qed simp

text \<open>\<open>SIGKILL\<close> follows only after a \<open>SIGTERM\<close> attempt and a grace period that elapsed on the monotonic
  clock within the stop.\<close>

theorem stop_escalates_after_grace:
  assumes "stop_worker_tree fuel h (JInt pid) pgid ident grace timeout n = Some (led, n')"
    and "plat h \<noteq> Win32" and "(SIGKILL, tgt, k) \<in> set (sl_signals led)"
  shows "sl_escalated led \<and> (\<exists>a b. n < a \<and> a < b \<and> b < k \<and> monotonic h a + max grace 0 \<le> monotonic h b)"
  using assms(1,2)
proof (cases rule: stop_worker_tree_cases)
  case (refused st n1)
  with assms(3) show ?thesis by simp
next
  case (stopped st n1 led0 led2 n2)
  from deliver_authorised [OF stopped(5)] stopped(3,7) assms(3) show ?thesis by fastforce
next
  case (killed st n1 led0 led2 n2 n3 led3 n4 gone)
  have k: "k = n3"
    using deliver_authorised [OF killed(6)] deliver_authorised [OF killed(4)] killed(3,8) assms(3) by fastforce
  from killed(5) obtain b where b: "Suc n2 \<le> b" "b < n3" "monotonic h n2 + max grace 0 \<le> monotonic h b"
    unfolding wait_until_gone_def by (auto dest: wait_loop_timeout)
  from identity_state_alive [OF killed(1,2)] deliver_mono [OF killed(4)] have "n < n2" by auto
  with b k killed(9) show ?thesis by (metis Suc_le_eq)
qed

text \<open>a stop that reports the worker stopped or killed has read the process table and found the
  recorded process gone, during the stop.\<close>

theorem stop_reports_observed_exit:
  assumes "stop_worker_tree fuel h (JInt pid) pgid ident grace timeout n = Some (led, n')"
    and "plat h \<noteq> Win32" and "sl_outcome led = ''stopped_on_sigterm'' \<or> sl_outcome led = ''killed''"
  shows "\<exists>k>n. k \<le> n' \<and> observed_gone h ident k"
  using assms(1,2)
proof (cases rule: stop_worker_tree_cases)
  case (refused st n1)
  with assms(3) show ?thesis by auto
next
  case (stopped st n1 led0 led2 n2)
  from wait_until_gone_observed [OF stopped(6)] obtain k where "n2 < k" "k \<le> n'" "observed_gone h ident k" by blast
  with deliver_mono [OF stopped(5)] identity_state_alive [OF stopped(1,2)]
  show ?thesis by (intro exI [of _ k]) auto
next
  case (killed st n1 led0 led2 n2 n3 led3 n4 gone)
  with assms(3) have "gone" by (auto split: if_splits)
  with killed(7) have "wait_until_gone fuel h ident timeout n4 = Some (True, n')" by simp
  then obtain k where "n4 < k" "k \<le> n'" "observed_gone h ident k" by (blast dest: wait_until_gone_observed)
  with deliver_mono [OF killed(4)] deliver_mono [OF killed(6)] identity_state_alive [OF killed(1,2)]
    wait_until_gone_mono [OF killed(5)]
  show ?thesis by (intro exI [of _ k]) auto
qed

text \<open>on a host whose clock advances, \<open>stop_worker_tree\<close> returns.\<close>

theorem stop_worker_tree_returns:
  assumes "clock_advances h"
  shows "\<exists>fuel r. stop_worker_tree fuel h pid pgid ident grace timeout n = Some r"
proof (cases pid)
  case (JInt p)
  obtain st n1 where st: "identity_state h ident n = (st, n1)" by force
  define led0 where "led0 = (let l = initial_stop\<lparr>sl_identity_verified := True, sl_exited := False\<rparr> in
     if json_eq pgid (JInt p) \<and> is_int pgid
     then l\<lparr>sl_scope := ''process_group'', sl_process_group := Some p\<rparr> else l)"
  obtain led2 n2 where d: "deliver h p pgid ident SIGTERM led0 n1 = (led2, n2)" by force
  obtain f1 w n3 where w: "wait_until_gone f1 h ident grace n2 = Some (w, n3)"
    using wait_until_gone_returns [OF assms] by (metis surj_pair)
  obtain led3 n4 where d3: "deliver h p pgid ident SIGKILL (led2\<lparr>sl_escalated := True\<rparr>) n3 = (led3, n4)" by force
  obtain f2 g n5 where w2: "wait_until_gone f2 h ident timeout n4 = Some (g, n5)"
    using wait_until_gone_returns [OF assms] by (metis surj_pair)
  have "wait_until_gone (max f1 f2) h ident grace n2 = Some (w, n3)"
    "wait_until_gone (max f1 f2) h ident timeout n4 = Some (g, n5)"
    using w w2 by (auto intro: wait_until_gone_fuel)
  with JInt st d d3 have "\<exists>r. stop_worker_tree (max f1 f2) h pid pgid ident grace timeout n = Some r"
    by (auto simp: stop_worker_tree_def led0_def Let_def split: json.splits option.splits bool.splits prod.splits)
  then show ?thesis by blast
qed (simp_all add: stop_worker_tree_def)

section \<open>A group is reported gone only on complete evidence\<close>

definition settled_task :: "int \<Rightarrow> proc_task \<Rightarrow> bool" where
  "settled_task pgid t \<longleftrightarrow>
     numeric_name (tk_name t) \<and>
     (case Option.bind (tk_stat t) linux_proc_stat of
        Some (state, grp, start) \<Rightarrow> grp = pgid \<and> non_executing state | None \<Rightarrow> False)"

definition settled_entry :: "int \<Rightarrow> proc_entry \<Rightarrow> bool" where
  "settled_entry pgid e \<longleftrightarrow>
     (numeric_name (pe_name e) \<longrightarrow>
      (case Option.bind (pe_stat e) linux_proc_stat of
         None \<Rightarrow> False
       | Some (_, grp, _) \<Rightarrow>
           grp = pgid \<longrightarrow> (case pe_tasks e of None \<Rightarrow> False | Some ts \<Rightarrow> ts \<noteq> [] \<and> list_all (settled_task pgid) ts)))"

definition task_member :: "proc_entry \<Rightarrow> proc_task \<Rightarrow> member" where
  "task_member e t = (name_number (pe_name e), name_number (tk_name t),
     case Option.bind (tk_stat t) linux_proc_stat of Some (_, _, start) \<Rightarrow> start | None \<Rightarrow> 0)"

definition entry_members :: "int \<Rightarrow> proc_entry \<Rightarrow> member list" where
  "entry_members pgid e =
     (case Option.bind (pe_stat e) linux_proc_stat of
        Some (_, grp, _) \<Rightarrow>
          if numeric_name (pe_name e) \<and> grp = pgid then map (task_member e) (case pe_tasks e of Some ts \<Rightarrow> ts | None \<Rightarrow> []) else []
      | None \<Rightarrow> [])"

lemma scan_tasks_uncertain: "scan_tasks pgid name ts (v, ms) = Inr (u, ms') \<Longrightarrow> v \<Longrightarrow> u"
  by (induction ts arbitrary: v ms) (auto simp: Let_def split: if_splits option.splits)

lemma scan_tasks_settled:
  "scan_tasks pgid (pe_name e) ts (u, ms) = Inr (False, ms') \<longleftrightarrow>
     \<not> u \<and> list_all (settled_task pgid) ts \<and> ms' = rev (map (task_member e) ts) @ ms"
proof (induction ts arbitrary: u ms)
  case (Cons t ts)
  then show ?case
    by (auto simp: settled_task_def task_member_def Let_def dest: scan_tasks_uncertain split: option.splits)
qed auto

lemma scan_entries_uncertain: "scan_entries pgid es (v, ms) = Inr (u, ms') \<Longrightarrow> v \<Longrightarrow> u"
proof (induction es arbitrary: v ms)
  case (Cons e es)
  show ?case
    using Cons.prems Cons.IH [OF _ TrueI]
    by (auto dest!: scan_tasks_uncertain [OF _ TrueI] split: if_splits option.splits sum.splits)
qed auto

lemma scan_entries_settled:
  "scan_entries pgid es (u, ms) = Inr (False, ms') \<longleftrightarrow>
     \<not> u \<and> list_all (settled_entry pgid) es \<and> ms' = rev (concat (map (entry_members pgid) es)) @ ms"
proof (induction es arbitrary: u ms)
  case (Cons e es)
  show ?case
  proof (cases "\<exists>s g st ts. numeric_name (pe_name e) \<and> Option.bind (pe_stat e) linux_proc_stat = Some (s, pgid, st)
      \<and> pe_tasks e = Some ts \<and> ts \<noteq> []")
    case True
    then obtain s st ts where e: "numeric_name (pe_name e)" "Option.bind (pe_stat e) linux_proc_stat = Some (s, pgid, st)"
      "pe_tasks e = Some ts" "ts \<noteq> []" by auto
    show ?thesis
    proof (cases "scan_tasks pgid (pe_name e) ts (u, ms)")
      case (Inl m)
      with e scan_tasks_settled [of pgid e ts u ms] show ?thesis
        by (auto simp: settled_entry_def)
    next
      case (Inr acc)
      obtain u1 m1 where acc: "acc = (u1, m1)" by force
      have u1: "\<not> u1 \<longleftrightarrow> \<not> u \<and> list_all (settled_task pgid) ts"
        and m1: "\<not> u1 \<Longrightarrow> m1 = rev (map (task_member e) ts) @ ms"
        using scan_tasks_settled [of pgid e ts u ms m1] Inr acc
          scan_tasks_settled [of pgid e ts u ms "rev (map (task_member e) ts) @ ms"] by auto
      have "scan_entries pgid (e # es) (u, ms) = scan_entries pgid es (u1, m1)"
        using e Inr acc by simp
      moreover have "settled_entry pgid e \<longleftrightarrow> list_all (settled_task pgid) ts"
        "entry_members pgid e = map (task_member e) ts"
        using e by (simp_all add: settled_entry_def entry_members_def)
      ultimately show ?thesis
        using Cons.IH [of u1 m1] u1 m1 by auto
    qed
  next
    case False
    then show ?thesis
      using Cons.IH
      by (auto simp: settled_entry_def entry_members_def dest: scan_entries_uncertain split: option.splits)
  qed
qed auto


section \<open>The command name cannot forge a field\<close>

lemma after_last_paren_none: "CHR '')'' \<notin> set t \<Longrightarrow> after_last_paren t = None"
  by (induction t) auto

lemma after_last_paren_suffix: "CHR '')'' \<notin> set rest \<Longrightarrow> after_last_paren (pre @ '') '' @ rest) = Some rest"
  by (induction pre) (simp_all add: after_last_paren_none)

text \<open>whatever a process puts in its command name, the fields of its \<open>stat\<close> line are those the kernel
  writes after the name: state, group and start time do not depend on it.\<close>

theorem proc_stat_ignores_name:
  assumes "CHR '')'' \<notin> set rest"
  shows "linux_proc_stat (name @ '') '' @ rest) = linux_proc_stat ('') '' @ rest)"
  using after_last_paren_suffix [OF assms, of name] after_last_paren_suffix [OF assms, of "[]"]
  by (simp add: linux_proc_stat_def)

section \<open>A worker that ignores the signals\<close>

definition demo_ident :: json where
  "demo_ident = JObj [(''source'', JStr ''linux-proc-stat''), (''pid'', JInt 7), (''start_ticks'', JInt 42)]"

definition demo_host :: host where
  "demo_host = \<lparr>plat = Linux, lifecycle_supported = True, boot_id = (\<lambda>_. None),
     read_stat = (\<lambda>n p. if n < 8 then Stat_Text ''7 (a) b) S 1 7 0 0 0 0 0 0 0 0 0 0 0 0 0 0 0 0 42 0'' else Stat_Missing),
     native_probe = (\<lambda>_ _. \<lparr>pr_state = ''unknown'', pr_identity = None\<rparr>), machine_id = JNull,
     kill = (\<lambda>_ _ _. True), monotonic = int, terminate_job = (\<lambda>_ _. None)\<rparr>"

definition demo_stop :: stop_ledger where
  "demo_stop = \<lparr>sl_scope = ''process_group'', sl_process_group = Some 7, sl_escalated = True, sl_exited = True,
     sl_identity_verified = True, sl_signals = [(SIGTERM, Group 7, 1), (SIGKILL, Group 7, 6)],
     sl_outcome = ''killed'', sl_sweep = None\<rparr>"

lemma demo_run: "stop_worker_tree 20 demo_host (JInt 7) (JInt 7) demo_ident 1 9 0 = Some (demo_stop, 11)"
  by code_simp

lemma demo_linux: "plat demo_host \<noteq> Win32"
  by (simp add: demo_host_def)

lemma demo_clock: "clock_advances demo_host"
  unfolding clock_advances_def
proof
  fix d :: int
  have "\<forall>k\<ge>nat d. d \<le> monotonic demo_host k" by (auto simp: demo_host_def)
  then show "\<exists>m. \<forall>k\<ge>m. d \<le> monotonic demo_host k" ..
qed


theorem stop_escalates_after_grace_witness:
  "\<exists>a b. 0 < a \<and> a < b \<and> b < 6 \<and> monotonic demo_host a + max 1 0 \<le> monotonic demo_host b"
  using stop_escalates_after_grace [OF demo_run demo_linux, of "Group 7" 6]
  by (simp add: demo_stop_def)

theorem stop_reports_observed_exit_witness:
  "\<exists>k>0. k \<le> 11 \<and> observed_gone demo_host demo_ident k"
  using stop_reports_observed_exit [OF demo_run demo_linux]
  by (simp add: demo_stop_def)

theorem stop_worker_tree_returns_witness:
  "\<exists>fuel r. stop_worker_tree fuel demo_host (JInt 7) (JInt 7) demo_ident 1 9 0 = Some r"
  by (rule stop_worker_tree_returns [OF demo_clock])

theorem proc_stat_ignores_name_witness:
  "linux_proc_stat (''7 (a) b'' @ '') '' @ ''S 1 7 0 0 0 0 0 0 0 0 0 0 0 0 0 0 0 0 42 0'')
     = linux_proc_stat ('') '' @ ''S 1 7 0 0 0 0 0 0 0 0 0 0 0 0 0 0 0 0 42 0'')"
  by (rule proc_stat_ignores_name) simp

end
