(* ===== verification/Resource_Ledger.thy ===== *)
theory Resource_Ledger
  imports Resource_Assign Host_Binding Worker_Lease
begin

text \<open>
  The transactional ledger of \<open>resource_queue.py\<close>: its tables as one record, and the
  accessors of the class \<open>Ledger\<close>. Its operations are in the theories Resource_Ops and Resource_Schedule.

  An operation is a state passer that may raise. The source runs it between \<open>BEGIN IMMEDIATE\<close> and
  \<open>COMMIT\<close> and rolls back on any exception, so an operation that raises has no new state.

  The clock, \<open>uuid4\<close>, \<open>secrets.token_urlsafe\<close>, SHA-256 of the canonical JSON and \<open>uuid5\<close> are
  functions of the environment record, the first three of the number of earlier readings: nothing
  is assumed about them unless a theorem says so. So is the hash that decides the order in which
  Python walks a set of strings. Times are integers of any unit.
\<close>

section \<open>State\<close>

datatype stage_state =
    Waiting | Granted | Launching | Running | Cleanup | Recovery_Required
  | Passed | Failed | Cancelled | Invalidated | Skipped

fun terminal :: "stage_state \<Rightarrow> bool" where
  "terminal Passed = True"
| "terminal Failed = True"
| "terminal Cancelled = True"
| "terminal Invalidated = True"
| "terminal Skipped = True"
| "terminal _ = False"

fun owning :: "stage_state \<Rightarrow> bool" where
  "owning Granted = True"
| "owning Launching = True"
| "owning Running = True"
| "owning Cleanup = True"
| "owning Recovery_Required = True"
| "owning _ = False"

text \<open>
  A stage row (the JSON body of a row of \<open>stages\<close>). \<open>None\<close> is an absent key; \<open>st_reason = None\<close> is
  also the value \<open>null\<close>. \<open>st_extra\<close> holds the keys of the definition that the ledger only carries
  (\<open>commands\<close>, \<open>cleanup\<close>, ...; a typed field that is present shadows such a key),
  \<open>st_runner\<close> the runner evidence of \<open>annotate\<close>.
\<close>

record stage =
  st_id :: string
  st_name :: string
  st_request :: string
  st_project :: string
  st_state :: stage_state
  st_seq :: nat
  st_reason :: "string option"
  st_created_at :: int
  st_epoch :: nat
  st_allocation :: allocation
  st_needs :: json
  st_after :: json
  st_extra :: fields
  st_ready_at :: "int option"
  st_ready_seq :: "nat option"
  st_protection :: "allocation option"
  st_launch_token :: "string option"
  st_maintenance_token :: "string option"
  st_cancel_requested :: bool
  st_supervisor :: json
  st_started_at :: "int option"
  st_granted_at :: "int option"
  st_finished_at :: "int option"
  st_outcome :: "stage_state option"
  st_evidence :: json
  st_incarnations :: "(string \<times> string) list"
  st_granted_allocation :: allocation
  st_bypass_count :: json
  st_blockers :: "string list"
  st_wait_seconds :: "(string \<times> int option) list"
  st_transition_at :: "int option"
  st_runner :: fields

record request =
  rq_id :: string
  rq_project :: string
  rq_external :: string
  rq_plan :: fields
  rq_subscribers :: "json list"
  rq_created_at :: int

record history_row =
  hs_request :: string
  hs_subscriber :: string
  hs_generation :: nat
  hs_body :: json
  hs_active :: bool

record outcome_body =
  oc_request :: string
  oc_project :: string
  oc_external :: string
  oc_status :: string
  oc_outcome_id :: string
  oc_subscriber :: json
  oc_generation :: nat
  oc_stages :: "stage list"

record outbox_row =
  ob_id :: string
  ob_request :: string
  ob_body :: outcome_body
  ob_delivered :: bool
  ob_attempts :: nat
  ob_next_attempt :: int
  ob_last_error :: "string option"

datatype event_kind =
    State_Changed stage_state "string option"
  | Ready_Event
  | Granted_Event allocation nat "(string \<times> int) list"
  | Protected_Event allocation
  | Admitted_Event nat
  | Finished_Event stage_state "string list" json
  | Cancel_Requested_Event
  | Subscription_Event bool
  | Submitted_Event string string
  | Configured_Event string
  | Delivery_Failed_Event string

record event =
  ev_at :: int
  ev_subject :: string
  ev_kind :: event_kind

record ledger =
  registry :: registry
  released :: "string list"
  sequence :: nat
  authority :: string
  requests :: "request list"
  stage_rows :: "stage list"
  event_log :: "event list"
  outbox :: "outbox_row list"
  history :: "history_row list"
  clock_reads :: nat
  uuid_draws :: nat
  secret_draws :: nat

record env =
  clock :: "nat \<Rightarrow> int"
  uuid4 :: "nat \<Rightarrow> string"
  secret :: "nat \<Rightarrow> string"
  sha :: "json \<Rightarrow> string"
  uuid5 :: "json \<Rightarrow> string"
  isoformat :: "string \<Rightarrow> bool option"
  str_hash :: "string \<Rightarrow> nat"

text \<open>\<open>for x in set(xs)\<close>: every element once, in an order the hash decides.\<close>

definition set_iter :: "env \<Rightarrow> string list \<Rightarrow> string list" where
  "set_iter \<epsilon> xs = sort_key (str_hash \<epsilon>) (dedup xs)"

lemma set_iter_set [simp]: "set (set_iter \<epsilon> xs) = set xs"
  by (simp add: set_iter_def)

section \<open>Operations as state passers that may raise\<close>

type_synonym 'a op = "ledger \<Rightarrow> err + 'a \<times> ledger"

definition obind :: "'a op \<Rightarrow> ('a \<Rightarrow> 'b op) \<Rightarrow> 'b op" where
  "obind m f = (\<lambda>L. case m L of Inl e \<Rightarrow> Inl e | Inr (x, L') \<Rightarrow> f x L')"

definition oreturn :: "'a \<Rightarrow> 'a op" where
  "oreturn x = (\<lambda>L. Inr (x, L))"

definition oget :: "(ledger \<Rightarrow> 'a) \<Rightarrow> 'a op" where
  "oget f = (\<lambda>L. Inr (f L, L))"

definition omodify :: "(ledger \<Rightarrow> ledger) \<Rightarrow> unit op" where
  "omodify f = (\<lambda>L. Inr ((), f L))"

definition olift :: "err + 'a \<Rightarrow> 'a op" where
  "olift m = (\<lambda>L. case m of Inl e \<Rightarrow> Inl e | Inr x \<Rightarrow> Inr (x, L))"

fun ofor :: "('a \<Rightarrow> 'b op) \<Rightarrow> 'a list \<Rightarrow> 'b list op" where
  "ofor f [] = oreturn []"
| "ofor f (x # xs) = obind (f x) (\<lambda>y. obind (ofor f xs) (\<lambda>ys. oreturn (y # ys)))"

fun ofold :: "('a \<Rightarrow> 's \<Rightarrow> 's op) \<Rightarrow> 'a list \<Rightarrow> 's \<Rightarrow> 's op" where
  "ofold f [] s = oreturn s"
| "ofold f (x # xs) s = obind (f x s) (\<lambda>s'. ofold f xs s')"

named_theorems op_simps \<open>unfolding one operation\<close>

lemma obind_Inr [op_simps]:
  "obind m f L = Inr (y, L'') \<longleftrightarrow> (\<exists>x L'. m L = Inr (x, L') \<and> f x L' = Inr (y, L''))"
  by (auto simp: obind_def split: sum.splits)

lemma oreturn_Inr [op_simps]: "oreturn x L = Inr (y, L') \<longleftrightarrow> y = x \<and> L' = L"
  by (auto simp: oreturn_def)

lemma oget_Inr [op_simps]: "oget f L = Inr (y, L') \<longleftrightarrow> y = f L \<and> L' = L"
  by (auto simp: oget_def)

lemma omodify_Inr [op_simps]: "omodify f L = Inr (y, L') \<longleftrightarrow> L' = f L"
  by (auto simp: omodify_def)

lemma olift_Inr [op_simps]: "olift m L = Inr (y, L') \<longleftrightarrow> m = Inr y \<and> L' = L"
  by (auto simp: olift_def split: sum.splits)

text \<open>A transaction: the new state, or on an exception the old one.\<close>

definition committed :: "'a op \<Rightarrow> ledger \<Rightarrow> ledger" where
  "committed m L = (case m L of Inl _ \<Rightarrow> L | Inr (_, L') \<Rightarrow> L')"

section \<open>Tables\<close>

definition now :: "env \<Rightarrow> int op" where
  "now \<epsilon> = (\<lambda>L. Inr (clock \<epsilon> (clock_reads L), L\<lparr>clock_reads := Suc (clock_reads L)\<rparr>))"

definition new_uuid :: "env \<Rightarrow> string op" where
  "new_uuid \<epsilon> = (\<lambda>L. Inr (uuid4 \<epsilon> (uuid_draws L), L\<lparr>uuid_draws := Suc (uuid_draws L)\<rparr>))"

definition new_secret :: "env \<Rightarrow> string op" where
  "new_secret \<epsilon> = (\<lambda>L. Inr (secret \<epsilon> (secret_draws L), L\<lparr>secret_draws := Suc (secret_draws L)\<rparr>))"

definition log_event :: "env \<Rightarrow> string \<Rightarrow> event_kind \<Rightarrow> unit op" where
  "log_event \<epsilon> subject kind =
     obind (now \<epsilon>) (\<lambda>t.
     omodify (\<lambda>L. L\<lparr>event_log := event_log L @ [\<lparr>ev_at = t, ev_subject = subject, ev_kind = kind\<rparr>]\<rparr>))"

definition next_sequence :: "nat op" where
  "next_sequence = (\<lambda>L. Inr (Suc (sequence L), L\<lparr>sequence := Suc (sequence L)\<rparr>))"

text \<open>\<open>SELECT s.body FROM stages ... ORDER BY s.seq,s.id\<close>, with the optional join on the request's
  project, and either the request filter or (only without one) the active filter.\<close>

definition stages_query :: "string option \<Rightarrow> bool \<Rightarrow> string option \<Rightarrow> ledger \<Rightarrow> stage list" where
  "stages_query request active project L =
     sort_key (\<lambda>s. (st_seq s, st_id s))
       (filter (\<lambda>s.
          (case project of None \<Rightarrow> True
           | Some p \<Rightarrow> list_ex (\<lambda>r. rq_id r = st_request s \<and> rq_project r = p) (requests L)) \<and>
          (case request of
             Some r \<Rightarrow> if r \<noteq> [] then st_request s = r else (active \<longrightarrow> \<not> terminal (st_state s))
           | None \<Rightarrow> active \<longrightarrow> \<not> terminal (st_state s))) (stage_rows L))"

abbreviation stages_of :: "string \<Rightarrow> ledger \<Rightarrow> stage list" where
  "stages_of request \<equiv> stages_query (Some request) False None"

abbreviation active_stages :: "ledger \<Rightarrow> stage list" where
  "active_stages \<equiv> stages_query None True None"

definition find_stage :: "string \<Rightarrow> stage list \<Rightarrow> stage option" where
  "find_stage i rows = List.find (\<lambda>s. st_id s = i) rows"

definition get_stage :: "string \<Rightarrow> stage op" where
  "get_stage i = (\<lambda>L. case find_stage i (stage_rows L) of
       None \<Rightarrow> Inl (ResourceError ''unknown stage'') | Some s \<Rightarrow> Inr (s, L))"

definition find_request :: "string \<Rightarrow> request list \<Rightarrow> request option" where
  "find_request i rs = List.find (\<lambda>r. rq_id r = i) rs"

definition get_request :: "string \<Rightarrow> request op" where
  "get_request i = (\<lambda>L. case find_request i (requests L) of
       None \<Rightarrow> Inl (ResourceError ''unknown resource request'') | Some r \<Rightarrow> Inr (r, L))"

text \<open>\<open>INSERT OR REPLACE INTO stages\<close>: the id is the primary key.\<close>

fun upsert_stage :: "stage \<Rightarrow> stage list \<Rightarrow> stage list" where
  "upsert_stage s [] = [s]"
| "upsert_stage s (r # rs) = (if st_id r = st_id s then s # rs else r # upsert_stage s rs)"

text \<open>The reason under which the waiting time that ends now is booked.\<close>

definition book_wait :: "int \<Rightarrow> stage \<Rightarrow> (string \<times> int option) list" where
  "book_wait t old =
     (if st_state old = Waiting then
        let started = (case st_transition_at old of None \<Rightarrow> st_created_at old | Some u \<Rightarrow> u);
            reason = (case st_reason old of None \<Rightarrow> ''null'' | Some r \<Rightarrow> r);
            previous = (case map_of (st_wait_seconds old) reason of None \<Rightarrow> Some 0 | Some p \<Rightarrow> p)
        in AList.update reason
             (case previous of Some p \<Rightarrow> if 0 \<le> t - started then Some (p + (t - started)) else None | None \<Rightarrow> None)
             (st_wait_seconds old)
      else st_wait_seconds old)"

text \<open>\<open>Ledger.save\<close>: a change of state or reason stamps the stage and is logged. The stage is
  mutated in place in the source; the model returns the stamped stage.\<close>

definition save :: "env \<Rightarrow> stage \<Rightarrow> stage op" where
  "save \<epsilon> s =
     obind (oget (\<lambda>L. find_stage (st_id s) (stage_rows L))) (\<lambda>old.
     obind (if (case old of None \<Rightarrow> True
                | Some o' \<Rightarrow> st_state o' \<noteq> st_state s \<or> st_reason o' \<noteq> st_reason s)
            then
              obind (now \<epsilon>) (\<lambda>t.
              let s' = s\<lparr>st_wait_seconds := (case old of None \<Rightarrow> [] | Some o' \<Rightarrow> book_wait t o'),
                         st_transition_at := Some t\<rparr>
              in obind (log_event \<epsilon> (st_id s') (State_Changed (st_state s') (st_reason s'))) (\<lambda>_.
                 oreturn s'))
            else oreturn s) (\<lambda>s'.
     obind (omodify (\<lambda>L. L\<lparr>stage_rows := upsert_stage s' (stage_rows L)\<rparr>)) (\<lambda>_.
     oreturn s')))"

section \<open>Evaluating an operation on a concrete ledger\<close>

named_theorems run_eval \<open>rules that run an operation step by step\<close>

lemma obind_weak_cong: "L = L' \<Longrightarrow> obind m f L = obind m f L'"
  by simp

lemma obind_run [run_eval]:
  "m L = Inr (x, L') \<Longrightarrow> obind m f L = f x L'"
  "m L = Inl e \<Longrightarrow> obind m f L = Inl e"
  by (simp_all add: obind_def)

lemma basic_run [run_eval]:
  "oreturn x L = Inr (x, L)" "oget g L = Inr (g L, L)" "omodify h L = Inr ((), h L)"
  "olift (Inr y) L = Inr (y, L)" "olift (Inl e) L = Inl e"
  by (simp_all add: oreturn_def oget_def omodify_def olift_def)

lemma draw_run [run_eval]:
  "now \<epsilon> L = Inr (clock \<epsilon> (clock_reads L), L\<lparr>clock_reads := Suc (clock_reads L)\<rparr>)"
  "new_uuid \<epsilon> L = Inr (uuid4 \<epsilon> (uuid_draws L), L\<lparr>uuid_draws := Suc (uuid_draws L)\<rparr>)"
  "new_secret \<epsilon> L = Inr (secret \<epsilon> (secret_draws L), L\<lparr>secret_draws := Suc (secret_draws L)\<rparr>)"
  "next_sequence L = Inr (Suc (sequence L), L\<lparr>sequence := Suc (sequence L)\<rparr>)"
  "log_event \<epsilon> subject kind L = Inr ((), L\<lparr>clock_reads := Suc (clock_reads L),
     event_log := event_log L @ [\<lparr>ev_at = clock \<epsilon> (clock_reads L), ev_subject = subject, ev_kind = kind\<rparr>]\<rparr>)"
  by (simp_all add: now_def new_uuid_def new_secret_def next_sequence_def log_event_def obind_def omodify_def)

end
