(* ===== verification/Resource_Ops.thy ===== *)
theory Resource_Ops
  imports Resource_Ledger
begin

text \<open>
  The transactions of the class \<open>Ledger\<close> (\<open>resource_queue.py\<close>) except \<open>schedule\<close>: creation and
  registry configuration, submission of a plan, launch and admission of a granted stage, runner
  evidence, cancellation, subscriptions, completion, recovery, and the outbox of outcomes.
\<close>

section \<open>Creation and configuration\<close>

definition initial_ledger :: "env \<Rightarrow> ledger" where
  "initial_ledger \<epsilon> = \<lparr>registry = [], released = [], sequence = 0, authority = uuid4 \<epsilon> 0, requests = [],
     stage_rows = [], event_log = [], outbox = [], history = [], clock_reads = 0, uuid_draws = 1,
     secret_draws = 0\<rparr>"

text \<open>\<open>Ledger(directory, create=...)\<close> on an existing database (\<open>Some\<close>) or none: creation keeps every
  row that is there.\<close>

definition open_ledger :: "env \<Rightarrow> bool \<Rightarrow> ledger option \<Rightarrow> err + ledger" where
  "open_ledger \<epsilon> create db =
     (case db of
        None \<Rightarrow> if create then Inr (initial_ledger \<epsilon>)
                else Inl (ResourceError ''resource ledger is missing; refusing implicit reinitialization'')
      | Some L \<Rightarrow> Inr (if create then L\<lparr>uuid_draws := Suc (uuid_draws L)\<rparr> else L))"

fun same_entry :: "entry option \<Rightarrow> entry option \<Rightarrow> bool" where
  "same_entry (Some a) (Some b) = json_eq (JObj (entry_fields a)) (JObj (entry_fields b))"
| "same_entry None None = True"
| "same_entry _ _ = False"

definition configure :: "env \<Rightarrow> json \<Rightarrow> unit op" where
  "configure \<epsilon> raw =
     obind (olift (normalize_registry raw)) (\<lambda>reg.
     obind (oget registry) (\<lambda>old.
     obind (oget active_stages) (\<lambda>stages.
     obind (ofor (\<lambda>s.
         obind (olift (raise_if (\<not> list_all (\<lambda>leaf. same_entry (map_of reg leaf) (map_of old leaf)) (keys (st_allocation s)))
                  (ResourceError ''active resource changes require drain and release first''))) (\<lambda>_.
         olift (raise_if (st_state s = Waiting \<and> \<not> json_eq (registry_json reg) (registry_json old))
                  (ResourceError ''cancel pending requests before registry changes'')))) stages) (\<lambda>_.
     obind (omodify (\<lambda>L. L\<lparr>registry := reg\<rparr>)) (\<lambda>_.
     log_event \<epsilon> ''registry'' (Configured_Event (sha \<epsilon> (jcanon (registry_json reg)))))))))"

section \<open>Subscribers\<close>

fun is_bool :: "json \<Rightarrow> bool" where
  "is_bool (JBool _) = True"
| "is_bool _ = False"

definition validate_subscriber :: "(string \<Rightarrow> bool option) \<Rightarrow> json \<Rightarrow> err + unit" where
  "validate_subscriber parse_iso subscriber =
     (case subscriber of
        JObj fs \<Rightarrow>
          ebind (raise_if (\<not> list_all (\<lambda>k. k \<in> set [''id'', ''wake_target'', ''wake'', ''wake_policy'', ''check_id''])
                             (keys fs)) (ResourceError ''unsupported subscription fields'')) (\<lambda>_.
          ebind (identifier_of (get fs ''id'')) (\<lambda>_.
          ebind (raise_if (''wake'' \<in> set (keys fs) \<and> \<not> is_bool (get fs ''wake''))
                   (ResourceError ''subscriber wake must be boolean'')) (\<lambda>_.
          ebind (raise_if (get_or fs ''wake_policy'' (JStr ''never'')
                             \<notin> set [JStr ''never'', JStr ''always'', JStr ''on-failure''])
                   (ResourceError ''unsupported subscriber wake policy'')) (\<lambda>_.
          ebind (if ''check_id'' \<in> set (keys fs) then validate_event_id (get fs ''check_id'') else Inr []) (\<lambda>_.
          (case get fs ''wake_target'' of
             JNull \<Rightarrow> Inr ()
           | JObj t \<Rightarrow> validate_wake_target parse_iso t
           | _ \<Rightarrow> Inl (ResourceError ''wake target must be an object'')))))))
      | _ \<Rightarrow> Inl (ResourceError ''unsupported subscription fields''))"

definition same_subscriber :: "json \<Rightarrow> json \<Rightarrow> bool" where
  "same_subscriber first second =
     (case (first, second) of
        (JObj a, JObj b) \<Rightarrow>
          list_all (\<lambda>k. json_eq (get a k) (get b k)) [''id'', ''wake'', ''wake_policy'', ''check_id'']
          \<and> same_wake_destination (get a ''wake_target'') (get b ''wake_target'')
      | _ \<Rightarrow> False)"

text \<open>The identifier of a stored subscriber (a validated one has a string there).\<close>

definition sub_id :: "json \<Rightarrow> string" where
  "sub_id s = (case get (obj_fields s) ''id'' of JStr i \<Rightarrow> i | _ \<Rightarrow> [])"

section \<open>Subscriber history and outcomes\<close>

definition has_history :: "string \<Rightarrow> string \<Rightarrow> nat \<Rightarrow> history_row list \<Rightarrow> bool" where
  "has_history rid sid gen rows \<longleftrightarrow>
     list_ex (\<lambda>h. hs_request h = rid \<and> hs_subscriber h = sid \<and> hs_generation h = gen) rows"

text \<open>\<open>INSERT INTO subscriber_history\<close>: the three columns are the primary key.\<close>

definition insert_history :: "string \<Rightarrow> string \<Rightarrow> nat \<Rightarrow> json \<Rightarrow> unit op" where
  "insert_history rid sid gen body =
     obind (oget history) (\<lambda>rows.
     if has_history rid sid gen rows then olift (Inl IntegrityError)
     else omodify (\<lambda>L. L\<lparr>history := rows @ [\<lparr>hs_request = rid, hs_subscriber = sid, hs_generation = gen,
                             hs_body = body, hs_active = True\<rparr>]\<rparr>))"

text \<open>\<open>ORDER BY generation DESC LIMIT 1\<close> over the rows of one subscriber of one request.\<close>

fun latest :: "history_row list \<Rightarrow> history_row option" where
  "latest [] = None"
| "latest (h # hs) = (case latest hs of None \<Rightarrow> Some h
     | Some g \<Rightarrow> if hs_generation h < hs_generation g then Some g else Some h)"

definition history_of :: "string \<Rightarrow> string \<Rightarrow> history_row list \<Rightarrow> history_row list" where
  "history_of rid sid rows = filter (\<lambda>h. hs_request h = rid \<and> hs_subscriber h = sid) rows"

definition public_stage :: "stage \<Rightarrow> stage" where
  "public_stage s = s\<lparr>st_launch_token := None, st_maintenance_token := None,
     st_extra := filter (\<lambda>kv. fst kv \<noteq> ''commands'') (st_extra s)\<rparr>"

definition outcome_status :: "stage list \<Rightarrow> string" where
  "outcome_status stages =
     (if list_ex (\<lambda>s. st_state s = Recovery_Required) stages then ''action_required''
      else if list_all (\<lambda>s. st_state s \<in> {Cancelled, Skipped}) stages then ''cancelled''
      else if list_all (\<lambda>s. st_state s = Passed) stages then ''passed'' else ''failed'')"

text \<open>The digest that identifies an outcome: the status and the quarantined epochs.\<close>

definition outcome_key :: "stage list \<Rightarrow> json" where
  "outcome_key stages = JList [JStr (outcome_status stages),
     JList (map (\<lambda>(i, e). JList [JStr i, JInt (int e)])
       (sort (map (\<lambda>s. (st_id s, st_epoch s)) (filter (\<lambda>s. st_state s = Recovery_Required) stages))))]"

definition outcome_due :: "stage list \<Rightarrow> bool" where
  "outcome_due stages \<longleftrightarrow>
     list_ex (\<lambda>s. st_state s = Recovery_Required) stages \<or> list_all (\<lambda>s. terminal (st_state s)) stages"

text \<open>\<open>INSERT OR IGNORE INTO outbox\<close>: the event id is the primary key.\<close>

definition insert_outbox :: "string \<Rightarrow> string \<Rightarrow> outcome_body \<Rightarrow> ledger \<Rightarrow> ledger" where
  "insert_outbox i rid body L =
     (if list_ex (\<lambda>o'. ob_id o' = i) (outbox L) then L
      else L\<lparr>outbox := outbox L @ [\<lparr>ob_id = i, ob_request = rid, ob_body = body, ob_delivered = False,
               ob_attempts = 0, ob_next_attempt = 0, ob_last_error = None\<rparr>]\<rparr>)"

definition outcome_subscriber :: "env \<Rightarrow> request \<Rightarrow> string \<Rightarrow> stage list \<Rightarrow> json \<Rightarrow> unit op" where
  "outcome_subscriber \<epsilon> rq rid stages subscriber =
     obind (oget history) (\<lambda>rows.
     let sid = sub_id subscriber;
         current = latest (filter hs_active (history_of rid sid rows));
         gen = (case current of None \<Rightarrow> 1 | Some h \<Rightarrow> hs_generation h);
         oid = sha \<epsilon> (jcanon (outcome_key stages))
     in obind (if current = None \<and> \<not> has_history rid sid gen rows
               then insert_history rid sid gen subscriber else oreturn ()) (\<lambda>_.
        omodify (insert_outbox (uuid5 \<epsilon> (JList [JStr rid, JStr sid, JInt (int gen), JStr oid])) rid
          \<lparr>oc_request = rid, oc_project = rq_project rq, oc_external = rq_external rq,
           oc_status = outcome_status stages, oc_outcome_id = oid, oc_subscriber = subscriber,
           oc_generation = gen, oc_stages = map public_stage stages\<rparr>)))"

text \<open>\<open>_outcomes\<close> for one request\<close>

definition outcomes_of :: "env \<Rightarrow> string \<Rightarrow> unit op" where
  "outcomes_of \<epsilon> rid =
     obind (oget (stages_of rid)) (\<lambda>stages.
     if \<not> outcome_due stages then oreturn ()
     else obind (get_request rid) (\<lambda>rq.
          obind (ofor (outcome_subscriber \<epsilon> rq rid stages) (rq_subscribers rq)) (\<lambda>_. oreturn ())))"

definition outcomes :: "env \<Rightarrow> string list \<Rightarrow> unit op" where
  "outcomes \<epsilon> rids = obind (ofor (outcomes_of \<epsilon>) rids) (\<lambda>_. oreturn ())"

section \<open>Submission\<close>

text \<open>\<open>identifier(stage["id"])\<close>\<close>

fun definition_name :: "json \<Rightarrow> err + string" where
  "definition_name (JObj fs) =
     (case map_of fs ''id'' of None \<Rightarrow> Inl (KeyError ''id'') | Some v \<Rightarrow> identifier_of v)"
| "definition_name _ = Inl TypeError"

text \<open>\<open>set(value)\<close>\<close>

fun elements :: "json \<Rightarrow> err + json list" where
  "elements (JList xs) = (if list_all hashable xs then Inr xs else Inl TypeError)"
| "elements (JStr s) = Inr (map (\<lambda>c. JStr [c]) s)"
| "elements (JObj fs) = Inr (map (\<lambda>kv. JStr (fst kv)) fs)"
| "elements _ = Inl TypeError"

definition after_set :: "json \<Rightarrow> err + json list" where
  "after_set d = elements (get_or (obj_fields d) ''after'' (JList []))"

text \<open>The \<open>while remaining\<close> loop: repeatedly drop every stage that waits for no remaining stage;
  \<open>False\<close> when none can be dropped. The dependencies are read before the loop, in the order in which
  the first round of the source reads them.\<close>

definition ready_names :: "(string \<times> json list) list \<Rightarrow> string list \<Rightarrow> string list" where
  "ready_names deps remaining =
     map fst (filter (\<lambda>(n, after). n \<in> set remaining \<and> list_all (\<lambda>r. JStr r \<notin> set after) remaining) deps)"

function drain :: "(string \<times> json list) list \<Rightarrow> string list \<Rightarrow> bool" where
  "drain deps remaining =
     (if remaining = [] then True
      else let ready = ready_names deps remaining in
        if ready = [] then False else drain deps (filter (\<lambda>n. n \<notin> set ready) remaining))"
  by pat_completeness auto
termination
proof (relation "measure (\<lambda>(deps, remaining). length remaining)")
  fix deps remaining ready
  assume "ready = ready_names deps remaining" "ready \<noteq> []"
  moreover have "set (ready_names deps remaining) \<subseteq> set remaining"
    by (auto simp: ready_names_def)
  ultimately obtain n where "n \<in> set ready" "n \<in> set remaining"
    using last_in_set [of ready] by blast
  then have "length (filter (\<lambda>m. m \<notin> set ready) remaining) < length remaining"
    by (intro length_filter_less) auto
  then show "((deps, filter (\<lambda>n. n \<notin> set ready) remaining), deps, remaining)
      \<in> measure (\<lambda>(deps, remaining). length remaining)" by simp
qed simp

declare drain.simps [simp del]

definition empty_search :: search where
  "empty_search = \<lparr>s_others = [], s_excluded = [], s_priority = [], s_required = []\<rparr>"

text \<open>The keys of a definition that the new stage sets, drops or holds in a field of its own.\<close>

definition stage_keys :: "string list" where
  "stage_keys = [''id'', ''name'', ''request'', ''project'', ''state'', ''seq'', ''reason'', ''created_at'', ''epoch'',
     ''allocation'', ''ready_at'', ''ready_seq'', ''protection'', ''launch_token'', ''maintenance_token'',
     ''cancel_requested'', ''supervisor_identity'', ''needs'', ''after'', ''bypass_count'', ''wait_seconds'',
     ''transition_at'']"

definition new_stage :: "string \<Rightarrow> string \<Rightarrow> string \<Rightarrow> string \<Rightarrow> nat \<Rightarrow> int \<Rightarrow> fields \<Rightarrow> stage" where
  "new_stage sid name rid project n t d =
     \<lparr>st_id = sid, st_name = name, st_request = rid, st_project = project, st_state = Waiting, st_seq = n,
      st_reason = Some ''dependency_wait'', st_created_at = t, st_epoch = 0, st_allocation = [],
      st_needs = get_or d ''needs'' (JList []), st_after = get_or d ''after'' (JList []),
      st_extra = filter (\<lambda>kv. fst kv \<notin> set stage_keys) d,
      st_ready_at = None, st_ready_seq = None, st_protection = None, st_launch_token = None,
      st_maintenance_token = None, st_cancel_requested = False, st_supervisor = JNull,
      st_started_at = None, st_granted_at = None, st_finished_at = None, st_outcome = None,
      st_evidence = JNull, st_incarnations = [], st_granted_allocation = [],
      st_bypass_count = get_or d ''bypass_count'' (JInt 0), st_blockers = [], st_wait_seconds = [],
      st_transition_at = None, st_runner = []\<rparr>"

definition add_stage :: "env \<Rightarrow> string \<Rightarrow> string \<Rightarrow> json \<Rightarrow> unit op" where
  "add_stage \<epsilon> rid project d =
     obind (olift (definition_name d)) (\<lambda>name.
     obind (new_uuid \<epsilon>) (\<lambda>sid.
     obind next_sequence (\<lambda>n.
     obind (now \<epsilon>) (\<lambda>t.
     obind (save \<epsilon> (new_stage sid name rid project n t (obj_fields d))) (\<lambda>_. oreturn ())))))"

definition check_definition :: "registry \<Rightarrow> string list \<Rightarrow> json \<Rightarrow> err + unit" where
  "check_definition reg names d =
     ebind (after_set d) (\<lambda>after.
     ebind (raise_if (\<not> list_all (\<lambda>a. a \<in> JStr ` set names) after)
              (ResourceError ''unknown stage dependency'')) (\<lambda>_.
     ebind (first_assignment reg (get_or (obj_fields d) ''needs'' (JList [])) empty_search) (\<lambda>found.
     raise_if (found = None) (ResourceError ''resource requirements have no complete assignment''))))"

text \<open>The validation of the plan before the transaction: its definitions and their names.\<close>

definition plan_stages :: "fields \<Rightarrow> err + json list \<times> string list" where
  "plan_stages plan =
     (case get plan ''stages'' of
        JList (d # ds) \<Rightarrow>
          ebind (emap definition_name (d # ds)) (\<lambda>names.
          ebind (raise_if (\<not> distinct names) (ResourceError ''duplicate stage name'')) (\<lambda>_.
          ebind (emap after_set (d # ds)) (\<lambda>afters.
          ebind (raise_if (\<not> drain (zip names afters) names)
                   (ResourceError ''cyclic stage dependencies'')) (\<lambda>_.
          Inr (d # ds, names)))))
      | _ \<Rightarrow> Inl (ResourceError ''plan requires stages''))"

definition find_external :: "string \<Rightarrow> string \<Rightarrow> request list \<Rightarrow> request option" where
  "find_external project external rs = List.find (\<lambda>r. rq_project r = project \<and> rq_external r = external) rs"

definition insert_request :: "request \<Rightarrow> unit op" where
  "insert_request r =
     obind (oget requests) (\<lambda>rs.
     if find_request (rq_id r) rs \<noteq> None \<or> find_external (rq_project r) (rq_external r) rs \<noteq> None
     then olift (Inl IntegrityError)
     else omodify (\<lambda>L. L\<lparr>requests := rs @ [r]\<rparr>))"

text \<open>The part of the transaction after the replay test: validate, then insert the request, its first
  subscriber and its stages.\<close>

definition create_request ::
    "env \<Rightarrow> string \<Rightarrow> string \<Rightarrow> fields \<Rightarrow> json option \<Rightarrow> json list \<Rightarrow> string list \<Rightarrow> string op" where
  "create_request \<epsilon> project external plan subscriber definitions names =
     obind (oget registry) (\<lambda>reg.
     obind (olift (emap (check_definition reg names) definitions)) (\<lambda>_.
     obind (new_uuid \<epsilon>) (\<lambda>rid.
     obind (now \<epsilon>) (\<lambda>t.
     obind (insert_request \<lparr>rq_id = rid, rq_project = project, rq_external = external, rq_plan = plan,
              rq_subscribers = (case subscriber of None \<Rightarrow> [] | Some s \<Rightarrow> [s]), rq_created_at = t\<rparr>) (\<lambda>_.
     obind (case subscriber of None \<Rightarrow> oreturn () | Some s \<Rightarrow> insert_history rid (sub_id s) 1 s) (\<lambda>_.
     obind (ofor (add_stage \<epsilon> rid project) definitions) (\<lambda>_.
     obind (log_event \<epsilon> rid (Submitted_Event project external)) (\<lambda>_.
     oreturn rid))))))))"

definition submit :: "env \<Rightarrow> json \<Rightarrow> json \<Rightarrow> fields \<Rightarrow> json option \<Rightarrow> string op" where
  "submit \<epsilon> project_json external_json plan subscriber =
     obind (olift (identifier_of project_json)) (\<lambda>project.
     obind (olift (identifier_of external_json)) (\<lambda>external.
     obind (olift (case subscriber of None \<Rightarrow> Inr () | Some s \<Rightarrow> validate_subscriber (isoformat \<epsilon>) s)) (\<lambda>_.
     obind (olift (plan_stages plan)) (\<lambda>(definitions, names).
     obind (oget (\<lambda>L. find_external project external (requests L))) (\<lambda>row.
     case row of
       Some r \<Rightarrow>
         if json_eq (JObj (rq_plan r)) (JObj plan) then oreturn (rq_id r)
         else olift (Inl (ResourceError ''request ID already has different immutable inputs''))
     | None \<Rightarrow> create_request \<epsilon> project external plan subscriber definitions names)))))"

section \<open>Launch, admission and runner evidence\<close>

definition attach :: "env \<Rightarrow> string \<Rightarrow> nat \<Rightarrow> json \<Rightarrow> unit op" where
  "attach \<epsilon> sid epoch identity =
     obind (get_stage sid) (\<lambda>s.
     obind (olift (raise_if (st_state s \<noteq> Granted \<or> st_epoch s \<noteq> epoch)
              (ResourceError ''revoked launch intent''))) (\<lambda>_.
     obind (save \<epsilon> (s\<lparr>st_state := Launching, st_supervisor := identity\<rparr>)) (\<lambda>_. oreturn ())))"

definition annotate :: "env \<Rightarrow> string \<Rightarrow> nat \<Rightarrow> fields \<Rightarrow> unit op" where
  "annotate \<epsilon> sid epoch evidence =
     obind (get_stage sid) (\<lambda>s.
     obind (olift (raise_if (st_epoch s \<noteq> epoch \<or> \<not> owning (st_state s))
              (ResourceError ''stale runner evidence''))) (\<lambda>_.
     obind (olift (raise_if (\<not> list_all (\<lambda>k. k \<in> set [''command_identity'', ''command_group'',
                                                     ''command_index'', ''results'']) (keys evidence))
              (ResourceError ''unsupported runner evidence field''))) (\<lambda>_.
     obind (save \<epsilon> (s\<lparr>st_runner := fold (\<lambda>(k, v). AList.update k v) evidence (st_runner s)\<rparr>)) (\<lambda>_.
     oreturn ()))))"

text \<open>\<open>secrets.compare_digest\<close> on strings raises \<open>TypeError\<close> unless both are ASCII.\<close>

definition compare_digest :: "string \<Rightarrow> string \<Rightarrow> err + bool" where
  "compare_digest a b =
     (if list_all (\<lambda>c. (of_char c :: nat) < 128) (a @ b) then Inr (a = b) else Inl TypeError)"

definition launch_token_of :: "stage \<Rightarrow> string" where
  "launch_token_of s = (case st_launch_token s of None \<Rightarrow> [] | Some t \<Rightarrow> t)"

definition admit :: "env \<Rightarrow> string \<Rightarrow> string \<Rightarrow> stage op" where
  "admit \<epsilon> sid token =
     obind (get_stage sid) (\<lambda>s.
     obind (olift (if st_state s \<noteq> Launching \<or> st_cancel_requested s then Inr False
                   else compare_digest (launch_token_of s) token)) (\<lambda>ok.
     obind (olift (raise_if (\<not> ok) (ResourceError ''revoked or consumed launch token''))) (\<lambda>_.
     obind (now \<epsilon>) (\<lambda>t.
     obind (save \<epsilon> (s\<lparr>st_state := Running, st_started_at := Some t\<rparr>)) (\<lambda>s'.
     obind (log_event \<epsilon> sid (Admitted_Event (st_epoch s'))) (\<lambda>_.
     oreturn s'))))))"

section \<open>Cancellation\<close>

definition cancel_stage :: "env \<Rightarrow> stage \<Rightarrow> stage op" where
  "cancel_stage \<epsilon> s =
     obind (if st_state s = Waiting
            then obind (now \<epsilon>) (\<lambda>t. oreturn (s\<lparr>st_state := Cancelled, st_finished_at := Some t, st_protection := None\<rparr>))
            else if owning (st_state s) then oreturn (s\<lparr>st_cancel_requested := True\<rparr>)
            else oreturn s) (save \<epsilon>)"

definition cancel :: "env \<Rightarrow> string \<Rightarrow> unit op" where
  "cancel \<epsilon> rid =
     obind (get_request rid) (\<lambda>_.
     obind (oget (stages_of rid)) (\<lambda>stages.
     obind (ofor (cancel_stage \<epsilon>) stages) (\<lambda>_.
     obind (log_event \<epsilon> rid Cancel_Requested_Event) (\<lambda>_.
     outcomes \<epsilon> [rid]))))"

section \<open>Completion and recovery\<close>

definition entry_group :: "entry \<Rightarrow> json" where
  "entry_group e = get (entry_fields e) ''recovery_group''"

definition registry_group :: "registry \<Rightarrow> string \<Rightarrow> err + json" where
  "registry_group reg leaf = (case map_of reg leaf of None \<Rightarrow> Inl (KeyError leaf) | Some e \<Rightarrow> Inr (entry_group e))"

text \<open>\<open>{registry[leaf].get("recovery_group") for leaf in released}\<close>\<close>

definition released_groups :: "registry \<Rightarrow> string list \<Rightarrow> err + json list" where
  "released_groups reg freed =
     emap (\<lambda>leaf. ebind (registry_group reg leaf) (\<lambda>g. if hashable g then Inr g else Inl TypeError)) freed"

text \<open>A leaf that stays behind while a member of its recovery group is released.\<close>

definition splits_group :: "registry \<Rightarrow> json list \<Rightarrow> string list \<Rightarrow> string \<Rightarrow> err + bool" where
  "splits_group reg groups freed leaf =
     ebind (registry_group reg leaf) (\<lambda>g.
     if \<not> hashable g then Inl TypeError
     else Inr (list_ex (json_eq g) groups \<and> truthy g \<and> leaf \<notin> set freed))"

definition finish_stage :: "env \<Rightarrow> string \<Rightarrow> nat \<Rightarrow> stage_state \<Rightarrow> string list \<Rightarrow> json \<Rightarrow> unit op" where
  "finish_stage \<epsilon> sid epoch outcome freed evidence =
     obind (get_stage sid) (\<lambda>s.
     obind (olift (raise_if (st_epoch s \<noteq> epoch \<or> \<not> owning (st_state s))
              (ResourceError ''stale completion or already released allocation''))) (\<lambda>_.
     obind (olift (raise_if (\<not> list_all (\<lambda>leaf. leaf \<in> set (keys (st_allocation s))) freed)
              (ResourceError ''release contains unowned resource''))) (\<lambda>_.
     obind (oget registry) (\<lambda>reg.
     obind (olift (released_groups reg freed)) (\<lambda>groups.
     obind (olift (eany (splits_group reg groups freed) (keys (st_allocation s)))) (\<lambda>coupled.
     obind (olift (raise_if coupled (ResourceError ''coupled recovery members must release together''))) (\<lambda>_.
     obind (now \<epsilon>) (\<lambda>t.
     let rest = filter (\<lambda>kv. fst kv \<notin> set freed) (st_allocation s)
     in obind (save \<epsilon> (s\<lparr>st_state := (if rest \<noteq> [] then Recovery_Required else outcome),
                         st_outcome := Some outcome, st_allocation := rest, st_evidence := evidence,
                         st_finished_at := Some t, st_launch_token := None, st_maintenance_token := None\<rparr>)) (\<lambda>_.
        obind (omodify (\<lambda>L. L\<lparr>released := sort (dedup (released L @ freed))\<rparr>)) (\<lambda>_.
        obind (log_event \<epsilon> sid (Finished_Event outcome freed evidence)) (\<lambda>_.
        outcomes \<epsilon> [st_request s])))))))))))"

definition finish :: "env \<Rightarrow> string \<Rightarrow> nat \<Rightarrow> stage_state \<Rightarrow> string list \<Rightarrow> json \<Rightarrow> unit op" where
  "finish \<epsilon> sid epoch outcome freed evidence =
     obind (olift (raise_if (\<not> terminal outcome) (ResourceError ''invalid terminal outcome''))) (\<lambda>_.
     finish_stage \<epsilon> sid epoch outcome freed evidence)"

text \<open>\<open>recover\<close> reads the stage outside the transaction of \<open>finish\<close>, which reads it again; here both
  see the same ledger.\<close>

definition recover :: "env \<Rightarrow> string \<Rightarrow> nat \<Rightarrow> string list \<Rightarrow> fields \<Rightarrow> unit op" where
  "recover \<epsilon> sid epoch freed evidence =
     obind (get_stage sid) (\<lambda>s.
     obind (olift (raise_if (st_state s \<noteq> Recovery_Required \<or> get evidence ''quiescent'' \<noteq> JBool True)
              (ResourceError ''recovery requires exact quarantined owner and quiescence evidence''))) (\<lambda>_.
     finish \<epsilon> sid epoch (case st_outcome s of None \<Rightarrow> Failed | Some o' \<Rightarrow> o') freed (JObj evidence)))"

definition not_started :: json where
  "not_started = JObj [(''not_started'', JStr ''admission revoked'')]"

definition abort_unadmitted :: "env \<Rightarrow> string \<Rightarrow> nat \<Rightarrow> string option \<Rightarrow> fields option \<Rightarrow> bool op" where
  "abort_unadmitted \<epsilon> sid epoch token identity =
     obind (get_stage sid) (\<lambda>s.
     if st_state s \<noteq> Launching \<or> st_epoch s \<noteq> epoch then oreturn False
     else
       let with_token = (case token of Some t \<Rightarrow> t \<noteq> [] | None \<Rightarrow> False) in
       obind (olift (case token of
           Some (c # cs) \<Rightarrow>
             if \<not> st_cancel_requested s then Inr False else compare_digest (launch_token_of s) (c # cs)
         | _ \<Rightarrow> Inr (identity_matches (st_supervisor s) identity))) (\<lambda>ok.
       if \<not> ok then oreturn False
       else obind (finish_stage \<epsilon> sid epoch (if with_token then Cancelled else Failed)
                     (keys (st_allocation s)) not_started) (\<lambda>_. oreturn True)))"

section \<open>Subscription\<close>

definition deactivate :: "string \<Rightarrow> string \<Rightarrow> history_row list \<Rightarrow> history_row list" where
  "deactivate rid sid rows =
     map (\<lambda>h. if hs_request h = rid \<and> hs_subscriber h = sid then h\<lparr>hs_active := False\<rparr> else h) rows"

definition pinned :: err where
  "pinned = ResourceError ''subscription identity already has a pinned destination''"

definition update_request :: "request \<Rightarrow> ledger \<Rightarrow> ledger" where
  "update_request rq L =
     L\<lparr>requests := map (\<lambda>r. if rq_id r = rq_id rq then rq else r) (requests L)\<rparr>"

definition subscribe :: "env \<Rightarrow> string \<Rightarrow> string \<Rightarrow> json \<Rightarrow> bool \<Rightarrow> unit op" where
  "subscribe \<epsilon> rid contract subscriber remove =
     obind (olift (validate_subscriber (isoformat \<epsilon>) subscriber)) (\<lambda>_.
     obind (get_request rid) (\<lambda>rq.
     obind (olift (raise_if (sha \<epsilon> (jcanon (JObj (rq_plan rq))) \<noteq> contract)
              (ResourceError ''subscriber verification contract differs''))) (\<lambda>_.
     let sid = sub_id subscriber;
         current = List.find (\<lambda>s. sub_id s = sid) (rq_subscribers rq) in
     obind (olift (raise_if (case current of None \<Rightarrow> False | Some c \<Rightarrow> \<not> same_subscriber c subscriber) pinned)) (\<lambda>_.
     obind (oget (\<lambda>L. latest (history_of rid sid (history L)))) (\<lambda>past0.
     obind (case (past0, current) of
              (None, Some c) \<Rightarrow> obind (insert_history rid sid 1 c) (\<lambda>_. oreturn (Some (1, c)))
            | (None, None) \<Rightarrow> oreturn None
            | (Some h, _) \<Rightarrow> oreturn (Some (hs_generation h, hs_body h))) (\<lambda>past.
     obind (olift (raise_if (case past of None \<Rightarrow> False | Some (_, b) \<Rightarrow> \<not> same_subscriber b subscriber) pinned)) (\<lambda>_.
     obind (if remove then
              obind (omodify (\<lambda>L. L\<lparr>history := deactivate rid sid (history L)\<rparr>)) (\<lambda>_.
              oreturn (rq\<lparr>rq_subscribers := filter (\<lambda>s. sub_id s \<noteq> sid) (rq_subscribers rq)\<rparr>))
            else if current = None then
              obind (omodify (\<lambda>L. L\<lparr>history := deactivate rid sid (history L)\<rparr>)) (\<lambda>_.
              obind (insert_history rid sid (case past of None \<Rightarrow> 1 | Some (g, _) \<Rightarrow> Suc g) subscriber) (\<lambda>_.
              oreturn (rq\<lparr>rq_subscribers := rq_subscribers rq @ [subscriber]\<rparr>)))
            else oreturn rq) (\<lambda>rq'.
     obind (omodify (update_request rq')) (\<lambda>_.
     obind (log_event \<epsilon> rid (Subscription_Event (\<not> remove))) (\<lambda>_.
     outcomes \<epsilon> [rid]))))))))))"

section \<open>Snapshot\<close>

record snapshot =
  sn_authority :: string
  sn_stages :: "stage list"
  sn_delivery :: "(string \<times> bool \<times> nat \<times> string option) list"
  sn_terminal :: bool
  sn_action_required :: bool

definition snapshot_of :: "string \<Rightarrow> string option \<Rightarrow> ledger \<Rightarrow> err + snapshot" where
  "snapshot_of project rid L =
     ebind (case rid of
              Some (c # cs) \<Rightarrow>
                (case find_request (c # cs) (requests L) of
                   None \<Rightarrow> Inl (ResourceError ''unknown resource request'')
                 | Some r \<Rightarrow> raise_if (rq_project r \<noteq> project) (ResourceError ''request belongs to another project''))
            | _ \<Rightarrow> Inr ()) (\<lambda>_.
     let rows = (case rid of Some (c # cs) \<Rightarrow> stages_query (Some (c # cs)) False (Some project) L
                 | _ \<Rightarrow> stages_query None True (Some project) L);
         stages = map public_stage (filter (\<lambda>s. st_project s = project) rows);
         delivery = map (\<lambda>o'. (ob_id o', ob_delivered o', ob_attempts o', ob_last_error o'))
           (filter (\<lambda>o'. list_ex (\<lambda>r. rq_id r = ob_request o' \<and> rq_project r = project
                             \<and> (case rid of None \<Rightarrow> True | Some i \<Rightarrow> rq_id r = i)) (requests L)) (outbox L))
     in Inr \<lparr>sn_authority = authority L, sn_stages = stages, sn_delivery = delivery,
             sn_terminal = (stages \<noteq> [] \<and> list_all (\<lambda>s. terminal (st_state s)) stages),
             sn_action_required = (list_ex (\<lambda>s. st_state s = Recovery_Required) stages
               \<or> list_ex (\<lambda>(_, delivered, _, err). (case err of None \<Rightarrow> False | Some e \<Rightarrow> e \<noteq> []) \<and> \<not> delivered) delivery)\<rparr>)"

end
