(* ===== verification/Resource_Schedule.thy ===== *)
theory Resource_Schedule
  imports Resource_Ops
begin

text \<open>
  \<open>Ledger.schedule\<close> (\<open>resource_queue.py\<close>): the scan of the active stages, which settles dependencies
  and hands out ready numbers, and the pass over the ready stages in that order, which grants,
  protects or parks each of them.

  In the source the lists \<open>stages\<close>, \<open>active\<close> and \<open>ready\<close> share the same dict objects. The model keeps
  the objects in one list (\<open>sc_mem\<close>) and the other two as lists of their ids.
\<close>

section \<open>Scan\<close>

fun prefix_of :: "string \<Rightarrow> string \<Rightarrow> bool" where
  "prefix_of [] ys = True"
| "prefix_of (x # xs) [] = False"
| "prefix_of (x # xs) (y # ys) = (x = y \<and> prefix_of xs ys)"

fun substring :: "string \<Rightarrow> string \<Rightarrow> bool" where
  "substring x [] = (x = [])"
| "substring x (y # ys) = (prefix_of x (y # ys) \<or> substring x ys)"

text \<open>\<open>name in stage.get("after", [])\<close>\<close>

fun depends_on :: "json \<Rightarrow> string \<Rightarrow> err + bool" where
  "depends_on (JList xs) name = Inr (JStr name \<in> set xs)"
| "depends_on (JStr s) name = Inr (substring name s)"
| "depends_on (JObj fs) name = Inr (name \<in> set (keys fs))"
| "depends_on _ name = Inl TypeError"

definition predecessors :: "stage \<Rightarrow> stage list \<Rightarrow> err + stage list" where
  "predecessors s siblings =
     ebind (emap (\<lambda>p. ebind (depends_on (st_after s) (st_name p)) (\<lambda>b. Inr (if b then [p] else []))) siblings)
       (\<lambda>ps. Inr (concat ps))"

definition failed_predecessor :: "stage \<Rightarrow> bool" where
  "failed_predecessor p \<longleftrightarrow>
     terminal (st_state p) \<and> st_state p \<noteq> Passed
     \<or> st_state p = Recovery_Required \<and> st_outcome p \<noteq> Some Passed"

definition unready :: "stage \<Rightarrow> stage" where
  "unready s = s\<lparr>st_protection := None, st_ready_seq := None\<rparr>"

definition mark_ready :: "env \<Rightarrow> stage \<Rightarrow> stage op" where
  "mark_ready \<epsilon> s =
     (if st_ready_seq s \<noteq> None then oreturn s
      else obind (now \<epsilon>) (\<lambda>t.
           obind next_sequence (\<lambda>n.
           obind (log_event \<epsilon> (st_id s) Ready_Event) (\<lambda>_.
           oreturn (s\<lparr>st_ready_at := Some t, st_ready_seq := Some n\<rparr>)))))"

text \<open>One round of the first loop: the stage as it is now in memory, and whether it is ready.\<close>

definition scan_stage :: "env \<Rightarrow> string list \<Rightarrow> stage \<Rightarrow> (stage \<times> bool) op" where
  "scan_stage \<epsilon> unavailable s =
     (if st_state s \<noteq> Waiting then oreturn (s, False)
      else obind (oget (stages_of (st_request s))) (\<lambda>siblings.
           obind (olift (predecessors s siblings)) (\<lambda>ps.
           if list_ex failed_predecessor ps then
             obind (now \<epsilon>) (\<lambda>t.
             obind (save \<epsilon> ((unready s)\<lparr>st_state := Skipped, st_finished_at := Some t,
                              st_reason := Some ''dependency_failed''\<rparr>)) (\<lambda>s'.
             oreturn (s', False)))
           else if list_ex (\<lambda>p. st_state p \<noteq> Passed) ps then
             obind (save \<epsilon> ((unready s)\<lparr>st_reason := Some ''dependency_wait''\<rparr>)) (\<lambda>s'. oreturn (s', False))
           else if st_project s \<in> set unavailable then
             obind (save \<epsilon> ((unready s)\<lparr>st_reason := Some ''host_wait''\<rparr>)) (\<lambda>s'. oreturn (s', False))
           else obind (mark_ready \<epsilon> s) (\<lambda>s'. oreturn (s', True)))))"

section \<open>Demand and blockers\<close>

text \<open>How often the other waiting stages could use each leaf.\<close>

definition count_leaf :: "string \<Rightarrow> (string \<times> int) list \<Rightarrow> (string \<times> int) list" where
  "count_leaf leaf counts = AList.update leaf (prio_get counts leaf + 1) counts"

definition stage_leaves :: "registry \<Rightarrow> stage \<Rightarrow> err + string list" where
  "stage_leaves reg other =
     ebind (demands reg (st_needs other)) (\<lambda>ds.
     ebind (emap (\<lambda>d. selector_leaves reg (fst d) []) ds) (\<lambda>lvs. Inr (concat lvs)))"

definition demand_count :: "registry \<Rightarrow> string \<Rightarrow> stage list \<Rightarrow> err + (string \<times> int) list" where
  "demand_count reg sid mem =
     ebind (emap (stage_leaves reg) (filter (\<lambda>s. st_id s \<noteq> sid \<and> st_state s = Waiting) mem)) (\<lambda>lvs.
     Inr (fold count_leaf (concat lvs) []))"

text \<open>
  The test behind \<open>blockers\<close>, as the source writes it: a demand is the tuple \<open>(name, mode, units,
  group)\<close>, so \<open>for leaves in options for leaf in leaves\<close> walks the characters of the selector's name.
\<close>

definition blocks :: "registry \<Rightarrow> demand list \<Rightarrow> allocation \<Rightarrow> err + bool" where
  "blocks reg ds held =
     eany (\<lambda>(leaf, md, units, grp).
         ebind (compatible reg [(leaf, \<lparr>claim_mode = md, claim_units = units, claim_group = grp\<rparr>)] [held])
           (\<lambda>ok. Inr (\<not> ok)))
       (concat (map (\<lambda>(name, md, units, grp). map (\<lambda>c. ([c], md, units, grp)) name) ds))"

definition blockers :: "registry \<Rightarrow> json \<Rightarrow> stage list \<Rightarrow> err + string list" where
  "blockers reg needs owners =
     ebind (emap (\<lambda>s. ebind (demands reg needs) (\<lambda>ds.
              ebind (blocks reg ds (st_allocation s)) (\<lambda>b. Inr (if b then [st_id s] else [])))) owners)
       (\<lambda>bs. Inr (concat bs))"

section \<open>Grant or protect\<close>

record sched =
  sc_mem :: "stage list"
  sc_active :: "string list"
  sc_protection :: "allocation list"
  sc_granted :: "stage list"

definition mem_put :: "stage \<Rightarrow> stage list \<Rightarrow> stage list" where
  "mem_put s mem = map (\<lambda>r. if st_id r = st_id s then s else r) mem"

definition mem_all :: "string list \<Rightarrow> stage list \<Rightarrow> stage list" where
  "mem_all ids mem = concat (map (\<lambda>i. case find_stage i mem of None \<Rightarrow> [] | Some s \<Rightarrow> [s]) ids)"

definition leaf_incarnation :: "registry \<Rightarrow> string \<Rightarrow> err + string \<times> string" where
  "leaf_incarnation reg leaf =
     (case map_of reg leaf of Some (Leaf l) \<Rightarrow> Inr (leaf, incarnation l) | _ \<Rightarrow> Inl (KeyError ''incarnation''))"

definition leaf_capacity :: "registry \<Rightarrow> string \<Rightarrow> err + string \<times> int" where
  "leaf_capacity reg leaf = ebind (capacity_at reg leaf) (\<lambda>c. Inr (leaf, c))"

fun py_incr :: "json \<Rightarrow> err + json" where
  "py_incr (JInt i) = Inr (JInt (i + 1))"
| "py_incr (JBool b) = Inr (JInt (if b then 2 else 1))"
| "py_incr (JReal r) = Inr (JReal (r + 1))"
| "py_incr _ = Inl TypeError"

definition ready_number :: "stage \<Rightarrow> nat" where
  "ready_number s = (case st_ready_seq s of None \<Rightarrow> 0 | Some n \<Rightarrow> n)"

text \<open>\<open>for bypassed in ready: ...\<close>\<close>

definition bypass :: "env \<Rightarrow> nat \<Rightarrow> string \<Rightarrow> stage list \<Rightarrow> stage list op" where
  "bypass \<epsilon> n i mem =
     (case find_stage i mem of
        None \<Rightarrow> oreturn mem
      | Some b \<Rightarrow>
          if st_state b = Waiting \<and> ready_number b < n then
            obind (olift (py_incr (st_bypass_count b))) (\<lambda>c.
            obind (save \<epsilon> (b\<lparr>st_bypass_count := c\<rparr>)) (\<lambda>b'. oreturn (mem_put b' mem)))
          else oreturn mem)"

definition grant :: "env \<Rightarrow> registry \<Rightarrow> allocation \<Rightarrow> stage \<Rightarrow> stage op" where
  "grant \<epsilon> reg chosen s =
     obind (new_secret \<epsilon>) (\<lambda>launch.
     obind (new_secret \<epsilon>) (\<lambda>maintenance.
     obind (now \<epsilon>) (\<lambda>t.
     obind (olift (emap (leaf_incarnation reg) (keys chosen))) (\<lambda>incs.
     obind (save \<epsilon> (s\<lparr>st_state := Granted, st_allocation := chosen, st_epoch := Suc (st_epoch s),
                      st_launch_token := Some launch, st_maintenance_token := Some maintenance,
                      st_granted_at := Some t, st_reason := None, st_incarnations := incs,
                      st_granted_allocation := chosen, st_protection := None\<rparr>)) (\<lambda>s'.
     obind (olift (emap (leaf_capacity reg) (keys chosen))) (\<lambda>caps.
     obind (log_event \<epsilon> (st_id s') (Granted_Event chosen (st_epoch s') caps)) (\<lambda>_.
     oreturn s')))))))"

definition same_allocation :: "allocation \<Rightarrow> allocation option \<Rightarrow> bool" where
  "same_allocation a prev =
     (case prev of None \<Rightarrow> False | Some b \<Rightarrow> list_all (\<lambda>k. map_of a k = map_of b k) (keys a @ keys b))"

text \<open>The protection a stage that cannot be granted keeps or acquires.\<close>

definition protect ::
    "registry \<Rightarrow> search \<Rightarrow> string list \<Rightarrow> bool \<Rightarrow> stage \<Rightarrow> err + allocation option" where
  "protect reg srch freed seen_ready s =
     ebind (case st_protection s of
              None \<Rightarrow> Inr None
            | Some p \<Rightarrow>
                if \<not> disjoint_list (keys p) (s_excluded srch) then Inr None
                else ebind (compatible reg p (s_others srch)) (\<lambda>ok. Inr (if ok then Some p else None))) (\<lambda>kept.
     if kept = None \<and> freed \<noteq> [] \<and> seen_ready
     then first_assignment reg (st_needs s) (srch\<lparr>s_required := freed\<rparr>)
     else Inr kept)"

text \<open>A ready stage that cannot be granted now: its protection, its reason and its blockers.\<close>

definition park ::
    "env \<Rightarrow> registry \<Rightarrow> search \<Rightarrow> string list \<Rightarrow> bool \<Rightarrow> stage list \<Rightarrow> stage \<Rightarrow> (stage \<times> allocation option) op" where
  "park \<epsilon> reg srch freed seen_ready owners s =
     obind (olift (protect reg srch freed seen_ready s)) (\<lambda>candidate.
     obind (case candidate of
              None \<Rightarrow> oreturn ()
            | Some p \<Rightarrow> if same_allocation p (st_protection s) then oreturn ()
                       else log_event \<epsilon> (st_id s) (Protected_Event p)) (\<lambda>_.
     obind (olift (first_assignment reg (st_needs s)
              \<lparr>s_others = [], s_excluded = s_excluded srch, s_priority = [], s_required = []\<rparr>)) (\<lambda>possible.
     obind (olift (blockers reg (st_needs s) owners)) (\<lambda>bs.
     obind (save \<epsilon> (s\<lparr>st_protection := candidate,
                      st_reason := Some (if possible = None then ''recovery_blocked'' else ''resource_wait''),
                      st_blockers := bs\<rparr>)) (\<lambda>s'.
     oreturn (s', candidate))))))"

definition schedule_stage ::
    "env \<Rightarrow> registry \<Rightarrow> string list \<Rightarrow> string list \<Rightarrow> string list \<Rightarrow> string list \<Rightarrow> string \<Rightarrow> sched \<Rightarrow> sched op" where
  "schedule_stage \<epsilon> reg quarantine freed previously_ready ready_ids i sc =
     (case find_stage i (sc_mem sc) of
        None \<Rightarrow> oreturn sc
      | Some s \<Rightarrow>
          obind (olift (demand_count reg i (sc_mem sc))) (\<lambda>counts.
          let owners = mem_all (sc_active sc) (sc_mem sc) in
          obind (olift (first_assignment reg (st_needs s)
                   \<lparr>s_others = map st_allocation owners @ sc_protection sc, s_excluded = quarantine,
                    s_priority = counts, s_required = []\<rparr>)) (\<lambda>chosen.
          case chosen of
            Some alloc \<Rightarrow>
              obind (grant \<epsilon> reg alloc s) (\<lambda>s'.
              obind (ofold (bypass \<epsilon> (ready_number s')) ready_ids (mem_put s' (sc_mem sc))) (\<lambda>mem'.
              oreturn (sc\<lparr>sc_mem := mem', sc_active := sc_active sc @ [i],
                         sc_granted := sc_granted sc @ [s']\<rparr>)))
          | None \<Rightarrow>
              obind (park \<epsilon> reg \<lparr>s_others = sc_protection sc, s_excluded = quarantine,
                              s_priority = counts, s_required = []\<rparr> freed (i \<in> set previously_ready) owners s)
                (\<lambda>(s', candidate).
              oreturn (sc\<lparr>sc_mem := mem_put s' (sc_mem sc),
                         sc_protection := sc_protection sc @ (case candidate of None \<Rightarrow> [] | Some p \<Rightarrow> [p])\<rparr>)))))"

definition ready_order :: "stage list \<Rightarrow> string list" where
  "ready_order ready = map st_id (sort_key (\<lambda>s. (ready_number s, st_id s)) ready)"

definition schedule :: "env \<Rightarrow> string list \<Rightarrow> stage list op" where
  "schedule \<epsilon> unavailable =
     obind (oget registry) (\<lambda>reg.
     obind (oget active_stages) (\<lambda>stages.
     obind (oget released) (\<lambda>freed.
     obind (omodify (\<lambda>L. L\<lparr>released := []\<rparr>)) (\<lambda>_.
     let active = filter (\<lambda>s. owning (st_state s)) stages;
         quarantine = concat (map (\<lambda>s. keys (st_allocation s)) (filter (\<lambda>s. st_state s = Recovery_Required) active));
         previously_ready = map st_id (filter (\<lambda>s. st_ready_seq s \<noteq> None) stages)
     in obind (ofor (scan_stage \<epsilon> unavailable) stages) (\<lambda>scanned.
        let ready = map fst (filter snd scanned) in
        obind (ofold (schedule_stage \<epsilon> reg quarantine freed previously_ready (map st_id ready))
                 (ready_order ready)
                 \<lparr>sc_mem = map fst scanned, sc_active = map st_id active, sc_protection = [], sc_granted = []\<rparr>) (\<lambda>sc.
        obind (outcomes \<epsilon> (set_iter \<epsilon> (map st_request stages))) (\<lambda>_.
        oreturn (sc_granted sc))))))))"

end
