(* ===== verification/Resource_Steps.thy ===== *)
theory Resource_Steps
  imports Resource_Schedule
begin

text \<open>
  The ledger as a transition system. A \<open>micro\<close> step changes one row of the stage table along one of
  the edges of the stage life cycle (\<open>edge\<close>), adds a new waiting row, replaces the registry of a
  drained or compatible ledger, or touches nothing but the log, the outbox and the subscribers
  (\<open>frame\<close>). The invariants of the ledger are proved of micro steps; theory Resource_Refinement
  shows that every transaction of the code is a sequence of them.
\<close>

section \<open>Claims held at one leaf\<close>

definition leaf_safe :: "registry \<Rightarrow> string \<Rightarrow> claim list \<Rightarrow> bool" where
  "leaf_safe reg x cs \<longleftrightarrow>
     cs = [] \<or>
     is_leaf reg x \<and> units_sum cs \<le> cap_of reg x \<and>
     (length cs \<le> 1 \<or> (\<exists>g. \<forall>c\<in>set cs. claim_mode c = Shared \<and> claim_group c = g))"

definition jointly :: "registry \<Rightarrow> allocation list \<Rightarrow> bool" where
  "jointly reg as \<longleftrightarrow> (\<forall>x. leaf_safe reg x (occupied_at as x))"

lemma occupied_at_Nil [simp]: "occupied_at [] x = []"
  by (simp add: occupied_at_def map_filter_simps)

lemma occupied_at_Cons [simp]:
  "occupied_at (a # as) x = (case map_of a x of None \<Rightarrow> occupied_at as x | Some c \<Rightarrow> c # occupied_at as x)"
  by (simp add: occupied_at_def map_filter_simps split: option.split)

lemma occupied_at_set: "c \<in> set (occupied_at as x) \<longleftrightarrow> (\<exists>a\<in>set as. map_of a x = Some c)"
  by (induction as) (auto split: option.splits)

lemma occupied_at_mset:
  "mset as = mset as' \<Longrightarrow> mset (occupied_at as x) = mset (occupied_at as' x)"
proof -
  have "mset (occupied_at as x) = image_mset (\<lambda>a. the (map_of a x)) (filter_mset (\<lambda>a. map_of a x \<noteq> None) (mset as))" for as
    by (induction as) (auto split: option.splits)
  then show "mset as = mset as' \<Longrightarrow> ?thesis" by simp
qed

lemma leaf_safe_mset: "mset cs = mset cs' \<Longrightarrow> leaf_safe reg x cs = leaf_safe reg x cs'"
proof -
  assume eq: "mset cs = mset cs'"
  from mset_eq_setD [OF eq] mset_eq_length [OF eq] have "set cs = set cs'" "length cs = length cs'" by auto
  moreover have "units_sum cs = units_sum cs'"
    using eq unfolding units_sum_def by (metis mset_map sum_mset_sum_list)
  moreover have "cs = [] \<longleftrightarrow> cs' = []" using eq by auto
  ultimately show ?thesis by (simp add: leaf_safe_def)
qed

lemma jointly_mset: "mset as = mset as' \<Longrightarrow> jointly reg as = jointly reg as'"
  unfolding jointly_def using leaf_safe_mset occupied_at_mset by blast

lemma fits_mset: "mset as = mset as' \<Longrightarrow> fits reg as x c = fits reg as' x c"
proof -
  assume "mset as = mset as'"
  then have eq: "mset (occupied_at as x) = mset (occupied_at as' x)" by (rule occupied_at_mset)
  from mset_eq_setD [OF eq] have "set (occupied_at as x) = set (occupied_at as' x)" .
  moreover have "units_sum (occupied_at as x) = units_sum (occupied_at as' x)"
    using eq unfolding units_sum_def by (metis mset_map sum_mset_sum_list)
  moreover have "occupied_at as x = [] \<longleftrightarrow> occupied_at as' x = []" using eq by (metis mset_zero_iff_right)
  ultimately show ?thesis by (simp add: fits_def clashes_def list_ex_iff)
qed

lemma all_fit_mset: "mset as = mset as' \<Longrightarrow> all_fit reg as a = all_fit reg as' a"
  unfolding all_fit_def using fits_mset by blast

lemma occupied_nonempty: "occupied_at (filter (\<lambda>a. a \<noteq> []) as) x = occupied_at as x"
  by (induction as) (auto split: option.splits)

lemma all_fit_nonempty: "all_fit reg (filter (\<lambda>a. a \<noteq> []) as) a = all_fit reg as a"
  by (simp add: all_fit_def fits_def occupied_nonempty)

lemma jointly_add:
  assumes "jointly reg as" "allocation_ok reg a" "all_fit reg as a"
  shows "jointly reg (a # as)"
  unfolding jointly_def
proof
  fix x
  show "leaf_safe reg x (occupied_at (a # as) x)"
  proof (cases "map_of a x")
    case None with assms(1) show ?thesis by (simp add: jointly_def)
  next
    case (Some c)
    then have mem: "(x, c) \<in> set a" by (rule map_of_SomeD)
    with assms(2) have leaf: "is_leaf reg x" by (auto simp: allocation_ok_def dest: leaf_keysD)
    from mem assms(3) have fit: "fits reg as x c" by (auto simp: all_fit_def)
    show ?thesis
    proof (cases "occupied_at as x = []")
      case True with Some leaf fit show ?thesis by (auto simp: leaf_safe_def fits_def units_sum_def)
    next
      case False
      with fit have "\<not> clashes c (occupied_at as x)" "claim_units c + units_sum (occupied_at as x) \<le> cap_of reg x"
        by (auto simp: fits_def)
      moreover from this(1) have "\<forall>d\<in>set (c # occupied_at as x). claim_mode d = Shared \<and> claim_group d = claim_group c"
        by (cases "claim_mode c") (auto simp: clashes_def list_ex_iff)
      ultimately show ?thesis using Some leaf unfolding leaf_safe_def by (auto simp: units_sum_def)
    qed
  qed
qed

text \<open>Giving up part of an allocation keeps the others safe.\<close>

definition part_of :: "allocation \<Rightarrow> allocation \<Rightarrow> bool" where
  "part_of b a \<longleftrightarrow> (\<exists>P. b = filter (\<lambda>kv. P (fst kv)) a)"

lemma part_of_refl [simp]: "part_of a a"
  unfolding part_of_def by (rule exI [of _ "\<lambda>_. True"]) simp

lemma part_of_Nil [simp]: "part_of [] a"
  unfolding part_of_def by (rule exI [of _ "\<lambda>_. False"]) simp

lemma part_of_filter: "part_of (filter (\<lambda>kv. fst kv \<notin> F) a) a"
  unfolding part_of_def by (rule exI [of _ "\<lambda>k. k \<notin> F"]) simp

lemma map_of_filter_fst: "map_of (filter (\<lambda>kv. P (fst kv)) a) x = (if P x then map_of a x else None)"
  by (induction a) auto

lemma part_of_map_of: "part_of b a \<Longrightarrow> map_of b x = Some c \<Longrightarrow> map_of a x = Some c"
  by (auto simp: part_of_def map_of_filter_fst split: if_splits)

lemma part_of_ok: "part_of b a \<Longrightarrow> allocation_ok reg a \<Longrightarrow> allocation_ok reg b"
  by (auto simp: part_of_def allocation_ok_def keys_def leaf_keys_def pos_units_def within_capacity_def
      distinct_map_filter)

lemma jointly_part:
  assumes "jointly reg (a # as)" "part_of b a" "allocation_ok reg a"
  shows "jointly reg (b # as)"
  unfolding jointly_def
proof
  fix x
  from assms(1) have safe: "leaf_safe reg x (occupied_at (a # as) x)" by (simp add: jointly_def)
  show "leaf_safe reg x (occupied_at (b # as) x)"
  proof (cases "map_of b x")
    case (Some c)
    with part_of_map_of [OF assms(2)] safe show ?thesis by simp
  next
    case b: None
    show ?thesis
    proof (cases "map_of a x")
      case None with b safe show ?thesis by simp
    next
      case (Some c)
      from Some assms(3) have "1 \<le> claim_units c" by (auto simp: allocation_ok_def intro: pos_units_map_of)
      with Some b safe show ?thesis by (auto simp: leaf_safe_def units_sum_def)
    qed
  qed
qed

section \<open>The stage table\<close>

lemma find_stage_simps [simp]:
  "find_stage i [] = None"
  "find_stage i (r # rs) = (if st_id r = i then Some r else find_stage i rs)"
  by (simp_all add: find_stage_def)

lemma find_stageD: "find_stage i rows = Some s \<Longrightarrow> s \<in> set rows \<and> st_id s = i"
  by (induction rows) (auto split: if_splits)

lemma find_stage_None: "find_stage i rows = None \<longleftrightarrow> i \<notin> st_id ` set rows"
  by (induction rows) auto

lemma find_stage_distinct:
  "distinct (map st_id rows) \<Longrightarrow> s \<in> set rows \<Longrightarrow> find_stage (st_id s) rows = Some s"
  by (induction rows) auto

lemma find_upsert [simp]:
  "find_stage i (upsert_stage s rows) = (if i = st_id s then Some s else find_stage i rows)"
  by (induction rows) auto

lemma upsert_ids: "map st_id (upsert_stage s rows) =
    (if st_id s \<in> st_id ` set rows then map st_id rows else map st_id rows @ [st_id s])"
  by (induction rows) auto

lemma upsert_distinct: "distinct (map st_id rows) \<Longrightarrow> distinct (map st_id (upsert_stage s rows))"
  by (simp add: upsert_ids)

lemma upsert_new: "find_stage (st_id s) rows = None \<Longrightarrow> upsert_stage s rows = rows @ [s]"
  by (induction rows) (auto split: if_splits)

lemma upsert_set:
  "distinct (map st_id rows) \<Longrightarrow> set (upsert_stage s rows) = insert s {r \<in> set rows. st_id r \<noteq> st_id s}"
  by (induction rows) (auto simp: image_iff)

lemma upsert_same_keys: "find_stage (st_id s) rows = Some r \<Longrightarrow> f s = f r \<Longrightarrow> map f (upsert_stage s rows) = map f rows"
  by (induction rows) (auto split: if_splits)

text \<open>The allocations of all rows but one.\<close>

definition others_of :: "string \<Rightarrow> stage list \<Rightarrow> allocation list" where
  "others_of i rows = map st_allocation (filter (\<lambda>r. st_id r \<noteq> i) rows)"

lemma others_of_notin: "i \<notin> st_id ` set rows \<Longrightarrow> others_of i rows = map st_allocation rows"
  by (induction rows) (auto simp: others_of_def)

lemma others_of_upsert: "others_of (st_id s) (upsert_stage s rows) = others_of (st_id s) rows"
  by (induction rows) (auto simp: others_of_def)

lemma others_of_mset:
  "distinct (map st_id rows) \<Longrightarrow> find_stage i rows = Some s \<Longrightarrow>
   mset (map st_allocation rows) = mset (st_allocation s # others_of i rows)"
proof (induction rows)
  case (Cons r rs)
  show ?case
  proof (cases "st_id r = i")
    case True
    with Cons.prems have "i \<notin> st_id ` set rs" "r = s" by auto
    with True show ?thesis by (simp add: others_of_def flip: others_of_notin [unfolded others_of_def])
  next
    case False
    with Cons show ?thesis by (simp add: others_of_def)
  qed
qed simp

lemma jointly_row:
  "distinct (map st_id rows) \<Longrightarrow> find_stage i rows = Some s \<Longrightarrow>
   jointly reg (map st_allocation rows) = jointly reg (st_allocation s # others_of i rows)"
  by (rule jointly_mset [OF others_of_mset])

lemma jointly_upsert:
  "distinct (map st_id rows) \<Longrightarrow>
   jointly reg (map st_allocation (upsert_stage s rows)) = jointly reg (st_allocation s # others_of (st_id s) rows)"
  using jointly_row [of "upsert_stage s rows" "st_id s" s reg] by (simp add: upsert_distinct others_of_upsert)

lemma jointly_Cons: "jointly reg (a # as) \<Longrightarrow> allocation_ok reg a \<Longrightarrow> jointly reg as"
  using jointly_part [of reg a as "[]"] by (simp add: jointly_def)

section \<open>The life cycle of a stage\<close>

definition same_core :: "stage \<Rightarrow> stage \<Rightarrow> bool" where
  "same_core s s' \<longleftrightarrow>
     st_id s' = st_id s \<and> st_name s' = st_name s \<and> st_request s' = st_request s \<and>
     st_project s' = st_project s \<and> st_seq s' = st_seq s \<and> st_created_at s' = st_created_at s \<and>
     st_needs s' = st_needs s \<and> st_after s' = st_after s \<and> st_extra s' = st_extra s"

definition same_tokens :: "stage \<Rightarrow> stage \<Rightarrow> bool" where
  "same_tokens s s' \<longleftrightarrow>
     st_launch_token s' = st_launch_token s \<and> st_maintenance_token s' = st_maintenance_token s"

definition same_control :: "stage \<Rightarrow> stage \<Rightarrow> bool" where
  "same_control s s' \<longleftrightarrow>
     st_state s' = st_state s \<and> st_allocation s' = st_allocation s \<and> st_epoch s' = st_epoch s \<and>
     st_outcome s' = st_outcome s \<and> same_tokens s s'"

definition predecessor_of :: "stage list \<Rightarrow> stage \<Rightarrow> stage \<Rightarrow> bool" where
  "predecessor_of rows s p \<longleftrightarrow>
     p \<in> set rows \<and> st_request p = st_request s \<and> depends_on (st_after s) (st_name p) = Inr True"

definition is_choice :: "registry \<Rightarrow> string \<Rightarrow> string list \<Rightarrow> bool" where
  "is_choice reg name lvs \<longleftrightarrow> (\<exists>priority cs. alternatives_ref reg name [] priority = Inr cs \<and> lvs \<in> set cs)"

text \<open>An allocation serves the needs: each of them on one of the leaf sets its selector stands for.\<close>

definition serves :: "registry \<Rightarrow> json \<Rightarrow> allocation \<Rightarrow> bool" where
  "serves reg needs a \<longleftrightarrow>
     (\<exists>ds. demands reg needs = Inr ds \<and> (\<forall>d\<in>set ds. \<exists>lvs. is_choice reg (fst d) lvs \<and> satisfies a d lvs))"

definition quarantined :: "stage list \<Rightarrow> string \<Rightarrow> bool" where
  "quarantined rows x \<longleftrightarrow> (\<exists>q\<in>set rows. st_state q = Recovery_Required \<and> x \<in> set (keys (st_allocation q)))"

inductive edge :: "registry \<Rightarrow> stage list \<Rightarrow> stage \<Rightarrow> stage \<Rightarrow> bool" for reg rows where
  touch: "same_core s s' \<Longrightarrow> same_control s s' \<Longrightarrow> (st_cancel_requested s \<Longrightarrow> st_cancel_requested s') \<Longrightarrow>
     edge reg rows s s'"
| skip: "same_core s s' \<Longrightarrow> st_state s = Waiting \<Longrightarrow> st_state s' = Skipped \<Longrightarrow> st_allocation s' = st_allocation s \<Longrightarrow>
     st_epoch s' = st_epoch s \<Longrightarrow> same_tokens s s' \<Longrightarrow>
     predecessor_of rows s p \<Longrightarrow> failed_predecessor p \<Longrightarrow> edge reg rows s s'"
| grant: "same_core s s' \<Longrightarrow> st_state s = Waiting \<Longrightarrow> st_state s' = Granted \<Longrightarrow> st_epoch s' = Suc (st_epoch s) \<Longrightarrow>
     st_launch_token s' \<noteq> None \<Longrightarrow> st_maintenance_token s' \<noteq> None \<Longrightarrow>
     allocation_ok reg (st_allocation s') \<Longrightarrow> all_fit reg (others_of (st_id s) rows) (st_allocation s') \<Longrightarrow>
     serves reg (st_needs s) (st_allocation s') \<Longrightarrow>
     (\<And>x. x \<in> set (keys (st_allocation s')) \<Longrightarrow> \<not> quarantined rows x) \<Longrightarrow>
     (\<And>p. predecessor_of rows s p \<Longrightarrow> st_state p = Passed) \<Longrightarrow> edge reg rows s s'"
| attach: "same_core s s' \<Longrightarrow> st_state s = Granted \<Longrightarrow> st_state s' = Launching \<Longrightarrow>
     st_allocation s' = st_allocation s \<Longrightarrow> st_epoch s' = st_epoch s \<Longrightarrow> same_tokens s s' \<Longrightarrow> edge reg rows s s'"
| admit: "same_core s s' \<Longrightarrow> st_state s = Launching \<Longrightarrow> \<not> st_cancel_requested s \<Longrightarrow> st_state s' = Running \<Longrightarrow>
     st_allocation s' = st_allocation s \<Longrightarrow> st_epoch s' = st_epoch s \<Longrightarrow> same_tokens s s' \<Longrightarrow> edge reg rows s s'"
| cancel: "same_core s s' \<Longrightarrow> st_state s = Waiting \<Longrightarrow> st_state s' = Cancelled \<Longrightarrow> st_allocation s' = st_allocation s \<Longrightarrow>
     st_epoch s' = st_epoch s \<Longrightarrow> same_tokens s s' \<Longrightarrow> edge reg rows s s'"
| finish: "same_core s s' \<Longrightarrow> owning (st_state s) \<Longrightarrow> part_of (st_allocation s') (st_allocation s) \<Longrightarrow>
     terminal oc \<Longrightarrow> st_outcome s' = Some oc \<Longrightarrow>
     st_state s' = (if st_allocation s' = [] then oc else Recovery_Required) \<Longrightarrow>
     st_epoch s' = st_epoch s \<Longrightarrow> st_launch_token s' = None \<Longrightarrow> st_maintenance_token s' = None \<Longrightarrow> edge reg rows s s'"

inductive_cases edgeE: "edge reg rows s s'"

lemma edge_core: "edge reg rows s s' \<Longrightarrow> same_core s s'"
  by (auto elim: edgeE)

lemma edge_epoch: "edge reg rows s s' \<Longrightarrow> st_epoch s' = (if st_state s = Waiting \<and> st_state s' = Granted then Suc (st_epoch s) else st_epoch s)"
  by (auto elim!: edgeE simp: same_control_def)

lemma terminal_not_owning: "terminal st \<Longrightarrow> \<not> owning st"
  by (cases st) auto

lemma edge_terminal: "edge reg rows s s' \<Longrightarrow> terminal (st_state s) \<Longrightarrow> st_state s' = st_state s \<and> st_allocation s' = st_allocation s"
  by (auto elim!: edgeE simp: same_control_def dest: terminal_not_owning)

section \<open>Steps\<close>

definition request_key :: "request \<Rightarrow> string \<times> string \<times> string \<times> fields" where
  "request_key r = (rq_id r, rq_project r, rq_external r, rq_plan r)"

definition request_log :: "ledger \<Rightarrow> (string \<times> string \<times> string \<times> fields) list" where
  "request_log L = map request_key (requests L)"

definition frame :: "ledger \<Rightarrow> ledger \<Rightarrow> bool" where
  "frame L L' \<longleftrightarrow>
     registry L' = registry L \<and> stage_rows L' = stage_rows L \<and> request_log L' = request_log L \<and>
     uuid_draws L \<le> uuid_draws L' \<and> sequence L \<le> sequence L'"

definition drawn :: "env \<Rightarrow> nat \<Rightarrow> nat \<Rightarrow> string \<Rightarrow> bool" where
  "drawn \<epsilon> m n i \<longleftrightarrow> (\<exists>k. m \<le> k \<and> k < n \<and> i = uuid4 \<epsilon> k)"

definition same_capacities :: "registry \<Rightarrow> registry \<Rightarrow> stage list \<Rightarrow> bool" where
  "same_capacities reg old rows \<longleftrightarrow>
     (\<forall>s\<in>set rows. \<forall>x\<in>set (keys (st_allocation s)). is_leaf old x \<longrightarrow> is_leaf reg x \<and> cap_of reg x = cap_of old x)"

text \<open>A stored protection is one the row had, or one the search built.\<close>

definition prot_ok :: "stage \<Rightarrow> stage \<Rightarrow> bool" where
  "prot_ok s s' \<longleftrightarrow> (\<forall>p. st_protection s' = Some p \<longrightarrow> st_protection s = Some p \<or> pos_units p)"

lemma prot_ok_simps [simp]:
  "st_protection s' = st_protection s \<Longrightarrow> prot_ok s s'"
  "st_protection s' = None \<Longrightarrow> prot_ok s s'"
  by (simp_all add: prot_ok_def)

inductive micro :: "env \<Rightarrow> ledger \<Rightarrow> ledger \<Rightarrow> bool" for \<epsilon> where
  silent: "frame L L' \<Longrightarrow> micro \<epsilon> L L'"
| row: "find_stage (st_id s') (stage_rows L) = Some s \<Longrightarrow> edge (registry L) (stage_rows L) s s' \<Longrightarrow>
     prot_ok s s' \<Longrightarrow> stage_rows L' = upsert_stage s' (stage_rows L) \<Longrightarrow> registry L' = registry L \<Longrightarrow>
     request_log L' = request_log L \<Longrightarrow> uuid_draws L' = uuid_draws L \<Longrightarrow> sequence L' = sequence L \<Longrightarrow>
     micro \<epsilon> L L'"
| create: "stage_rows L' = stage_rows L @ [s] \<Longrightarrow> registry L' = registry L \<Longrightarrow> request_log L' = request_log L \<Longrightarrow>
     drawn \<epsilon> (uuid_draws L) (uuid_draws L') (st_id s) \<Longrightarrow> sequence L \<le> sequence L' \<Longrightarrow>
     st_request s \<in> rq_id ` set (requests L) \<Longrightarrow>
     (\<And>r. r \<in> set (stage_rows L) \<Longrightarrow> st_request r = st_request s \<Longrightarrow> st_epoch r = 0) \<Longrightarrow>
     st_state s = Waiting \<Longrightarrow> st_epoch s = 0 \<Longrightarrow> st_allocation s = [] \<Longrightarrow>
     st_launch_token s = None \<Longrightarrow> st_maintenance_token s = None \<Longrightarrow> st_protection s = None \<Longrightarrow> micro \<epsilon> L L'"
| request: "stage_rows L' = stage_rows L \<Longrightarrow> registry L' = registry L \<Longrightarrow>
     request_log L' = request_log L @ [(i, p, e, pl)] \<Longrightarrow> drawn \<epsilon> (uuid_draws L) (uuid_draws L') i \<Longrightarrow>
     sequence L \<le> sequence L' \<Longrightarrow> (p, e) \<notin> (\<lambda>(_, p, e, _). (p, e)) ` set (request_log L) \<Longrightarrow> micro \<epsilon> L L'"
| registry_change: "stage_rows L' = stage_rows L \<Longrightarrow> request_log L' = request_log L \<Longrightarrow>
     uuid_draws L \<le> uuid_draws L' \<Longrightarrow> sequence L \<le> sequence L' \<Longrightarrow> wf_registry (registry L') \<Longrightarrow>
     same_capacities (registry L') (registry L) (stage_rows L) \<Longrightarrow> micro \<epsilon> L L'"

inductive_cases microE: "micro \<epsilon> L L'"

section \<open>The invariant\<close>

definition row_ok :: "registry \<Rightarrow> stage \<Rightarrow> bool" where
  "row_ok reg s \<longleftrightarrow>
     allocation_ok reg (st_allocation s) \<and> (\<not> owning (st_state s) \<longrightarrow> st_allocation s = []) \<and>
     (\<forall>p. st_protection s = Some p \<longrightarrow> pos_units p)"

definition deps_passed :: "stage list \<Rightarrow> bool" where
  "deps_passed rows \<longleftrightarrow> (\<forall>s\<in>set rows. \<forall>p. 0 < st_epoch s \<longrightarrow> predecessor_of rows s p \<longrightarrow> st_state p = Passed)"

definition ledger_ok :: "env \<Rightarrow> ledger \<Rightarrow> bool" where
  "ledger_ok \<epsilon> L \<longleftrightarrow>
     wf_registry (registry L) \<and>
     distinct (map st_id (stage_rows L)) \<and>
     distinct (map rq_id (requests L)) \<and>
     (\<forall>s\<in>set (stage_rows L). row_ok (registry L) s \<and> drawn \<epsilon> 0 (uuid_draws L) (st_id s)
        \<and> st_request s \<in> rq_id ` set (requests L)) \<and>
     (\<forall>r\<in>set (requests L). drawn \<epsilon> 0 (uuid_draws L) (rq_id r)) \<and>
     jointly (registry L) (map st_allocation (stage_rows L)) \<and>
     deps_passed (stage_rows L)"

lemma edge_row_ok:
  assumes "edge reg rows s s'" "row_ok reg s" "prot_ok s s'"
  shows "row_ok reg s'"
  using assms(1)
proof (cases rule: edge.cases)
  case (finish oc)
  with assms(2,3) part_of_ok [OF finish(3)] show ?thesis
    by (cases oc) (auto simp: row_ok_def prot_ok_def)
qed (use assms(2,3) in \<open>auto simp: row_ok_def prot_ok_def same_control_def\<close>)

lemma edge_jointly:
  assumes "edge reg rows s s'" "row_ok reg s" "jointly reg (st_allocation s # others_of (st_id s) rows)"
  shows "jointly reg (st_allocation s' # others_of (st_id s) rows)"
  using assms(1)
proof (cases rule: edge.cases)
  case grant
  from assms(2,3) have "jointly reg (others_of (st_id s) rows)"
    by (auto simp: row_ok_def intro: jointly_Cons)
  with grant show ?thesis by (intro jointly_add) auto
next
  case (finish oc)
  with assms(2,3) show ?thesis by (auto simp: row_ok_def intro: jointly_part)
qed (use assms(3) in \<open>auto simp: same_control_def\<close>)

lemma drawn_mono: "drawn \<epsilon> m n i \<Longrightarrow> m' \<le> m \<Longrightarrow> n \<le> n' \<Longrightarrow> drawn \<epsilon> m' n' i"
proof -
  assume "drawn \<epsilon> m n i" "m' \<le> m" "n \<le> n'"
  then obtain k where "m \<le> k" "k < n" "i = uuid4 \<epsilon> k" by (auto simp: drawn_def)
  with \<open>m' \<le> m\<close> \<open>n \<le> n'\<close> show ?thesis unfolding drawn_def by (intro exI [of _ k]) auto
qed

lemma drawn_fresh: "inj (uuid4 \<epsilon>) \<Longrightarrow> drawn \<epsilon> k m i \<Longrightarrow> drawn \<epsilon> m n j \<Longrightarrow> i \<noteq> j"
  unfolding drawn_def by (metis injD leD)

text \<open>What the dependency invariant needs of one changed row.\<close>

lemma predecessor_upsert:
  assumes dist: "distinct (map st_id rows)" and find: "find_stage (st_id s') rows = Some s"
    and core: "same_core s s'" and pred: "predecessor_of (upsert_stage s' rows) t p"
    and t: "t = s' \<and> u = s \<or> t \<in> set rows \<and> u = t"
  shows "\<exists>q. predecessor_of rows u q \<and> (p = q \<or> p = s' \<and> q = s)"
proof -
  have same: "st_request u = st_request t" "st_after u = st_after t"
    using t core by (auto simp: same_core_def)
  from pred have p: "p = s' \<or> p \<in> set rows"
    using upsert_set [OF dist] by (auto simp: predecessor_of_def)
  from find find_stageD have s: "s \<in> set rows" by blast
  show ?thesis
    using p
  proof
    assume "p = s'"
    with pred same s core show ?thesis by (intro exI [of _ s]) (auto simp: predecessor_of_def same_core_def)
  next
    assume "p \<in> set rows"
    with pred same show ?thesis by (intro exI [of _ p]) (auto simp: predecessor_of_def)
  qed
qed

lemma edge_passed: "edge reg rows s s' \<Longrightarrow> st_state s = Passed \<Longrightarrow> st_state s' = Passed"
  using edge_terminal [of reg rows s s'] by simp

lemma edge_deps:
  assumes dist: "distinct (map st_id rows)" and find: "find_stage (st_id s') rows = Some s"
    and edge: "edge reg rows s s'" and deps: "deps_passed rows"
  shows "deps_passed (upsert_stage s' rows)"
  unfolding deps_passed_def
proof (intro ballI allI impI)
  fix t p
  assume t: "t \<in> set (upsert_stage s' rows)" and pos: "0 < st_epoch t"
    and pred: "predecessor_of (upsert_stage s' rows) t p"
  note core = edge_core [OF edge]
  have s: "s \<in> set rows" using find find_stageD by blast
  have *: "st_state p = Passed" if "predecessor_of rows u q" "p = q \<or> p = s' \<and> q = s" "st_state q = Passed" for u q
    using that edge_passed [OF edge] by auto
  show "st_state p = Passed"
  proof (cases "t = s'")
    case True
    from predecessor_upsert [OF dist find core pred, of s] True
    obtain q where q: "predecessor_of rows s q" "p = q \<or> p = s' \<and> q = s" by auto
    have "st_state q = Passed"
    proof (cases "0 < st_epoch s")
      case True with deps s q show ?thesis by (auto simp: deps_passed_def)
    next
      case False
      with pos True edge_epoch [OF edge] have "st_state s = Waiting" "st_state s' = Granted"
        by (auto split: if_splits)
      with edge q(1) show ?thesis by (auto elim!: edgeE simp: same_control_def)
    qed
    with * q show ?thesis by blast
  next
    case False
    with t upsert_set [OF dist] have "t \<in> set rows" by auto
    with predecessor_upsert [OF dist find core pred, of t]
    obtain q where "predecessor_of rows t q" "p = q \<or> p = s' \<and> q = s" by auto
    with deps pos \<open>t \<in> set rows\<close> * show ?thesis by (auto simp: deps_passed_def)
  qed
qed

lemma deps_passed_create:
  assumes deps: "deps_passed rows" and new: "st_epoch s = 0"
    and zero: "\<And>r. r \<in> set rows \<Longrightarrow> st_request r = st_request s \<Longrightarrow> st_epoch r = 0"
  shows "deps_passed (rows @ [s])"
  unfolding deps_passed_def
proof (intro ballI allI impI)
  fix t p
  assume "t \<in> set (rows @ [s])" and pos: "0 < st_epoch t" and pred: "predecessor_of (rows @ [s]) t p"
  with new have t: "t \<in> set rows" by auto
  with pos zero have "st_request t \<noteq> st_request s" by force
  with pred have "predecessor_of rows t p" by (auto simp: predecessor_of_def)
  with deps t pos show "st_state p = Passed" by (auto simp: deps_passed_def)
qed


lemma rq_ids: "map rq_id (requests L) = map fst (request_log L)"
  by (simp add: request_log_def request_key_def)

lemma row_ok_capacities:
  assumes "row_ok old s" "s \<in> set rows" "same_capacities reg old rows"
  shows "row_ok reg s"
proof -
  have *: "is_leaf reg x \<and> cap_of reg x = cap_of old x" if "x \<in> set (keys (st_allocation s))" for x
    using assms that by (auto simp: same_capacities_def row_ok_def allocation_ok_def leaf_keys_def)
  have "(x, c) \<in> set (st_allocation s) \<Longrightarrow> claim_units c \<le> cap_of reg x" for x c
    using assms(1) * [of x] by (force simp: row_ok_def allocation_ok_def within_capacity_def keys_def)
  with * assms(1) show ?thesis
    by (auto simp: row_ok_def allocation_ok_def leaf_keys_def within_capacity_def)
qed

lemma jointly_capacities:
  assumes "jointly old (map st_allocation rows)" "same_capacities reg old rows"
  shows "jointly reg (map st_allocation rows)"
  unfolding jointly_def
proof
  fix x
  let ?cs = "occupied_at (map st_allocation rows) x"
  from assms(1) have safe: "leaf_safe old x ?cs" by (simp add: jointly_def)
  show "leaf_safe reg x ?cs"
  proof (cases "?cs = []")
    case False
    then obtain c where "c \<in> set ?cs" by (cases ?cs) auto
    then obtain s where "s \<in> set rows" "map_of (st_allocation s) x = Some c" by (auto simp: occupied_at_set)
    then have "x \<in> set (keys (st_allocation s))" by (auto intro: map_of_in_keys)
    with \<open>s \<in> set rows\<close> safe False assms(2) show ?thesis
      by (auto simp: leaf_safe_def same_capacities_def)
  qed (simp add: leaf_safe_def)
qed

lemma micro_row_ok:
  assumes ok: "ledger_ok \<epsilon> L" and find: "find_stage (st_id s') (stage_rows L) = Some s"
    and edge: "edge (registry L) (stage_rows L) s s'" and prot: "prot_ok s s'"
    and rows: "stage_rows L' = upsert_stage s' (stage_rows L)" and reg: "registry L' = registry L" and log: "request_log L' = request_log L" and u: "uuid_draws L' = uuid_draws L"
  shows "ledger_ok \<epsilon> L'"
proof -
  from ok have dist: "distinct (map st_id (stage_rows L))" by (simp add: ledger_ok_def)
  from find find_stageD have s: "s \<in> set (stage_rows L)" and id: "st_id s' = st_id s" by auto
  note core = edge_core [OF edge]
  from ok s have row: "row_ok (registry L) s" by (simp add: ledger_ok_def)
  have "jointly (registry L) (st_allocation s # others_of (st_id s) (stage_rows L))"
    using ok jointly_row [OF dist] find id by (simp add: ledger_ok_def)
  then have joint: "jointly (registry L) (map st_allocation (stage_rows L'))"
    using edge_jointly [OF edge row] jointly_upsert [OF dist] id by (simp add: rows)
  have ids: "rq_id ` set (requests L') = rq_id ` set (requests L)" "distinct (map rq_id (requests L')) = distinct (map rq_id (requests L))"
    using rq_ids [of L] rq_ids [of L'] log by (metis set_map)+
  have "\<forall>t\<in>set (stage_rows L'). row_ok (registry L) t \<and> drawn \<epsilon> 0 (uuid_draws L) (st_id t)
      \<and> st_request t \<in> rq_id ` set (requests L)"
    using ok edge_row_ok [OF edge row prot] s core
    by (auto simp: ledger_ok_def rows upsert_set [OF dist] same_core_def)
  moreover have "\<forall>r\<in>set (requests L'). drawn \<epsilon> 0 (uuid_draws L) (rq_id r)"
    using ok ids(1) unfolding ledger_ok_def by (metis imageE image_eqI)
  ultimately show ?thesis
    using ok joint edge_deps [OF dist find edge] upsert_distinct [OF dist] ids
    by (auto simp: ledger_ok_def rows reg u)
qed

lemma micro_registry_ok:
  assumes ok: "ledger_ok \<epsilon> L" and rows: "stage_rows L' = stage_rows L" and log: "request_log L' = request_log L"
    and le: "uuid_draws L \<le> uuid_draws L'" and wf: "wf_registry (registry L')"
    and caps: "same_capacities (registry L') (registry L) (stage_rows L)"
  shows "ledger_ok \<epsilon> L'"
proof -
  from log have ids: "map rq_id (requests L') = map rq_id (requests L)" by (simp add: rq_ids)
  then have ids': "rq_id ` set (requests L') = rq_id ` set (requests L)" by (metis set_map)
  have "\<forall>j\<in>rq_id ` set (requests L'). drawn \<epsilon> 0 (uuid_draws L') j"
    using ok le unfolding ids' ledger_ok_def by (auto intro: drawn_mono)
  then have "\<forall>r\<in>set (requests L'). drawn \<epsilon> 0 (uuid_draws L') (rq_id r)" by blast
  then show ?thesis
    using ok rows le wf caps ids ids' row_ok_capacities jointly_capacities
    unfolding ledger_ok_def by (auto intro: drawn_mono)
qed

theorem micro_ok:
  assumes inj: "inj (uuid4 \<epsilon>)" and ok: "ledger_ok \<epsilon> L" and micro: "micro \<epsilon> L L'"
  shows "ledger_ok \<epsilon> L'"
  using micro
proof (cases rule: micro.cases)
  case silent
  with ok have "wf_registry (registry L')" "same_capacities (registry L') (registry L) (stage_rows L)"
    by (simp_all add: ledger_ok_def frame_def same_capacities_def)
  with ok silent show ?thesis by (auto simp: frame_def intro: micro_registry_ok)
next
  case (row s' s)
  with ok show ?thesis by (blast intro: micro_row_ok)
next
  case (create s)
  then have ids: "map rq_id (requests L') = map rq_id (requests L)" by (simp add: rq_ids)
  then have ids': "rq_id ` set (requests L') = rq_id ` set (requests L)" by (metis set_map)
  have le: "uuid_draws L \<le> uuid_draws L'" using create(4) by (auto simp: drawn_def)
  have fresh: "st_id s \<notin> st_id ` set (stage_rows L)"
    using ok create(4) drawn_fresh [OF inj] by (fastforce simp: ledger_ok_def)
  have "jointly (registry L) (map st_allocation (stage_rows L'))"
    using ok create jointly_mset [of "map st_allocation (stage_rows L) @ [[]]" "[] # map st_allocation (stage_rows L)" "registry L"]
    by (simp add: ledger_ok_def jointly_def)
  moreover have "\<forall>r\<in>set (requests L'). drawn \<epsilon> 0 (uuid_draws L') (rq_id r)"
    using ok ids' le drawn_mono [of \<epsilon> 0 "uuid_draws L" _ 0 "uuid_draws L'"] unfolding ledger_ok_def
    by (metis imageE image_eqI le_refl)
  moreover have "deps_passed (stage_rows L')"
    using ok create deps_passed_create by (auto simp: ledger_ok_def)
  ultimately show ?thesis
    using ok create ids ids' le fresh unfolding ledger_ok_def
    by (auto simp: row_ok_def intro: drawn_mono)
next
  case (request i p e pl)
  have le: "uuid_draws L \<le> uuid_draws L'" using request(4) by (auto simp: drawn_def)
  have ids: "map rq_id (requests L') = map rq_id (requests L) @ [i]" using request by (simp add: rq_ids)
  then have ids': "rq_id ` set (requests L') = insert i (rq_id ` set (requests L))"
    by (metis (no_types, lifting) Un_insert_right append_Nil2 list.simps(15) set_append set_map sup_bot.right_neutral empty_set)
  have fresh: "i \<notin> rq_id ` set (requests L)"
    using ok request(4) drawn_fresh [OF inj] by (fastforce simp: ledger_ok_def)
  have "\<forall>j\<in>rq_id ` set (requests L'). drawn \<epsilon> 0 (uuid_draws L') j"
    using ok le request(4) unfolding ids' ledger_ok_def by (auto intro: drawn_mono)
  then have "\<forall>r\<in>set (requests L'). drawn \<epsilon> 0 (uuid_draws L') (rq_id r)" by blast
  moreover have "distinct (map rq_id (requests L'))"
    using ok fresh unfolding ids by (simp add: ledger_ok_def)
  ultimately show ?thesis
    using ok request le ids' unfolding ledger_ok_def by (auto intro: drawn_mono)
next
  case registry_change
  with ok show ?thesis by (blast intro: micro_registry_ok)
qed

definition steps :: "env \<Rightarrow> ledger \<Rightarrow> ledger \<Rightarrow> bool" where
  "steps \<epsilon> = (micro \<epsilon>)\<^sup>*\<^sup>*"

lemma steps_refl [simp]: "steps \<epsilon> L L"
  by (simp add: steps_def)

lemma steps_micro: "micro \<epsilon> L L' \<Longrightarrow> steps \<epsilon> L L'"
  by (auto simp: steps_def)

lemma steps_trans [trans]: "steps \<epsilon> L L' \<Longrightarrow> steps \<epsilon> L' L'' \<Longrightarrow> steps \<epsilon> L L''"
  by (simp add: steps_def)

lemma steps_ok: "steps \<epsilon> L L' \<Longrightarrow> inj (uuid4 \<epsilon>) \<Longrightarrow> ledger_ok \<epsilon> L \<Longrightarrow> ledger_ok \<epsilon> L'"
  unfolding steps_def by (induction rule: rtranclp_induct) (auto intro: micro_ok)

section \<open>Quiet operations\<close>

lemma frame_refl [simp]: "frame L L"
  by (simp add: frame_def)

lemma frame_trans: "frame L L' \<Longrightarrow> frame L' L'' \<Longrightarrow> frame L L''"
  by (simp add: frame_def)

definition quiet :: "'a op \<Rightarrow> bool" where
  "quiet m \<longleftrightarrow> (\<forall>L x L'. m L = Inr (x, L') \<longrightarrow> frame L L')"

named_theorems quiet_intros \<open>operations that leave the stages, the registry and the request log alone\<close>

lemma quietD: "quiet m \<Longrightarrow> m L = Inr (x, L') \<Longrightarrow> frame L L'"
  by (simp add: quiet_def)

lemma quiet_obind [quiet_intros]: "quiet m \<Longrightarrow> (\<And>x. quiet (f x)) \<Longrightarrow> quiet (obind m f)"
  unfolding quiet_def obind_Inr by (meson frame_trans)

lemma quiet_basic [quiet_intros]:
  "quiet (oreturn x)" "quiet (oget g)" "quiet (olift r)" "(\<And>L. frame L (f L)) \<Longrightarrow> quiet (omodify f)"
  by (auto simp: quiet_def op_simps)

lemma quiet_draws [quiet_intros]: "quiet (now \<epsilon>)" "quiet (new_uuid \<epsilon>)" "quiet (new_secret \<epsilon>)" "quiet next_sequence"
  by (auto simp: quiet_def now_def new_uuid_def new_secret_def next_sequence_def frame_def request_log_def)

lemma quiet_lookups [quiet_intros]: "quiet (get_stage i)" "quiet (get_request i)"
  by (auto simp: quiet_def get_stage_def get_request_def split: option.splits)

lemma quiet_if [quiet_intros]: "quiet m \<Longrightarrow> quiet m' \<Longrightarrow> quiet (if b then m else m')"
  by simp

lemma quiet_ofor [quiet_intros]: "(\<And>x. quiet (f x)) \<Longrightarrow> quiet (ofor f xs)"
  by (induction xs) (auto intro!: quiet_intros)

lemma quiet_log_event [quiet_intros]: "quiet (log_event \<epsilon> subject kind)"
  unfolding log_event_def by (intro quiet_intros) (simp add: frame_def request_log_def)

lemma quiet_insert_history [quiet_intros]: "quiet (insert_history rid sid gen body)"
  unfolding insert_history_def by (intro quiet_intros) (simp add: frame_def request_log_def)

lemma quiet_outcome_subscriber [quiet_intros]: "quiet (outcome_subscriber \<epsilon> rq rid stages subscriber)"
  unfolding outcome_subscriber_def Let_def
  by (intro quiet_intros) (simp add: frame_def request_log_def insert_outbox_def)

lemma quiet_outcomes [quiet_intros]: "quiet (outcomes_of \<epsilon> rid)" "quiet (outcomes \<epsilon> rids)"
  unfolding outcomes_of_def outcomes_def by (intro quiet_intros)+

section \<open>Saving a row\<close>

definition stamped :: "stage \<Rightarrow> stage \<Rightarrow> bool" where
  "stamped s s' \<longleftrightarrow> (\<exists>w t. s' = s\<lparr>st_wait_seconds := w, st_transition_at := t\<rparr>)"

lemma stamped_refl [simp]: "stamped s s"
  unfolding stamped_def by (metis stage.surjective stage.update_convs(30,31))

lemma stamped_fields:
  "stamped s s' \<Longrightarrow> st_id s' = st_id s \<and> st_name s' = st_name s \<and> st_request s' = st_request s \<and>
     st_project s' = st_project s \<and> st_seq s' = st_seq s \<and> st_created_at s' = st_created_at s \<and>
     st_needs s' = st_needs s \<and> st_after s' = st_after s \<and> st_extra s' = st_extra s \<and>
     st_state s' = st_state s \<and> st_allocation s' = st_allocation s \<and> st_epoch s' = st_epoch s \<and>
     st_outcome s' = st_outcome s \<and> st_launch_token s' = st_launch_token s \<and>
     st_maintenance_token s' = st_maintenance_token s \<and> st_cancel_requested s' = st_cancel_requested s \<and>
     st_ready_seq s' = st_ready_seq s \<and> st_protection s' = st_protection s \<and> st_reason s' = st_reason s"
  by (auto simp: stamped_def)

lemma edge_stamped: "edge reg rows s s' \<Longrightarrow> stamped s' r \<Longrightarrow> edge reg rows s r"
proof -
  assume edge: "edge reg rows s s'" and "stamped s' r"
  note f = stamped_fields [OF \<open>stamped s' r\<close>]
  from edge show "edge reg rows s r"
  proof (cases rule: edge.cases)
    case touch with f show ?thesis by (intro edge.touch) (auto simp: same_core_def same_control_def same_tokens_def)
  next
    case (skip p) with f show ?thesis by (intro edge.skip [of s r rows p]) (auto simp: same_core_def same_tokens_def)
  next
    case grant with f show ?thesis by (intro edge.grant) (auto simp: same_core_def)
  next
    case attach with f show ?thesis by (intro edge.attach) (auto simp: same_core_def same_tokens_def)
  next
    case admit with f show ?thesis by (intro edge.admit) (auto simp: same_core_def same_tokens_def)
  next
    case cancel with f show ?thesis by (intro edge.cancel) (auto simp: same_core_def same_tokens_def)
  next
    case (finish oc) with f show ?thesis by (intro edge.finish [of s r oc]) (auto simp: same_core_def)
  qed
qed

lemma save_Inr:
  assumes "save \<epsilon> s L = Inr (r, L')"
  obtains L1 where "frame L L1" "uuid_draws L1 = uuid_draws L" "sequence L1 = sequence L" "stamped s r" "requests L1 = requests L"
    "released L1 = released L"
    "L' = L1\<lparr>stage_rows := upsert_stage r (stage_rows L)\<rparr>"
proof -
  let ?old = "find_stage (st_id s) (stage_rows L)"
  show thesis
  proof (cases "case ?old of None \<Rightarrow> True | Some o' \<Rightarrow> st_state o' \<noteq> st_state s \<or> st_reason o' \<noteq> st_reason s")
    case True
    let ?t = "clock \<epsilon> (clock_reads L)"
    let ?w = "case ?old of None \<Rightarrow> [] | Some o' \<Rightarrow> book_wait ?t o'"
    let ?r = "s\<lparr>st_wait_seconds := ?w, st_transition_at := Some ?t\<rparr>"
    let ?L1 = "L\<lparr>clock_reads := Suc (Suc (clock_reads L)),
          event_log := event_log L @ [\<lparr>ev_at = clock \<epsilon> (Suc (clock_reads L)), ev_subject = st_id s,
             ev_kind = State_Changed (st_state s) (st_reason s)\<rparr>]\<rparr>"
    have "save \<epsilon> s L = Inr (?r, ?L1\<lparr>stage_rows := upsert_stage ?r (stage_rows L)\<rparr>)"
      unfolding save_def obind_def oget_def
      by (simp add: True now_def log_event_def omodify_def oreturn_def obind_def Let_def del: option.case_distrib)
    note ab = trans [OF sym [OF this] assms, unfolded sum.inject prod.inject]
    note a = conjunct1 [OF ab] and b = conjunct2 [OF ab]
    note r = a [symmetric]
    have L': "L' = ?L1\<lparr>stage_rows := upsert_stage r (stage_rows L)\<rparr>"
      by (simp only: b [symmetric] a)
    have "stamped s r" unfolding stamped_def r by blast
    then show thesis
      by (intro that [OF _ _ _ _ _ _ L']) (simp_all add: frame_def request_log_def)
  next
    case False
    then have "save \<epsilon> s L = Inr (s, L\<lparr>stage_rows := upsert_stage s (stage_rows L)\<rparr>)"
      unfolding save_def obind_def oget_def
      by (simp only: if_False sum.case prod.case oreturn_def omodify_def)
    with assms have "r = s" "L' = L\<lparr>stage_rows := upsert_stage r (stage_rows L)\<rparr>" by auto
    then show thesis by (intro that [of L]) simp_all
  qed
qed

lemma save_steps:
  assumes save: "save \<epsilon> s' L = Inr (r, L')" and find: "find_stage (st_id s') (stage_rows L) = Some s"
    and edge: "edge (registry L) (stage_rows L) s s'" and prot: "prot_ok s s'"
  shows "steps \<epsilon> L L' \<and> stamped s' r \<and> stage_rows L' = upsert_stage r (stage_rows L)
     \<and> registry L' = registry L \<and> requests L' = requests L \<and> released L' = released L"
proof -
  from save obtain L1 where L1: "frame L L1" "stamped s' r" "requests L1 = requests L"
    "released L1 = released L"
    "L' = L1\<lparr>stage_rows := upsert_stage r (stage_rows L)\<rparr>" by (rule save_Inr)
  note f = stamped_fields [OF L1(2)]
  have "micro \<epsilon> L L1" using L1(1) by (rule micro.silent)
  moreover have "micro \<epsilon> L1 L'"
    using L1 find f prot edge_stamped [OF edge L1(2)]
    by (intro micro.row [of r L1 s L']) (auto simp: frame_def request_log_def prot_ok_def)
  ultimately have "steps \<epsilon> L L'" by (meson steps_micro steps_trans)
  with L1 show ?thesis by (auto simp: frame_def)
qed

lemma get_stage_Inr:
  "get_stage i L = Inr (s, L') \<longleftrightarrow> L' = L \<and> find_stage i (stage_rows L) = Some s"
  by (auto simp: get_stage_def split: option.splits)

lemma frame_steps: "frame L L' \<Longrightarrow> steps \<epsilon> L L'"
  by (intro steps_micro micro.silent)

lemma quiet_steps: "quiet m \<Longrightarrow> m L = Inr (x, L') \<Longrightarrow> steps \<epsilon> L L'"
  by (blast intro: frame_steps quietD)

text \<open>The request log only grows.\<close>

lemma micro_log: "micro \<epsilon> L L' \<Longrightarrow> \<exists>new. request_log L' = request_log L @ new"
  by (auto elim!: microE simp: frame_def)

lemma steps_log: "steps \<epsilon> L L' \<Longrightarrow> \<exists>new. request_log L' = request_log L @ new"
  unfolding steps_def
proof (induction rule: rtranclp_induct)
  case (step L1 L2)
  from micro_log [OF step(2)] step.IH show ?case by (metis append.assoc)
qed simp

end
