(* ===== verification/Resource_Refinement.thy ===== *)
theory Resource_Refinement
  imports Resource_Steps
begin

text \<open>
  Every transaction of the ledger that commits is a sequence of micro steps.
\<close>

section \<open>Transactions on one row\<close>

lemmas run_simps = op_simps get_stage_Inr olift_Inr raise_if_simps

lemma attach_steps: "attach \<epsilon> sid epoch ident L = Inr (u, L') \<Longrightarrow> steps \<epsilon> L L'"
proof -
  assume "attach \<epsilon> sid epoch ident L = Inr (u, L')"
  then obtain s r where s: "find_stage sid (stage_rows L) = Some s" "st_state s = Granted"
    and save: "save \<epsilon> (s\<lparr>st_state := Launching, st_supervisor := ident\<rparr>) L = Inr (r, L')"
    by (auto simp: attach_def run_simps)
  have "edge (registry L) (stage_rows L) s (s\<lparr>st_state := Launching, st_supervisor := ident\<rparr>)"
    using s by (intro edge.attach) (simp_all add: same_core_def same_tokens_def)
  with save_steps [OF save] s find_stageD [OF s(1)] show ?thesis by simp
qed

lemma annotate_steps: "annotate \<epsilon> sid epoch evidence L = Inr (u, L') \<Longrightarrow> steps \<epsilon> L L'"
proof -
  let ?s = "\<lambda>s. s\<lparr>st_runner := fold (\<lambda>(k, v). AList.update k v) evidence (st_runner s)\<rparr>"
  assume "annotate \<epsilon> sid epoch evidence L = Inr (u, L')"
  then obtain s r where s: "find_stage sid (stage_rows L) = Some s" and save: "save \<epsilon> (?s s) L = Inr (r, L')"
    by (auto simp: annotate_def run_simps)
  have "edge (registry L) (stage_rows L) s (?s s)"
    by (intro edge.touch) (simp_all add: same_core_def same_control_def same_tokens_def)
  with save_steps [OF save] s find_stageD [OF s(1)] show ?thesis by simp
qed

lemma frameD:
  "frame L L' \<Longrightarrow> stage_rows L' = stage_rows L \<and> registry L' = registry L \<and> request_log L' = request_log L"
  by (simp add: frame_def)

lemma now_frame: "now \<epsilon> L = Inr (t, L') \<Longrightarrow> frame L L'"
  using quietD [OF quiet_draws(1)] .

lemma now_Inr: "now \<epsilon> L = Inr (t, L') \<Longrightarrow> L' = L\<lparr>clock_reads := Suc (clock_reads L)\<rparr>"
  by (auto simp: now_def)

lemma log_event_frame: "log_event \<epsilon> subject kind L = Inr (t, L') \<Longrightarrow> frame L L'"
  using quietD [OF quiet_log_event] .

lemma admit_steps: "admit \<epsilon> sid token L = Inr (s', L') \<Longrightarrow> steps \<epsilon> L L'"
proof -
  assume "admit \<epsilon> sid token L = Inr (s', L')"
  then obtain s t L1 r L2 where s: "find_stage sid (stage_rows L) = Some s"
    and ok: "(if st_state s \<noteq> Launching \<or> st_cancel_requested s then Inr False
              else compare_digest (launch_token_of s) token) = (Inr True :: err + bool)"
    and t: "now \<epsilon> L = Inr (t, L1)"
    and save: "save \<epsilon> (s\<lparr>st_state := Running, st_started_at := Some t\<rparr>) L1 = Inr (r, L2)"
    and log: "log_event \<epsilon> sid (Admitted_Event (st_epoch r)) L2 = Inr ((), L')"
    by (auto simp: admit_def run_simps)
  from ok have state: "st_state s = Launching" "\<not> st_cancel_requested s" by (auto split: if_splits)
  note f = frameD [OF now_frame [OF t]]
  have "edge (registry L1) (stage_rows L1) s (s\<lparr>st_state := Running, st_started_at := Some t\<rparr>)"
    using state by (intro edge.admit) (simp_all add: same_core_def same_tokens_def)
  with save_steps [OF save] s find_stageD [OF s(1)] f have "steps \<epsilon> L1 L2" by simp
  then show ?thesis
    using frame_steps [OF now_frame [OF t]] frame_steps [OF log_event_frame [OF log]] by (blast intro: steps_trans)
qed

section \<open>Loops over the rows of one request\<close>

definition keeps_others :: "string \<Rightarrow> ledger \<Rightarrow> ledger \<Rightarrow> bool" where
  "keeps_others i L L' \<longleftrightarrow> (\<forall>j. j \<noteq> i \<longrightarrow> find_stage j (stage_rows L') = find_stage j (stage_rows L))"

lemma ofor_rows:
  assumes body: "\<And>s L x L'. find_stage (st_id s) (stage_rows L) = Some s \<Longrightarrow> f s L = Inr (x, L') \<Longrightarrow>
      steps \<epsilon> L L' \<and> keeps_others (st_id s) L L'"
  shows "ofor f xs L = Inr (ys, L') \<Longrightarrow> distinct (map st_id xs) \<Longrightarrow>
     (\<forall>s\<in>set xs. find_stage (st_id s) (stage_rows L) = Some s) \<Longrightarrow> steps \<epsilon> L L'"
proof (induction xs arbitrary: L ys)
  case (Cons s xs)
  from Cons.prems(1) obtain y L1 ys' where y: "f s L = Inr (y, L1)" and ys: "ofor f xs L1 = Inr (ys', L')"
    by (auto simp: op_simps)
  from body [OF _ y] Cons.prems(3) have one: "steps \<epsilon> L L1" "keeps_others (st_id s) L L1" by auto
  have "\<forall>t\<in>set xs. find_stage (st_id t) (stage_rows L1) = Some t"
  proof
    fix t assume "t \<in> set xs"
    moreover from this Cons.prems(2) have "st_id t \<noteq> st_id s" by simp (metis imageI)
    ultimately show "find_stage (st_id t) (stage_rows L1) = Some t"
      using Cons.prems(3) one(2) by (simp add: keeps_others_def)
  qed
  from Cons.IH [OF ys _ this] Cons.prems(2) one(1) show ?case by (auto intro: steps_trans)
qed (simp add: oreturn_def)

lemma save_keeps_others:
  assumes "save \<epsilon> s' L = Inr (r, L')"
  shows "keeps_others (st_id s') L L'"
proof -
  from assms obtain L1 where "stamped s' r" "L' = L1\<lparr>stage_rows := upsert_stage r (stage_rows L)\<rparr>"
    by (rule save_Inr)
  with stamped_fields show ?thesis by (auto simp: keeps_others_def)
qed

lemma cancel_stage_steps:
  assumes find: "find_stage (st_id s) (stage_rows L) = Some s" and run: "cancel_stage \<epsilon> s L = Inr (x, L')"
  shows "steps \<epsilon> L L' \<and> keeps_others (st_id s) L L'"
proof (cases "st_state s = Waiting")
  case True
  with run obtain t L1 where t: "now \<epsilon> L = Inr (t, L1)"
    and save: "save \<epsilon> (s\<lparr>st_state := Cancelled, st_finished_at := Some t, st_protection := None\<rparr>) L1 = Inr (x, L')"
    by (auto simp: cancel_stage_def run_simps)
  note f = frameD [OF now_frame [OF t]]
  have "edge (registry L1) (stage_rows L1) s (s\<lparr>st_state := Cancelled, st_finished_at := Some t, st_protection := None\<rparr>)"
    using True by (intro edge.cancel) (simp_all add: same_core_def same_tokens_def)
  with save_steps [OF save] f find have "steps \<epsilon> L1 L'" by simp
  with frame_steps [OF now_frame [OF t]] have "steps \<epsilon> L L'" by (blast intro: steps_trans)
  with save_keeps_others [OF save] f show ?thesis by (simp add: keeps_others_def)
next
  case False
  define s' where "s' = (if owning (st_state s) then s\<lparr>st_cancel_requested := True\<rparr> else s)"
  from False run have save: "save \<epsilon> s' L = Inr (x, L')"
    by (auto simp: cancel_stage_def s'_def run_simps split: if_splits)
  have "edge (registry L) (stage_rows L) s s'" and id: "st_id s' = st_id s" and "prot_ok s s'"
    unfolding s'_def
    by (auto intro!: edge.touch simp: same_core_def same_control_def same_tokens_def)
  with save_steps [OF save] save_keeps_others [OF save] find show ?thesis by simp
qed

lemma stages_query_set: "set (stages_of rid L) \<subseteq> set (stage_rows L)"
  by (auto simp: stages_query_def)

lemma stages_query_distinct: "distinct (map st_id (stage_rows L)) \<Longrightarrow> distinct (map st_id (stages_query r a p L))"
  unfolding stages_query_def distinct_map
  by (auto simp: inj_on_def intro: distinct_filter)

lemma cancel_steps: "cancel \<epsilon> rid L = Inr (u, L') \<Longrightarrow> ledger_ok \<epsilon> L \<Longrightarrow> steps \<epsilon> L L'"
proof -
  assume run: "cancel \<epsilon> rid L = Inr (u, L')" and ok: "ledger_ok \<epsilon> L"
  from run obtain rq L0 xs L1 L2 where "get_request rid L = Inr (rq, L0)"
    and L0: "frame L L0" "stages_of rid L0 = stages_of rid L"
    and loop: "ofor (cancel_stage \<epsilon>) (stages_of rid L0) L0 = Inr (xs, L1)"
    and log: "log_event \<epsilon> rid Cancel_Requested_Event L1 = Inr ((), L2)"
    and out: "outcomes \<epsilon> [rid] L2 = Inr (u, L')"
    by (auto simp: cancel_def run_simps get_request_def split: option.splits)
  from ok have dist: "distinct (map st_id (stage_rows L))" by (simp add: ledger_ok_def)
  have "\<forall>s\<in>set (stages_of rid L0). find_stage (st_id s) (stage_rows L0) = Some s"
    using L0 find_stage_distinct [OF dist] stages_query_set [of rid L] by (auto simp: frame_def)
  with ofor_rows [OF cancel_stage_steps loop] stages_query_distinct [OF dist] L0
  have "steps \<epsilon> L0 L1" by simp
  then show ?thesis
    using frame_steps [OF L0(1)] frame_steps [OF log_event_frame [OF log]] quiet_steps [OF quiet_outcomes(2) out]
    by (blast intro: steps_trans)
qed

section \<open>Completion\<close>

lemma finish_stage_steps:
  assumes run: "finish_stage \<epsilon> sid epoch oc freed evidence L = Inr (u, L')" and oc: "terminal oc"
  shows "steps \<epsilon> L L'"
proof -
  let ?rest = "\<lambda>s. filter (\<lambda>kv. fst kv \<notin> set freed) (st_allocation s)"
  let ?s = "\<lambda>s t. s\<lparr>st_state := (if ?rest s \<noteq> [] then Recovery_Required else oc),
                         st_outcome := Some oc, st_allocation := ?rest s, st_evidence := evidence,
                         st_finished_at := Some t, st_launch_token := None, st_maintenance_token := None\<rparr>"
  from run obtain s t L1 r L2 L3 where s: "find_stage sid (stage_rows L) = Some s" "owning (st_state s)"
    and t: "now \<epsilon> L = Inr (t, L1)" and save: "save \<epsilon> (?s s t) L1 = Inr (r, L2)"
    and log: "log_event \<epsilon> sid (Finished_Event oc freed evidence)
       (L2\<lparr>released := sort (dedup (released L2 @ freed))\<rparr>) = Inr ((), L3)"
    and out: "outcomes \<epsilon> [st_request s] L3 = Inr (u, L')"
    unfolding finish_stage_def Let_def
    by (fastforce simp: run_simps simp del: filter_empty_conv)
  note f = frameD [OF now_frame [OF t]]
  have "edge (registry L1) (stage_rows L1) s (?s s t)"
    using s oc by (intro edge.finish [where oc = oc])
      (simp_all add: same_core_def part_of_filter)
  with save_steps [OF save] f s find_stageD [OF s(1)] have "steps \<epsilon> L1 L2" by simp
  moreover have "frame L2 (L2\<lparr>released := sort (dedup (released L2 @ freed))\<rparr>)"
    by (simp add: frame_def request_log_def)
  ultimately show ?thesis
    using frame_steps [OF now_frame [OF t]] frame_steps [OF log_event_frame [OF log]]
      quiet_steps [OF quiet_outcomes(2) out] frame_steps
    by (blast intro: steps_trans)
qed

lemma finish_steps: "finish \<epsilon> sid epoch oc freed evidence L = Inr (u, L') \<Longrightarrow> steps \<epsilon> L L'"
  by (auto simp: finish_def run_simps dest: finish_stage_steps)

lemma recover_steps: "recover \<epsilon> sid epoch freed evidence L = Inr (u, L') \<Longrightarrow> steps \<epsilon> L L'"
  by (auto simp: recover_def run_simps dest: finish_steps)

lemma abort_steps: "abort_unadmitted \<epsilon> sid epoch token ident L = Inr (b, L') \<Longrightarrow> steps \<epsilon> L L'"
  unfolding abort_unadmitted_def Let_def
  by (auto simp: run_simps dest!: finish_stage_steps split: if_splits)

section \<open>Subscription\<close>

lemma update_request_frame:
  assumes ok: "ledger_ok \<epsilon> L" and rq: "find_request rid (requests L) = Some rq"
    and key: "request_key rq' = request_key rq" and log: "request_log L' = request_log L"
  shows "frame L' (update_request rq' L')"
proof -
  have mem: "rq \<in> set (requests L)" using rq by (auto simp: find_request_def find_Some_iff)
  have "request_key r = request_key rq'" if "r \<in> set (requests L')" "rq_id r = rq_id rq'" for r
  proof -
    from that(1) log have "request_key r \<in> request_key ` set (requests L)"
      unfolding request_log_def by (metis image_eqI list.set_map)
    then obtain r2 where r2: "r2 \<in> set (requests L)" "request_key r = request_key r2" by auto
    from r2(2) key that(2) have "rq_id r2 = rq_id rq" by (simp add: request_key_def)
    with ok mem r2(1) have "r2 = rq" by (simp add: ledger_ok_def distinct_map inj_on_def)
    with r2 key show ?thesis by simp
  qed
  then show ?thesis by (auto simp: frame_def request_log_def update_request_def)
qed

lemma subscribe_steps: "subscribe \<epsilon> rid contract sub remove L = Inr (u, L') \<Longrightarrow> ledger_ok \<epsilon> L \<Longrightarrow> steps \<epsilon> L L'"
proof -
  assume run: "subscribe \<epsilon> rid contract sub remove L = Inr (u, L')" and ok: "ledger_ok \<epsilon> L"
  let ?sid = "sub_id sub"
  from run obtain rq where rq: "find_request rid (requests L) = Some rq"
    by (auto simp: subscribe_def run_simps get_request_def split: option.splits)
  let ?current = "List.find (\<lambda>s. sub_id s = ?sid) (rq_subscribers rq)"
  let ?past0 = "latest (history_of rid ?sid (history L))"
  from run rq obtain past L1 rq' L2 L3 where
    past: "(case (?past0, ?current) of
              (None, Some c) \<Rightarrow> obind (insert_history rid ?sid 1 c) (\<lambda>_. oreturn (Some (1, c)))
            | (None, None) \<Rightarrow> oreturn None
            | (Some h, _) \<Rightarrow> oreturn (Some (hs_generation h, hs_body h))) L = Inr (past, L1)"
    and upd: "(if remove then
              obind (omodify (\<lambda>L. L\<lparr>history := deactivate rid ?sid (history L)\<rparr>)) (\<lambda>_.
              oreturn (rq\<lparr>rq_subscribers := filter (\<lambda>s. sub_id s \<noteq> ?sid) (rq_subscribers rq)\<rparr>))
            else if ?current = None then
              obind (omodify (\<lambda>L. L\<lparr>history := deactivate rid ?sid (history L)\<rparr>)) (\<lambda>_.
              obind (insert_history rid ?sid (case past of None \<Rightarrow> 1 | Some (g, _) \<Rightarrow> Suc g) sub) (\<lambda>_.
              oreturn (rq\<lparr>rq_subscribers := rq_subscribers rq @ [sub]\<rparr>)))
            else oreturn rq) L1 = Inr (rq', L2)"
    and log: "log_event \<epsilon> rid (Subscription_Event (\<not> remove)) (update_request rq' L2) = Inr ((), L3)"
    and out: "outcomes \<epsilon> [rid] L3 = Inr (u, L')"
    unfolding subscribe_def Let_def obind_Inr olift_Inr oget_Inr omodify_Inr
    by (auto simp: get_request_def)
  have f1: "frame L L1"
    using past by (rule quietD [rotated]) (auto intro!: quiet_intros split: option.splits)
  have f2: "frame L1 L2"
    using upd by (rule quietD [rotated]) (auto intro!: quiet_intros simp: frame_def request_log_def)
  have key: "request_key rq' = request_key rq"
    using upd by (auto simp: op_simps request_key_def split: if_splits)
  have "request_log L2 = request_log L" using f1 f2 by (simp add: frame_def)
  from update_request_frame [OF ok rq key this] f1 f2
  show ?thesis
    using frame_steps [OF log_event_frame [OF log]] quiet_steps [OF quiet_outcomes(2) out] frame_steps
    by (blast intro: steps_trans)
qed

section \<open>Configuration\<close>

lemma map_of_first: "map_of al k = (case filter (\<lambda>y. fst y = k) al of [] \<Rightarrow> None | p # _ \<Rightarrow> Some (snd p))"
  by (induction al) auto

lemma map_of_sort_key: "map_of (sort_key fst al) k = map_of al k"
  unfolding map_of_first [of "sort_key fst al"] map_of_first [of al]
  by (simp add: sort_key_stable)

lemma json_eq_get: "json_eq (JObj a) (JObj b) \<Longrightarrow> jcanon (jnum (get a k)) = jcanon (jnum (get b k))"
proof -
  assume "json_eq (JObj a) (JObj b)"
  then have "sort_key fst (map (\<lambda>(k, v). (k, jcanon v)) (map (\<lambda>(k, v). (k, jnum v)) a)) =
      sort_key fst (map (\<lambda>(k, v). (k, jcanon v)) (map (\<lambda>(k, v). (k, jnum v)) b))"
    by (simp add: json_eq_def)
  from arg_cong [OF this, of "\<lambda>al. map_of al k"]
  have "map_option jcanon (map_option jnum (map_of a k)) = map_option jcanon (map_option jnum (map_of b k))"
    by (simp only: map_of_map map_of_sort_key o_apply)
  then show ?thesis by (auto simp: get_def split: option.splits)
qed

lemma wf_registry_entry: "wf_registry reg \<Longrightarrow> map_of reg x = Some e \<Longrightarrow> entry_ok e"
  by (auto simp: wf_registry_def dest!: map_of_SomeD)

lemma jnum_str: "jcanon (jnum v) = JStr s \<longleftrightarrow> v = JStr s"
proof (cases v)
  case (JReal r)
  have "jcanon (if b then JInt i else JReal r) \<noteq> JStr s" for b i by simp
  then show ?thesis unfolding JReal jnum.simps by simp
qed auto

lemma same_entry_leaf:
  assumes "same_entry (map_of reg x) (map_of old x)" "wf_registry reg" "wf_registry old" "is_leaf old x"
  shows "is_leaf reg x \<and> cap_of reg x = cap_of old x"
proof -
  from assms(4) obtain l where l: "map_of old x = Some (Leaf l)" by (auto simp: is_leaf_iff)
  with assms(1) obtain e where e: "map_of reg x = Some e" and eq: "json_eq (JObj (entry_fields e)) (JObj (leaf_fields l))"
    by (cases "map_of reg x") auto
  note ok = wf_registry_entry [OF assms(3) l] wf_registry_entry [OF assms(2) e]
  from json_eq_get [OF eq, of "''kind''"] ok have kind: "get (entry_fields e) ''kind'' = JStr ''resource''"
    by (simp add: jnum_str)
  with ok obtain l' where l': "e = Leaf l'" by (cases e) auto
  from json_eq_get [OF eq, of "''capacity''"] ok have "capacity l' = capacity l" by (simp add: l')
  with l e l' show ?thesis by (simp add: is_leaf_iff cap_of_def)
qed

lemma ofor_checks:
  assumes "\<And>s L x L'. f s L = Inr (x, L') \<Longrightarrow> L' = L \<and> P s"
  shows "ofor f xs L = Inr (ys, L') \<Longrightarrow> L' = L \<and> (\<forall>s\<in>set xs. P s)"
proof (induction xs arbitrary: ys L)
  case (Cons s xs)
  then obtain y L1 ys' where "f s L = Inr (y, L1)" "ofor f xs L1 = Inr (ys', L')" by (auto simp: op_simps)
  with assms Cons.IH show ?case by fastforce
qed (simp add: oreturn_def)

lemma active_stages_set: "set (active_stages L) = {s \<in> set (stage_rows L). \<not> terminal (st_state s)}"
  by (auto simp: stages_query_def)

lemma configure_steps: "configure \<epsilon> raw L = Inr (u, L') \<Longrightarrow> ledger_ok \<epsilon> L \<Longrightarrow> steps \<epsilon> L L'"
proof -
  assume run: "configure \<epsilon> raw L = Inr (u, L')" and ok: "ledger_ok \<epsilon> L"
  let ?check = "\<lambda>reg s. obind (olift (raise_if (\<not> list_all (\<lambda>leaf. same_entry (map_of reg leaf) (map_of (registry L) leaf)) (keys (st_allocation s)))
                  (ResourceError ''active resource changes require drain and release first''))) (\<lambda>_.
         olift (raise_if (st_state s = Waiting \<and> \<not> json_eq (registry_json reg) (registry_json (registry L)))
                  (ResourceError ''cancel pending requests before registry changes'')))"
  from run obtain reg xs L1 where reg: "normalize_registry raw = Inr reg"
    and loop: "ofor (?check reg) (active_stages L) L = Inr (xs, L1)"
    and log: "log_event \<epsilon> ''registry'' (Configured_Event (sha \<epsilon> (jcanon (registry_json reg)))) (L1\<lparr>registry := reg\<rparr>) = Inr (u, L')"
    unfolding configure_def obind_Inr olift_Inr oget_Inr omodify_Inr by auto
  have checks: "L1 = L \<and> (\<forall>s\<in>set (active_stages L). \<forall>x\<in>set (keys (st_allocation s)).
      same_entry (map_of reg x) (map_of (registry L) x))"
    by (rule ofor_checks [OF _ loop]) (auto simp: run_simps list_all_iff)
  from normalize_registry_wf [OF reg] have wf: "wf_registry reg" .
  from ok have wf': "wf_registry (registry L)" by (simp add: ledger_ok_def)
  have "same_capacities reg (registry L) (stage_rows L)"
    unfolding same_capacities_def
  proof (intro ballI impI)
    fix s x assume s: "s \<in> set (stage_rows L)" "x \<in> set (keys (st_allocation s))" "is_leaf (registry L) x"
    with ok have "row_ok (registry L) s" by (simp add: ledger_ok_def)
    with s(2) have "owning (st_state s)" by (auto simp: row_ok_def keys_def)
    with s(1) have "s \<in> set (active_stages L)"
      by (auto simp: active_stages_set dest: terminal_not_owning)
    with checks s same_entry_leaf wf wf' show "is_leaf reg x \<and> cap_of reg x = cap_of (registry L) x" by blast
  qed
  then have "micro \<epsilon> L (L\<lparr>registry := reg\<rparr>)"
    using wf by (intro micro.registry_change) (auto simp: request_log_def)
  with checks frame_steps [OF log_event_frame [OF log]] show ?thesis by (auto intro: steps_micro steps_trans)
qed

section \<open>Submission\<close>

definition unstarted :: "string \<Rightarrow> ledger \<Rightarrow> bool" where
  "unstarted rid L \<longleftrightarrow> rid \<in> rq_id ` set (requests L)
     \<and> (\<forall>r\<in>set (stage_rows L). st_request r = rid \<longrightarrow> st_epoch r = 0)"

lemma add_stage_steps:
  assumes inj: "inj (uuid4 \<epsilon>)" and ok: "ledger_ok \<epsilon> L" and un: "unstarted rid L"
    and run: "add_stage \<epsilon> rid project d L = Inr (x, L')"
  shows "steps \<epsilon> L L' \<and> unstarted rid L'"
proof -
  from run obtain name t r L3 where
    save: "save \<epsilon> (new_stage (uuid4 \<epsilon> (uuid_draws L)) name rid project (Suc (sequence L)) t (obj_fields d)) L3 = Inr (r, L')"
    and L3: "stage_rows L3 = stage_rows L" "registry L3 = registry L" "requests L3 = requests L"
      "uuid_draws L3 = Suc (uuid_draws L)" "sequence L3 = Suc (sequence L)"
    by (auto simp: add_stage_def op_simps new_uuid_def next_sequence_def now_def)
  let ?s = "new_stage (uuid4 \<epsilon> (uuid_draws L)) name rid project (Suc (sequence L)) t (obj_fields d)"
  from save obtain L4 where L4: "frame L3 L4" "uuid_draws L4 = uuid_draws L3" "sequence L4 = sequence L3" "stamped ?s r"
    "requests L4 = requests L3" "L' = L4\<lparr>stage_rows := upsert_stage r (stage_rows L3)\<rparr>" by (rule save_Inr)
  note f = stamped_fields [OF L4(4)]
  have "\<not> drawn \<epsilon> 0 (uuid_draws L) (uuid4 \<epsilon> (uuid_draws L))"
    using inj by (auto simp: drawn_def dest: injD)
  with ok have "find_stage (uuid4 \<epsilon> (uuid_draws L)) (stage_rows L) = None"
    by (auto simp: find_stage_None ledger_ok_def)
  then have rows: "stage_rows L' = stage_rows L @ [r]"
    using L4 L3 f by (simp add: upsert_new new_stage_def)
  have "micro \<epsilon> L L'"
  proof (rule micro.create [OF rows])
    show "drawn \<epsilon> (uuid_draws L) (uuid_draws L') (st_id r)"
      using L3 L4 f by (auto simp: drawn_def new_stage_def)
  qed (use L3 L4 f un in \<open>auto simp: frame_def request_log_def new_stage_def unstarted_def\<close>)
  moreover have "unstarted rid L'"
    using un L3 L4 f rows by (auto simp: unstarted_def new_stage_def)
  ultimately show ?thesis by (auto intro: steps_micro)
qed

lemma add_stages_steps:
  "inj (uuid4 \<epsilon>) \<Longrightarrow> ledger_ok \<epsilon> L \<Longrightarrow> unstarted rid L \<Longrightarrow>
     ofor (add_stage \<epsilon> rid project) ds L = Inr (xs, L') \<Longrightarrow> steps \<epsilon> L L'"
proof (induction ds arbitrary: L xs)
  case (Cons d ds)
  then obtain x L1 xs' where one: "add_stage \<epsilon> rid project d L = Inr (x, L1)"
    and rest: "ofor (add_stage \<epsilon> rid project) ds L1 = Inr (xs', L')" by (auto simp: op_simps)
  from add_stage_steps [OF Cons.prems(1-3) one] have s: "steps \<epsilon> L L1" "unstarted rid L1" by auto
  from Cons.IH [OF Cons.prems(1) steps_ok [OF s(1) Cons.prems(1,2)] s(2) rest] s(1)
  show ?case by (blast intro: steps_trans)
qed (simp add: oreturn_def)

lemma find_external_None:
  "find_external p e rs = None \<longleftrightarrow> (p, e) \<notin> (\<lambda>(_, p, e, _). (p, e)) ` set (map request_key rs)"
  by (auto simp: find_external_def find_None_iff request_key_def image_iff)

lemma create_request_steps:
  assumes inj: "inj (uuid4 \<epsilon>)" and ok: "ledger_ok \<epsilon> L"
    and new: "find_external project external (requests L) = None"
    and run: "create_request \<epsilon> project external plan sub ds names L = Inr (rid, L')"
  shows "steps \<epsilon> L L' \<and> (\<exists>new. request_log L' = request_log L @ (rid, project, external, plan) # new)"
proof -
  let ?rid = "uuid4 \<epsilon> (uuid_draws L)"
  define L2 where "L2 = L\<lparr>uuid_draws := Suc (uuid_draws L), clock_reads := Suc (clock_reads L)\<rparr>"
  define rq where "rq = \<lparr>rq_id = ?rid, rq_project = project, rq_external = external, rq_plan = plan,
    rq_subscribers = (case sub of None \<Rightarrow> [] | Some s \<Rightarrow> [s]), rq_created_at = clock \<epsilon> (clock_reads L)\<rparr>"
  have L2: "stage_rows L2 = stage_rows L" "registry L2 = registry L" "requests L2 = requests L"
      "uuid_draws L2 = Suc (uuid_draws L)" "sequence L2 = sequence L"
    and rq: "rq_id rq = ?rid" "rq_project rq = project" "rq_external rq = external"
    by (simp_all add: L2_def rq_def)
  from run obtain L3 L4 xs L5 where rid: "rid = ?rid" and ins: "insert_request rq L2 = Inr ((), L3)"
    and hist: "(case sub of None \<Rightarrow> oreturn () | Some s \<Rightarrow> insert_history ?rid (sub_id s) 1 s) L3 = Inr ((), L4)"
    and stages: "ofor (add_stage \<epsilon> ?rid project) ds L4 = Inr (xs, L5)"
    and log: "log_event \<epsilon> ?rid (Submitted_Event project external) L5 = Inr ((), L')"
    unfolding create_request_def obind_Inr olift_Inr oget_Inr oreturn_Inr new_uuid_def now_def L2_def rq_def
    by auto
  from ins have L3: "L3 = L2\<lparr>requests := requests L2 @ [rq]\<rparr>"
    by (auto simp: insert_request_def op_simps split: if_splits)
  have "micro \<epsilon> L L3"
  proof (rule micro.request [where i = ?rid and p = project and e = external and pl = "rq_plan rq"])
    show "drawn \<epsilon> (uuid_draws L) (uuid_draws L3) ?rid" using L2 L3 by (auto simp: drawn_def)
    show "(project, external) \<notin> (\<lambda>(_, p, e, _). (p, e)) ` set (request_log L)"
      using new find_external_None by (auto simp: request_log_def)
  qed (use L2 L3 rq in \<open>auto simp: request_log_def request_key_def\<close>)
  then have s3: "steps \<epsilon> L L3" by (rule steps_micro)
  have f4: "frame L3 L4"
    using hist by (rule quietD [rotated]) (auto intro!: quiet_intros split: option.splits)
  from s3 frame_steps [OF f4] have s4: "steps \<epsilon> L L4" by (blast intro: steps_trans)
  have "\<not> drawn \<epsilon> 0 (uuid_draws L) ?rid" using inj by (auto simp: drawn_def dest: injD)
  with ok have "?rid \<notin> st_request ` set (stage_rows L)" by (fastforce simp: ledger_ok_def)
  moreover have "?rid \<in> fst ` set (request_log L4)"
    using f4 L3 rq by (auto simp: frame_def request_log_def request_key_def)
  then have "?rid \<in> rq_id ` set (requests L4)"
    by (auto simp: request_log_def request_key_def image_iff)
  moreover have "stage_rows L4 = stage_rows L" using f4 L3 L2 by (simp add: frame_def)
  ultimately have "unstarted ?rid L4" unfolding unstarted_def by (metis imageI)
  from add_stages_steps [OF inj steps_ok [OF s4 inj ok] this stages] frame_steps [OF log_event_frame [OF log]]
  have s5: "steps \<epsilon> L4 L'" by (blast intro: steps_trans)
  have "request_log L4 = request_log L @ [(rid, project, external, plan)]"
    using f4 L3 L2 rid by (simp add: frame_def request_log_def request_key_def rq_def)
  with steps_log [OF s5] s4 s5 show ?thesis by (auto intro: steps_trans)
qed

lemma submit_steps:
  assumes inj: "inj (uuid4 \<epsilon>)" and ok: "ledger_ok \<epsilon> L"
    and run: "submit \<epsilon> pj ej plan sub L = Inr (rid, L')"
  shows "steps \<epsilon> L L'"
proof -
  from run obtain project external ds names where
    r: "(case find_external project external (requests L) of
       Some r \<Rightarrow>
         if json_eq (JObj (rq_plan r)) (JObj plan) then oreturn (rq_id r)
         else olift (Inl (ResourceError ''request ID already has different immutable inputs''))
     | None \<Rightarrow> create_request \<epsilon> project external plan sub ds names) L = Inr (rid, L')"
    unfolding submit_def obind_Inr olift_Inr oget_Inr by (auto simp: op_simps)
  show ?thesis
  proof (cases "find_external project external (requests L)")
    case (Some q)
    with r have "L' = L" by (auto simp: run_simps split: if_splits)
    then show ?thesis by simp
  next
    case None
    with r create_request_steps [OF inj ok None] show ?thesis by simp
  qed
qed

end
