(* ===== verification/Schedule_Refinement.thy ===== *)
theory Schedule_Refinement
  imports Resource_Refinement
begin

text \<open>
  \<open>Ledger.schedule\<close> is a sequence of micro steps: its working copy of the stages mirrors the stage
  table throughout, so what it grants fits beside every allocation of the table.
\<close>

section \<open>What the search promises the scheduler\<close>

lemma first_assignment_sound:
  assumes "first_assignment reg needs s = Inr (Some a)"
  shows "allocation_ok reg a \<and> all_fit reg (s_others s) a \<and> serves reg needs a
    \<and> set (keys a) \<inter> set (s_excluded s) = {}"
proof -
  from assms obtain as where "assignments reg needs s = Inr as"
    and "(case as of [] \<Rightarrow> None | a # _ \<Rightarrow> Some a) = Some a"
    by (auto simp: first_assignment_def err_simps)
  then have as: "assignments reg needs s = Inr as" "a \<in> set as" by (cases as; simp)+
  from as(1) obtain specs where specs: "specifications reg needs = Inr specs"
    by (auto simp: assignments_def err_simps)
  from assignments_exhaustive [OF specs, of s] as
  have mem: "a \<in> set (exhaustive reg (s_others s) (refs reg s specs) [])" by auto
  note sound = exhaustive_sound [OF mem specifications_ok [OF specs] allocation_ok_Nil leaf_keys_Nil(3)]
  from specs obtain ds where ds: "demands reg needs = Inr ds"
    and sp: "emap (\<lambda>d. ebind (selector_leaves reg (fst d) []) (\<lambda>ls. Inr (d, ls))) ds = Inr specs"
    by (auto simp: specifications_def err_simps)
  have "serves reg needs a"
    unfolding serves_def
  proof (intro exI [of _ ds] conjI ds ballI)
    fix d assume "d \<in> set ds"
    from emap_Inr_in [OF sp this] obtain ls where "(d, ls) \<in> set specs" by (auto simp: err_simps)
    with sound obtain lvs where lvs: "lvs \<in> set (choices_of reg s d)" "satisfies a d lvs" by fastforce
    then have "is_choice reg (fst d) lvs"
      by (cases "alternatives_ref reg (fst d) [] (s_priority s)")
        (auto simp: choices_of_def is_choice_def intro!: exI)
    with lvs show "\<exists>lvs. is_choice reg (fst d) lvs \<and> satisfies a d lvs" by blast
  qed
  with sound show ?thesis by simp
qed

lemma occupied_at_append [simp]: "occupied_at (as @ bs) x = occupied_at as x @ occupied_at bs x"
  by (induction as) (auto split: option.splits)

lemma units_sum_nonneg: "\<forall>b\<in>set bs. pos_units b \<Longrightarrow> 0 \<le> units_sum (occupied_at bs x)"
  by (induction bs) (auto simp: units_sum_def split: option.splits dest: pos_units_map_of)

lemma fits_prefix: "fits reg (as @ bs) x c \<Longrightarrow> 0 \<le> units_sum (occupied_at bs x) \<Longrightarrow> fits reg as x c"
  by (cases "occupied_at as x") (auto simp: fits_def clashes_def units_sum_def)

lemma all_fit_prefix: "all_fit reg (as @ bs) a \<Longrightarrow> \<forall>b\<in>set bs. pos_units b \<Longrightarrow> all_fit reg as a"
  using fits_prefix [OF _ units_sum_nonneg] by (fastforce simp: all_fit_def)

section \<open>The working copy mirrors the table\<close>

definition mirrors :: "stage \<Rightarrow> stage \<Rightarrow> bool" where
  "mirrors r s \<longleftrightarrow> same_core r s \<and> same_control r s \<and> st_cancel_requested s = st_cancel_requested r"

definition preds_passed :: "stage list \<Rightarrow> stage \<Rightarrow> bool" where
  "preds_passed rows s \<longleftrightarrow> (\<forall>p. predecessor_of rows s p \<longrightarrow> st_state p = Passed)"

text \<open>\<open>P\<close> holds the ids of the stages found ready and not settled yet.\<close>

definition sched_ok ::
    "env \<Rightarrow> registry \<Rightarrow> string list \<Rightarrow> string set \<Rightarrow> stage list \<Rightarrow> string list \<Rightarrow> ledger \<Rightarrow> bool" where
  "sched_ok \<epsilon> reg quarantine P mem active L \<longleftrightarrow>
     ledger_ok \<epsilon> L \<and> registry L = reg \<and> distinct (map st_id mem) \<and>
     (\<forall>s\<in>set mem. \<exists>r. find_stage (st_id s) (stage_rows L) = Some r \<and> mirrors r s) \<and>
     (\<forall>s\<in>set mem. \<forall>p. st_protection s = Some p \<longrightarrow> pos_units p) \<and>
     distinct active \<and> set active \<subseteq> st_id ` set mem \<and>
     (\<forall>s\<in>set mem. st_id s \<in> set active \<longrightarrow> st_state s \<noteq> Waiting) \<and>
     (\<forall>r\<in>set (stage_rows L). st_allocation r \<noteq> [] \<longrightarrow> st_id r \<in> set active) \<and>
     (\<forall>x. quarantined (stage_rows L) x \<longrightarrow> x \<in> set quarantine) \<and>
     (\<forall>s\<in>set mem. st_id s \<in> P \<longrightarrow> st_state s = Waiting \<and> preds_passed (stage_rows L) s)"

lemma mem_put_ids [simp]: "map st_id (mem_put s mem) = map st_id mem"
  by (induction mem) (auto simp: mem_put_def)

lemma mem_put_set: "distinct (map st_id mem) \<Longrightarrow> b \<in> set mem \<Longrightarrow> st_id s = st_id b \<Longrightarrow>
    set (mem_put s mem) = insert s {r \<in> set mem. st_id r \<noteq> st_id s}"
  by (auto simp: mem_put_def image_iff)

lemma preds_passed_upsert:
  assumes dist: "distinct (map st_id rows)" and find: "find_stage (st_id r) rows = Some old"
    and edge: "edge reg rows old r" and preds: "preds_passed rows t"
    and core: "st_request t' = st_request t" "st_after t' = st_after t"
  shows "preds_passed (upsert_stage r rows) t'"
  unfolding preds_passed_def
proof (intro allI impI)
  fix p assume p: "predecessor_of (upsert_stage r rows) t' p"
  from find find_stageD have old: "old \<in> set rows" by blast
  from p upsert_set [OF dist] have "p = r \<or> p \<in> set rows" by (auto simp: predecessor_of_def)
  then show "st_state p = Passed"
  proof
    assume "p = r"
    with p old core edge_core [OF edge] have "predecessor_of rows t old"
      by (auto simp: predecessor_of_def same_core_def)
    with preds edge_passed [OF edge] \<open>p = r\<close> show ?thesis by (auto simp: preds_passed_def)
  next
    assume "p \<in> set rows"
    with p preds core show ?thesis by (auto simp: predecessor_of_def preds_passed_def)
  qed
qed

lemma mirrors_upsert_self: "stamped s r \<Longrightarrow> mirrors r r"
  by (simp add: mirrors_def same_core_def same_control_def same_tokens_def)

lemma mirrors_refl [simp]: "mirrors r r"
  by (simp add: mirrors_def same_core_def same_control_def same_tokens_def)

text \<open>Saving a stage along any edge keeps the mirror.\<close>

lemma sched_save:
  assumes inj: "inj (uuid4 \<epsilon>)" and ok: "sched_ok \<epsilon> reg q P mem active L" and b: "b \<in> set mem"
    and edge: "\<And>old. find_stage (st_id b) (stage_rows L) = Some old \<Longrightarrow> mirrors old b \<Longrightarrow> edge reg (stage_rows L) old b'"
    and id: "same_core b b'" and save: "save \<epsilon> b' L = Inr (r, L')"
    and prot: "\<And>p. st_protection b' = Some p \<Longrightarrow> pos_units p"
    and active': "set active' = set active \<or> set active' = insert (st_id b) (set active)" "distinct active'"
    and notwait: "st_id b \<in> set active' \<Longrightarrow> st_state b' \<noteq> Waiting"
    and alloc: "st_allocation b' \<noteq> [] \<Longrightarrow> st_id b \<in> set active'"
    and quar: "st_state b' = Recovery_Required \<Longrightarrow> st_state b = Recovery_Required \<and> st_allocation b' = st_allocation b"
    and pend: "P' \<subseteq> P" "st_id b \<in> P' \<Longrightarrow> st_state b' = Waiting"
  shows "steps \<epsilon> L L' \<and> stamped b' r \<and> sched_ok \<epsilon> reg q P' (mem_put r mem) active' L'"
proof -
  from ok b obtain old where old: "find_stage (st_id b) (stage_rows L) = Some old" "mirrors old b"
    by (auto simp: sched_ok_def)
  have idb: "st_id b' = st_id b" using id by (simp add: same_core_def)
  have ok1: "ledger_ok \<epsilon> L" "registry L = reg" "distinct (map st_id mem)" using ok by (simp_all add: sched_ok_def)
  then have dist: "distinct (map st_id (stage_rows L))" by (simp add: ledger_ok_def)
  have e: "edge (registry L) (stage_rows L) old b'" using edge [OF old] ok1(2) by simp
  have po: "prot_ok old b'" using prot by (auto simp: prot_ok_def)
  from save_steps [OF save _ e po] old idb
  have s: "steps \<epsilon> L L'" "stamped b' r" "stage_rows L' = upsert_stage r (stage_rows L)" "registry L' = registry L"
    by auto
  note f = stamped_fields [OF s(2)]
  have er: "edge (registry L) (stage_rows L) old r" by (rule edge_stamped [OF e s(2)])
  have idr: "st_id r = st_id b" using f idb by simp
  have findr: "find_stage (st_id r) (stage_rows L) = Some old" using old idr by simp
  have mem: "set (mem_put r mem) = insert r {t \<in> set mem. st_id t \<noteq> st_id b}"
    using mem_put_set [OF ok1(3) b idr] idr by simp
  have rows: "set (stage_rows L') = insert r {t \<in> set (stage_rows L). st_id t \<noteq> st_id b}"
    using upsert_set [OF dist, of r] s(3) idr by simp
  have "\<forall>t\<in>set (mem_put r mem). \<exists>t'. find_stage (st_id t) (stage_rows L') = Some t' \<and> mirrors t' t"
    using ok idr unfolding mem s(3) by (auto simp: sched_ok_def)
  moreover have "\<forall>t\<in>set (mem_put r mem). \<forall>p. st_protection t = Some p \<longrightarrow> pos_units p"
    using ok prot f unfolding mem by (auto simp: sched_ok_def)
  moreover have "st_id ` set (mem_put r mem) = st_id ` set mem"
    using mem_put_ids [of r mem] by (metis set_map)
  then have "set active' \<subseteq> st_id ` set (mem_put r mem)"
    using ok active'(1) b by (auto simp: sched_ok_def)
  moreover have "\<forall>t\<in>set (mem_put r mem). st_id t \<in> set active' \<longrightarrow> st_state t \<noteq> Waiting"
    using ok active'(1) notwait f idr unfolding mem by (auto simp: sched_ok_def)
  moreover have "\<forall>t\<in>set (stage_rows L'). st_allocation t \<noteq> [] \<longrightarrow> st_id t \<in> set active'"
    using ok active'(1) alloc f idr unfolding rows by (auto simp: sched_ok_def)
  moreover have "quarantined (stage_rows L') x \<Longrightarrow> quarantined (stage_rows L) x" for x
  proof -
    assume "quarantined (stage_rows L') x"
    then obtain t where t: "t \<in> set (stage_rows L')" "st_state t = Recovery_Required" "x \<in> set (keys (st_allocation t))"
      by (auto simp: quarantined_def)
    show "quarantined (stage_rows L) x"
    proof (cases "t = r")
      case True
      with t f quar old have "st_state old = Recovery_Required" "st_allocation old = st_allocation r"
        by (auto simp: mirrors_def same_control_def)
      with t True find_stageD [OF old(1)] show ?thesis by (auto simp: quarantined_def)
    next
      case False
      with t rows show ?thesis by (auto simp: quarantined_def)
    qed
  qed
  moreover have "\<forall>t\<in>set (mem_put r mem). st_id t \<in> P' \<longrightarrow> st_state t = Waiting \<and> preds_passed (stage_rows L') t"
  proof (intro ballI impI)
    fix t assume t: "t \<in> set (mem_put r mem)" "st_id t \<in> P'"
    show "st_state t = Waiting \<and> preds_passed (stage_rows L') t"
    proof (cases "t = r")
      case True
      with t idr pend f have w: "st_state t = Waiting" by auto
      from t True idr pend ok b have "preds_passed (stage_rows L) b" by (auto simp: sched_ok_def)
      from preds_passed_upsert [OF dist findr er this, of t] True f id s(3) w
      show ?thesis by (simp add: same_core_def)
    next
      case False
      with t mem have "t \<in> set mem" by auto
      with t pend(1) ok have "st_state t = Waiting" "preds_passed (stage_rows L) t" by (auto simp: sched_ok_def)
      with preds_passed_upsert [OF dist findr er _ refl refl] s(3) show ?thesis by auto
    qed
  qed
  moreover have "ledger_ok \<epsilon> L'" by (rule steps_ok [OF s(1) inj ok1(1)])
  ultimately show ?thesis
    using s ok active'(2) unfolding sched_ok_def by auto
qed

lemma sched_quiet:
  assumes "inj (uuid4 \<epsilon>)" "sched_ok \<epsilon> reg q P mem active L" "frame L L'"
  shows "sched_ok \<epsilon> reg q P mem active L'"
  using assms steps_ok [OF frame_steps [OF assms(3)] assms(1)]
  by (auto simp: sched_ok_def frame_def)

text \<open>The three uses of \<open>sched_save\<close>: a touch, a skip and a grant.\<close>

definition touches :: "stage \<Rightarrow> stage \<Rightarrow> bool" where
  "touches b b' \<longleftrightarrow> same_core b b' \<and> same_control b b' \<and> st_cancel_requested b' = st_cancel_requested b"

lemma mirrors_touch: "mirrors old b \<Longrightarrow> touches b b' \<Longrightarrow> edge reg rows old b'"
  by (rule edge.touch) (auto simp: mirrors_def touches_def same_core_def same_control_def same_tokens_def)

lemma sched_touch:
  assumes inj: "inj (uuid4 \<epsilon>)" and ok: "sched_ok \<epsilon> reg q P mem active L" and b: "b \<in> set mem"
    and t: "touches b b'" and save: "save \<epsilon> b' L = Inr (r, L')"
    and prot: "\<And>p. st_protection b' = Some p \<Longrightarrow> pos_units p" and P': "P' \<subseteq> P"
  shows "steps \<epsilon> L L' \<and> stamped b' r \<and> sched_ok \<epsilon> reg q P' (mem_put r mem) active L'"
proof (rule sched_save [OF inj ok b _ _ save prot _ _ _ _ _ P'])
  show "edge reg (stage_rows L) old b'" if "mirrors old b" for old
    using mirrors_touch [OF that t] .
  show "same_core b b'" using t by (simp add: touches_def)
  show "distinct active" "st_id b \<in> set active \<Longrightarrow> st_state b' \<noteq> Waiting"
    using ok b t by (auto simp: sched_ok_def touches_def same_control_def)
  show "st_id b \<in> set active" if "st_allocation b' \<noteq> []"
  proof -
    from ok b obtain old where old: "find_stage (st_id b) (stage_rows L) = Some old" "mirrors old b"
      by (auto simp: sched_ok_def)
    with that t have "st_allocation old \<noteq> []" by (auto simp: mirrors_def touches_def same_control_def)
    with ok old find_stageD [OF old(1)] show ?thesis by (auto simp: sched_ok_def)
  qed
  show "st_state b = Recovery_Required \<and> st_allocation b' = st_allocation b" if "st_state b' = Recovery_Required"
    using t that by (auto simp: touches_def same_control_def)
  show "st_state b' = Waiting" if "st_id b \<in> P'"
    using ok b t that P' by (auto simp: sched_ok_def touches_def same_control_def)
qed auto

section \<open>The scan\<close>

lemma predecessors_Inr:
  assumes "predecessors s siblings = Inr ps"
  shows "set ps = {p \<in> set siblings. depends_on (st_after s) (st_name p) = Inr True}"
proof -
  from assms obtain pss where pss: "emap (\<lambda>p. ebind (depends_on (st_after s) (st_name p)) (\<lambda>b. Inr (if b then [p] else []))) siblings = Inr pss"
    and ps: "ps = concat pss" by (auto simp: predecessors_def err_simps)
  show ?thesis
  proof (intro equalityI subsetI)
    fix p assume "p \<in> set ps"
    then obtain l where "l \<in> set pss" "p \<in> set l" by (auto simp: ps)
    with emap_Inr_set [OF pss this(1)] show "p \<in> {p \<in> set siblings. depends_on (st_after s) (st_name p) = Inr True}"
      by (auto simp: err_simps split: if_splits)
  next
    fix p assume p: "p \<in> {p \<in> set siblings. depends_on (st_after s) (st_name p) = Inr True}"
    with emap_Inr_in [OF pss, of p] have "[p] \<in> set pss" by (auto simp: err_simps)
    then show "p \<in> set ps" unfolding ps by force
  qed
qed

lemma stages_of_set: "rid \<noteq> [] \<Longrightarrow> set (stages_of rid L) = {r \<in> set (stage_rows L). st_request r = rid}"
  by (auto simp: stages_query_def)

definition fresh_ids :: "env \<Rightarrow> bool" where
  "fresh_ids \<epsilon> \<longleftrightarrow> inj (uuid4 \<epsilon>) \<and> (\<forall>k. uuid4 \<epsilon> k \<noteq> [])"

lemma fresh_inj: "fresh_ids \<epsilon> \<Longrightarrow> inj (uuid4 \<epsilon>)"
  by (simp add: fresh_ids_def)

lemma sched_request:
  assumes "fresh_ids \<epsilon>" "sched_ok \<epsilon> reg q P mem active L" "s \<in> set mem"
  shows "st_request s \<noteq> []"
proof -
  from assms obtain r where r: "find_stage (st_id s) (stage_rows L) = Some r" "mirrors r s"
    by (auto simp: sched_ok_def)
  with find_stageD [OF r(1)] assms(2) have "st_request s \<in> rq_id ` set (requests L)"
    by (auto simp: sched_ok_def ledger_ok_def mirrors_def same_core_def)
  with assms(2) obtain k where "st_request s = uuid4 \<epsilon> k" by (auto simp: sched_ok_def ledger_ok_def drawn_def)
  with assms(1) show ?thesis by (auto simp: fresh_ids_def)
qed

lemma sched_mem_put:
  assumes ok: "sched_ok \<epsilon> reg q P mem active L" and b: "b \<in> set mem" and t: "touches b b'"
    and prot: "st_protection b' = st_protection b" and P': "P' = P \<or> P' = insert (st_id b) P"
    and new: "st_id b \<in> P' \<Longrightarrow> st_state b = Waiting \<and> preds_passed (stage_rows L) b"
  shows "sched_ok \<epsilon> reg q P' (mem_put b' mem) active L"
proof -
  have dist: "distinct (map st_id mem)" using ok by (simp add: sched_ok_def)
  have id: "st_id b' = st_id b" using t by (simp add: touches_def same_core_def)
  note mem = mem_put_set [OF dist b id]
  from ok b obtain old where old: "find_stage (st_id b) (stage_rows L) = Some old" "mirrors old b"
    by (auto simp: sched_ok_def)
  have "mirrors old b'" using old(2) t
    by (auto simp: mirrors_def touches_def same_core_def same_control_def same_tokens_def)
  moreover have "preds_passed (stage_rows L) b \<Longrightarrow> preds_passed (stage_rows L) b'"
    using t by (auto simp: preds_passed_def predecessor_of_def touches_def same_core_def)
  moreover have "st_id ` set (mem_put b' mem) = st_id ` set mem"
    using mem_put_ids [of b' mem] by (metis set_map)
  moreover have "st_state b' = st_state b" using t by (simp add: touches_def same_control_def)
  ultimately show ?thesis
    using ok b old id P' new prot unfolding sched_ok_def mem by auto
qed

lemma mark_ready_Inr:
  assumes "mark_ready \<epsilon> s L = Inr (s', L')"
  shows "frame L L' \<and> touches s s' \<and> st_protection s' = st_protection s \<and> st_ready_seq s' \<noteq> None"
proof -
  have "quiet (mark_ready \<epsilon> s)" unfolding mark_ready_def by (intro quiet_intros)
  from quietD [OF this assms] have "frame L L'" .
  with assms show ?thesis
    by (auto simp: mark_ready_def op_simps touches_def same_core_def same_control_def same_tokens_def split: if_splits)
qed

lemma mem_put_mid:
  assumes "distinct (map st_id (xs @ s # ys))" "st_id s' = st_id s"
  shows "mem_put s' (xs @ s # ys) = xs @ s' # ys"
proof -
  have *: "st_id s \<notin> st_id ` set xs" "st_id s \<notin> st_id ` set ys" using assms(1) by auto
  have "mem_put s' zs = zs" if "st_id s \<notin> st_id ` set zs" for zs
    unfolding mem_put_def using that assms(2) by (intro map_idI) (metis imageI)
  with * have "mem_put s' xs = xs" "mem_put s' ys = ys" by auto
  with assms(2) show ?thesis by (simp add: mem_put_def)
qed

lemma unready_touch: "touches s ((unready s)\<lparr>st_reason := r\<rparr>)"
  by (simp add: touches_def unready_def same_core_def same_control_def same_tokens_def)

text \<open>One round of the scan.\<close>

lemma scan_stage_ok:
  assumes fresh: "fresh_ids \<epsilon>" and ok: "sched_ok \<epsilon> reg q P (xs @ s # ys) active L" and notP: "st_id s \<notin> P"
    and run: "scan_stage \<epsilon> unavailable s L = Inr ((s', ready), L')"
  shows "steps \<epsilon> L L' \<and> st_id s' = st_id s
     \<and> sched_ok \<epsilon> reg q (if ready then insert (st_id s') P else P) (xs @ s' # ys) active L'"
proof -
  note inj = fresh_inj [OF fresh]
  let ?mem = "xs @ s # ys"
  have dist: "distinct (map st_id ?mem)" using ok by (simp add: sched_ok_def)
  have s: "s \<in> set ?mem" by simp
  show ?thesis
  proof (cases "st_state s = Waiting")
    case False
    with run have "s' = s" "\<not> ready" "L' = L" by (auto simp: scan_stage_def op_simps)
    with ok show ?thesis by simp
  next
    case waiting: True
    from ok s waiting have notact: "st_id s \<notin> set active" by (auto simp: sched_ok_def)
    from run waiting obtain ps where ps: "predecessors s (stages_of (st_request s) L) = Inr ps"
      by (auto simp: scan_stage_def run_simps)
    have preds: "p \<in> set ps \<longleftrightarrow> predecessor_of (stage_rows L) s p" for p
      unfolding predecessors_Inr [OF ps] stages_of_set [OF sched_request [OF fresh ok s]]
      by (auto simp: predecessor_of_def)
    consider (failed) "list_ex failed_predecessor ps"
      | (parked) rs where "\<not> list_ex failed_predecessor ps"
          "save \<epsilon> ((unready s)\<lparr>st_reason := rs\<rparr>) L = Inr (s', L')" "\<not> ready"
      | (isready) "\<not> list_ex (\<lambda>p. st_state p \<noteq> Passed) ps" "mark_ready \<epsilon> s L = Inr (s', L')" "ready"
      using run waiting ps
      by (auto simp: scan_stage_def run_simps split: if_splits)
    then show ?thesis
    proof cases
      case failed
      then obtain p where p: "p \<in> set ps" "failed_predecessor p" by (auto simp: list_ex_iff)
      let ?b = "\<lambda>t. (unready s)\<lparr>st_state := Skipped, st_finished_at := Some t, st_reason := Some ''dependency_failed''\<rparr>"
      from failed run waiting ps obtain t L1 where t: "now \<epsilon> L = Inr (t, L1)"
        and save: "save \<epsilon> (?b t) L1 = Inr (s', L')" and nr: "\<not> ready"
        by (auto simp: scan_stage_def run_simps)
      note fr = now_frame [OF t]
      have ok1: "sched_ok \<epsilon> reg q P ?mem active L1" by (rule sched_quiet [OF inj ok fr])
      have "steps \<epsilon> L1 L' \<and> stamped (?b t) s' \<and> sched_ok \<epsilon> reg q P (mem_put s' ?mem) active L'"
      proof (rule sched_save [OF inj ok1 s _ _ save])
        fix old assume old: "mirrors old s"
        show "edge reg (stage_rows L1) old (?b t)"
        proof (rule edge.skip [where p = p])
          show "predecessor_of (stage_rows L1) old p"
            using p preds old fr by (auto simp: predecessor_of_def mirrors_def same_core_def frame_def)
        qed (use old waiting p in \<open>auto simp: mirrors_def same_core_def same_control_def same_tokens_def unready_def\<close>)
      next
        show "st_id s \<in> set active" if "st_allocation (?b t) \<noteq> []"
        proof -
          from ok s obtain old where old: "find_stage (st_id s) (stage_rows L) = Some old" "mirrors old s"
            by (auto simp: sched_ok_def)
          with that have "st_allocation old \<noteq> []" by (auto simp: mirrors_def same_control_def unready_def)
          with ok old find_stageD [OF old(1)] show ?thesis by (auto simp: sched_ok_def)
        qed
      qed (use ok notP in \<open>auto simp: same_core_def unready_def sched_ok_def\<close>)
      moreover from this have "st_id s' = st_id s" by (auto simp: unready_def dest!: stamped_fields)
      ultimately show ?thesis
        using nr mem_put_mid [OF dist] frame_steps [OF fr] by (auto intro: steps_trans)
    next
      case (parked rs)
      from sched_touch [OF inj ok s unready_touch parked(2), of P]
      have "steps \<epsilon> L L' \<and> stamped ((unready s)\<lparr>st_reason := rs\<rparr>) s' \<and> sched_ok \<epsilon> reg q P (mem_put s' ?mem) active L'"
        by (simp add: unready_def)
      moreover from this have "st_id s' = st_id s" by (auto simp: unready_def dest!: stamped_fields)
      ultimately show ?thesis using parked mem_put_mid [OF dist] by auto
    next
      case isready
      from mark_ready_Inr [OF isready(2)] have m: "frame L L'" "touches s s'" "st_protection s' = st_protection s"
        by auto
      have ok1: "sched_ok \<epsilon> reg q P ?mem active L'" by (rule sched_quiet [OF inj ok m(1)])
      have "preds_passed (stage_rows L') s"
        using isready(1) preds m(1) by (auto simp: preds_passed_def list_ex_iff frame_def)
      with waiting have "sched_ok \<epsilon> reg q (insert (st_id s) P) (mem_put s' ?mem) active L'"
        by (intro sched_mem_put [OF ok1 s m(2,3)]) auto
      moreover have "st_id s' = st_id s" using m(2) by (simp add: touches_def same_core_def)
      ultimately show ?thesis
        using isready(3) mem_put_mid [OF dist] frame_steps [OF m(1)] by auto
    qed
  qed
qed

lemma scan_ok:
  assumes fresh: "fresh_ids \<epsilon>"
  shows "ofor (scan_stage \<epsilon> unavailable) ys L = Inr (scanned, L') \<Longrightarrow>
    sched_ok \<epsilon> reg q P (xs @ ys) active L \<Longrightarrow> P \<inter> st_id ` set ys = {} \<Longrightarrow>
    steps \<epsilon> L L' \<and> map (st_id \<circ> fst) scanned = map st_id ys \<and>
    sched_ok \<epsilon> reg q (P \<union> st_id ` fst ` set (filter snd scanned)) (xs @ map fst scanned) active L'"
proof (induction ys arbitrary: L xs P scanned)
  case Nil
  then show ?case by (simp add: oreturn_def)
next
  case (Cons s ys)
  from Cons.prems(1) obtain s' ready L1 rest where one: "scan_stage \<epsilon> unavailable s L = Inr ((s', ready), L1)"
    and rest: "ofor (scan_stage \<epsilon> unavailable) ys L1 = Inr (rest, L')" and sc: "scanned = (s', ready) # rest"
    by (auto simp: op_simps)
  let ?P = "if ready then insert (st_id s') P else P"
  from scan_stage_ok [OF fresh Cons.prems(2) _ one] Cons.prems(3)
  have st: "steps \<epsilon> L L1" "st_id s' = st_id s" "sched_ok \<epsilon> reg q ?P ((xs @ [s']) @ ys) active L1" by auto
  from Cons.prems(2) have "st_id s \<notin> st_id ` set ys" by (simp add: sched_ok_def)
  with Cons.prems(3) st(2) have "?P \<inter> st_id ` set ys = {}" by auto
  from Cons.IH [OF rest st(3) this] st(1,2) sc show ?case
    by (auto intro: steps_trans)
qed

section \<open>Occupied leaves\<close>

definition held_by :: "stage list \<Rightarrow> string \<Rightarrow> allocation" where
  "held_by rows i = (case find_stage i rows of None \<Rightarrow> [] | Some s \<Rightarrow> st_allocation s)"

lemma held_by_row: "distinct (map st_id rows) \<Longrightarrow> s \<in> set rows \<Longrightarrow> held_by rows (st_id s) = st_allocation s"
  by (simp add: held_by_def find_stage_distinct)

lemma others_of_held:
  assumes "distinct (map st_id rows)"
  shows "others_of i rows = map (held_by rows) (filter (\<lambda>j. j \<noteq> i) (map st_id rows))"
  using held_by_row [OF assms] by (simp add: others_of_def filter_map o_def)

lemma sched_held:
  assumes ok: "sched_ok \<epsilon> reg q P mem active L"
  shows "map st_allocation (mem_all active mem) = map (held_by (stage_rows L)) active"
proof -
  have dist: "distinct (map st_id mem)" using ok by (simp add: sched_ok_def)
  have "\<exists>s. find_stage i mem = Some s \<and> st_allocation s = held_by (stage_rows L) i" if "i \<in> set active" for i
  proof -
    from ok that obtain s where s: "s \<in> set mem" "st_id s = i" unfolding sched_ok_def by blast
    with ok obtain r where "find_stage i (stage_rows L) = Some r" "mirrors r s" unfolding sched_ok_def by blast
    with s find_stage_distinct [OF dist s(1)] show ?thesis
      by (simp add: held_by_def mirrors_def same_control_def)
  qed
  then have "\<forall>i\<in>set active. \<exists>s. find_stage i mem = Some s \<and> st_allocation s = held_by (stage_rows L) i" by blast
  then show ?thesis by (induction active) (auto simp: mem_all_def)
qed

lemma sched_fits:
  assumes ok: "sched_ok \<epsilon> reg q P mem active L" and i: "i \<notin> set active"
  shows "all_fit reg (map st_allocation (mem_all active mem)) a = all_fit reg (others_of i (stage_rows L)) a"
proof -
  let ?h = "held_by (stage_rows L)"
  let ?ids = "filter (\<lambda>j. j \<noteq> i) (map st_id (stage_rows L))"
  have dist: "distinct (map st_id (stage_rows L))" using ok by (simp add: sched_ok_def ledger_ok_def)
  have in_active: "j \<in> set active" if "?h j \<noteq> []" for j
    using that ok find_stageD [of j "stage_rows L"] by (auto simp: held_by_def sched_ok_def split: option.splits)
  have in_ids: "j \<in> st_id ` set (stage_rows L)" if "?h j \<noteq> []" for j
    using that find_stageD [of j "stage_rows L"] by (force simp: held_by_def split: option.splits)
  have "set (filter (\<lambda>j. ?h j \<noteq> []) active) = set (filter (\<lambda>j. ?h j \<noteq> []) ?ids)"
    using in_active in_ids i by auto
  moreover have "distinct active" using ok by (simp add: sched_ok_def)
  ultimately have "mset (filter (\<lambda>j. ?h j \<noteq> []) active) = mset (filter (\<lambda>j. ?h j \<noteq> []) ?ids)"
    using dist by (subst set_eq_iff_mset_eq_distinct [symmetric]) auto
  then have "mset (map ?h (filter (\<lambda>j. ?h j \<noteq> []) active)) = mset (map ?h (filter (\<lambda>j. ?h j \<noteq> []) ?ids))"
    by (simp only: mset_map)
  then have "mset (filter (\<lambda>a. a \<noteq> []) (map ?h active)) = mset (filter (\<lambda>a. a \<noteq> []) (map ?h ?ids))"
    by (simp only: filter_map o_def)
  from all_fit_mset [OF this, of reg a] show ?thesis
    unfolding all_fit_nonempty sched_held [OF ok] others_of_held [OF dist] .
qed

section \<open>Granting one stage\<close>

lemma find_mem: "find_stage i mem = Some s \<Longrightarrow> s \<in> set mem \<and> st_id s = i"
  by (rule find_stageD)

lemma grant_ok:
  assumes inj: "inj (uuid4 \<epsilon>)" and ok: "sched_ok \<epsilon> reg q P mem active L"
    and s: "find_stage i mem = Some s" "i \<in> P"
    and chosen: "first_assignment reg (st_needs s) srch = Inr (Some a)"
    and srch: "s_others srch = map st_allocation (mem_all active mem) @ prot" "s_excluded srch = q"
      "\<forall>p\<in>set prot. pos_units p"
    and run: "grant \<epsilon> reg a s L = Inr (s', L')"
  shows "steps \<epsilon> L L' \<and> st_id s' = i \<and> st_state s' = Granted \<and> st_allocation s' = a \<and>
    sched_ok \<epsilon> reg q (P - {i}) (mem_put s' mem) (active @ [i]) L'"
proof -
  from find_mem [OF s(1)] have mem: "s \<in> set mem" "st_id s = i" by auto
  with ok s(2) have waiting: "st_state s = Waiting" and preds: "preds_passed (stage_rows L) s"
    and notact: "i \<notin> set active" by (auto simp: sched_ok_def)
  note sound = first_assignment_sound [OF chosen]
  define b where "b = (\<lambda>launch maintenance t incs. s\<lparr>st_state := Granted, st_allocation := a, st_epoch := Suc (st_epoch s),
                      st_launch_token := Some launch, st_maintenance_token := Some maintenance,
                      st_granted_at := Some t, st_reason := None, st_incarnations := incs,
                      st_granted_allocation := a, st_protection := None\<rparr>)"
  from run obtain launch L1 maintenance L2 t L3 incs L4 caps where
    q: "new_secret \<epsilon> L = Inr (launch, L1)" "new_secret \<epsilon> L1 = Inr (maintenance, L2)" "now \<epsilon> L2 = Inr (t, L3)"
    and save: "save \<epsilon> (b launch maintenance t incs) L3 = Inr (s', L4)"
    and log: "log_event \<epsilon> (st_id s') (Granted_Event a (st_epoch s') caps) L4 = Inr ((), L')"
    unfolding grant_def b_def by (auto simp: op_simps)
  have fr: "frame L L3"
    using q quietD [OF quiet_draws(3)] now_frame by (blast intro: frame_trans)
  have ok3: "sched_ok \<epsilon> reg q P mem active L3" by (rule sched_quiet [OF inj ok fr])
  let ?b = "b launch maintenance t incs"
  have "steps \<epsilon> L3 L4 \<and> stamped ?b s' \<and> sched_ok \<epsilon> reg q (P - {i}) (mem_put s' mem) (active @ [i]) L4"
  proof (rule sched_save [OF inj ok3 mem(1) _ _ save])
    fix old assume old: "find_stage (st_id s) (stage_rows L3) = Some old" "mirrors old s"
    show "edge reg (stage_rows L3) old ?b"
    proof (rule edge.grant)
      have "all_fit reg (map st_allocation (mem_all active mem)) a"
        using sound srch all_fit_prefix by metis
      with sched_fits [OF ok3 notact] old mem
      show "all_fit reg (others_of (st_id old) (stage_rows L3)) (st_allocation ?b)"
        by (simp add: b_def mirrors_def same_core_def)
      show "\<not> quarantined (stage_rows L3) x" if "x \<in> set (keys (st_allocation ?b))" for x
        using that sound srch(2) ok3 by (auto simp: b_def sched_ok_def)
      show "st_state p = Passed" if "predecessor_of (stage_rows L3) old p" for p
        using that preds fr old by (auto simp: preds_passed_def predecessor_of_def mirrors_def same_core_def frame_def)
    qed (use old waiting sound in \<open>auto simp: b_def mirrors_def same_core_def same_control_def\<close>)
  qed (use mem notact ok in \<open>auto simp: b_def same_core_def sched_ok_def\<close>)
  moreover from this have "st_id s' = i" "st_state s' = Granted" "st_allocation s' = a"
    using mem by (auto simp: b_def dest!: stamped_fields)
  ultimately show ?thesis
    using frame_steps [OF fr] frame_steps [OF log_event_frame [OF log]]
      sched_quiet [OF inj _ log_event_frame [OF log]] by (blast intro: steps_trans)
qed

lemma bypass_ok:
  assumes inj: "inj (uuid4 \<epsilon>)" and ok: "sched_ok \<epsilon> reg q P mem active L"
    and run: "bypass \<epsilon> n i mem L = Inr (mem', L')"
  shows "steps \<epsilon> L L' \<and> map st_id mem' = map st_id mem \<and> sched_ok \<epsilon> reg q P mem' active L'"
proof (cases "find_stage i mem")
  case None
  with run ok show ?thesis by (auto simp: bypass_def op_simps)
next
  case (Some b)
  note b = find_mem [OF Some]
  show ?thesis
  proof (cases "st_state b = Waiting \<and> ready_number b < n")
    case True
    with run Some obtain c r where save: "save \<epsilon> (b\<lparr>st_bypass_count := c\<rparr>) L = Inr (r, L')" and mem': "mem' = mem_put r mem"
      by (auto simp: bypass_def op_simps)
    have "touches b (b\<lparr>st_bypass_count := c\<rparr>)"
      by (simp add: touches_def same_core_def same_control_def same_tokens_def)
    from sched_touch [OF inj ok conjunct1 [OF b] this save _ subset_refl] ok b mem' show ?thesis
      by (auto simp: sched_ok_def)
  next
    case False
    with run Some ok show ?thesis by (auto simp: bypass_def op_simps)
  qed
qed

lemma bypasses_ok:
  assumes inj: "inj (uuid4 \<epsilon>)"
  shows "sched_ok \<epsilon> reg q P mem active L \<Longrightarrow> ofold (bypass \<epsilon> n) ids mem L = Inr (mem', L') \<Longrightarrow>
    steps \<epsilon> L L' \<and> map st_id mem' = map st_id mem \<and> sched_ok \<epsilon> reg q P mem' active L'"
proof (induction ids arbitrary: mem L)
  case (Cons i ids)
  from Cons.prems(2) obtain mem1 L1 where one: "bypass \<epsilon> n i mem L = Inr (mem1, L1)"
    and rest: "ofold (bypass \<epsilon> n) ids mem1 L1 = Inr (mem', L')" by (auto simp: op_simps)
  from bypass_ok [OF inj Cons.prems(1) one] Cons.IH [OF _ rest] show ?case by (auto intro: steps_trans)
qed (simp add: oreturn_def)

lemma protect_pos:
  assumes "protect reg srch freed seen s = Inr c" "\<And>p. st_protection s = Some p \<Longrightarrow> pos_units p" "c = Some p"
  shows "pos_units p"
  using assms first_assignment_sound
  by (fastforce simp: protect_def err_simps allocation_ok_def split: option.splits if_splits)

lemma park_ok:
  assumes inj: "inj (uuid4 \<epsilon>)" and ok: "sched_ok \<epsilon> reg q P mem active L" and s: "s \<in> set mem" and P': "P' \<subseteq> P"
    and run: "park \<epsilon> reg srch freed seen owners s L = Inr ((s', candidate), L')"
  shows "steps \<epsilon> L L' \<and> sched_ok \<epsilon> reg q P' (mem_put s' mem) active L' \<and>
    (\<forall>p. candidate = Some p \<longrightarrow> pos_units p)"
proof -
  define b where "b = (\<lambda>possible bs. s\<lparr>st_protection := candidate,
      st_reason := Some (if possible = (None :: allocation option) then ''recovery_blocked'' else ''resource_wait''),
      st_blockers := bs\<rparr>)"
  from run obtain L1 possible bs where prot: "protect reg srch freed seen s = Inr candidate"
    and ev: "(case candidate of None \<Rightarrow> oreturn ()
              | Some p \<Rightarrow> if same_allocation p (st_protection s) then oreturn ()
                         else log_event \<epsilon> (st_id s) (Protected_Event p)) L = Inr ((), L1)"
    and save: "save \<epsilon> (b possible bs) L1 = Inr (s', L')"
    unfolding park_def b_def by (auto simp: op_simps)
  have fr: "frame L L1"
    using ev by (rule quietD [rotated]) (auto intro!: quiet_intros split: option.splits)
  have pos: "pos_units p" if "candidate = Some p" for p
    using protect_pos [OF prot _ that] ok s by (auto simp: sched_ok_def)
  have "touches s (b possible bs)"
    by (simp add: b_def touches_def same_core_def same_control_def same_tokens_def)
  from sched_touch [OF inj sched_quiet [OF inj ok fr] s this save _ P'] pos
  have "steps \<epsilon> L1 L' \<and> sched_ok \<epsilon> reg q P' (mem_put s' mem) active L'" by (auto simp: b_def)
  with pos frame_steps [OF fr] show ?thesis by (auto intro: steps_trans)
qed

section \<open>The pass over the ready stages\<close>

definition pass_ok :: "env \<Rightarrow> registry \<Rightarrow> string list \<Rightarrow> string set \<Rightarrow> sched \<Rightarrow> ledger \<Rightarrow> bool" where
  "pass_ok \<epsilon> reg q P sc L \<longleftrightarrow>
     sched_ok \<epsilon> reg q P (sc_mem sc) (sc_active sc) L \<and> (\<forall>p\<in>set (sc_protection sc). pos_units p)"

lemma schedule_stage_ok:
  assumes inj: "inj (uuid4 \<epsilon>)" and ok: "pass_ok \<epsilon> reg q P sc L" and i: "i \<in> P"
    and run: "schedule_stage \<epsilon> reg q freed seen ready i sc L = Inr (sc', L')"
  shows "steps \<epsilon> L L' \<and> pass_ok \<epsilon> reg q (P - {i}) sc' L'"
proof (cases "find_stage i (sc_mem sc)")
  case None
  with run ok have "sc' = sc" "L' = L" by (auto simp: schedule_stage_def op_simps)
  with ok show ?thesis by (auto simp: pass_ok_def sched_ok_def)
next
  case (Some s)
  note mem = find_mem [OF Some]
  from ok have ok': "sched_ok \<epsilon> reg q P (sc_mem sc) (sc_active sc) L" by (simp add: pass_ok_def)
  let ?owners = "mem_all (sc_active sc) (sc_mem sc)"
  from run Some obtain counts chosen where
    chosen: "first_assignment reg (st_needs s) \<lparr>s_others = map st_allocation ?owners @ sc_protection sc,
       s_excluded = q, s_priority = counts, s_required = []\<rparr> = Inr chosen"
    and rest: "(case chosen of
            Some alloc \<Rightarrow>
              obind (grant \<epsilon> reg alloc s) (\<lambda>s'.
              obind (ofold (bypass \<epsilon> (ready_number s')) ready (mem_put s' (sc_mem sc))) (\<lambda>mem'.
              oreturn (sc\<lparr>sc_mem := mem', sc_active := sc_active sc @ [i],
                         sc_granted := sc_granted sc @ [s']\<rparr>)))
          | None \<Rightarrow>
              obind (park \<epsilon> reg \<lparr>s_others = sc_protection sc, s_excluded = q,
                              s_priority = counts, s_required = []\<rparr> freed (i \<in> set seen) ?owners s)
                (\<lambda>(s', candidate).
              oreturn (sc\<lparr>sc_mem := mem_put s' (sc_mem sc),
                         sc_protection := sc_protection sc @ (case candidate of None \<Rightarrow> [] | Some p \<Rightarrow> [p])\<rparr>)))
       L = Inr (sc', L')"
    by (auto simp: schedule_stage_def Let_def op_simps)
  show ?thesis
  proof (cases chosen)
    case alloc: (Some a)
    with rest obtain s' L1 mem' where g: "grant \<epsilon> reg a s L = Inr (s', L1)"
      and byp: "ofold (bypass \<epsilon> (ready_number s')) ready (mem_put s' (sc_mem sc)) L1 = Inr (mem', L')"
      and sc': "sc' = sc\<lparr>sc_mem := mem', sc_active := sc_active sc @ [i], sc_granted := sc_granted sc @ [s']\<rparr>"
      by (auto simp: op_simps)
    have "steps \<epsilon> L L1 \<and> sched_ok \<epsilon> reg q (P - {i}) (mem_put s' (sc_mem sc)) (sc_active sc @ [i]) L1"
      using grant_ok [OF inj ok' Some i chosen [unfolded alloc] _ _ _ g, of "sc_protection sc"] ok
      by (auto simp: pass_ok_def)
    with bypasses_ok [OF inj _ byp] sc' ok show ?thesis by (auto simp: pass_ok_def intro: steps_trans)
  next
    case None
    with rest obtain s' candidate where
      park: "park \<epsilon> reg \<lparr>s_others = sc_protection sc, s_excluded = q, s_priority = counts, s_required = []\<rparr>
         freed (i \<in> set seen) ?owners s L = Inr ((s', candidate), L')"
      and sc': "sc' = sc\<lparr>sc_mem := mem_put s' (sc_mem sc),
                         sc_protection := sc_protection sc @ (case candidate of None \<Rightarrow> [] | Some p \<Rightarrow> [p])\<rparr>"
      by (auto simp: op_simps)
    from park_ok [OF inj ok' conjunct1 [OF mem] _ park, of "P - {i}"] sc' ok show ?thesis
      by (auto simp: pass_ok_def split: option.splits)
  qed
qed

lemma pass_stages_ok:
  assumes inj: "inj (uuid4 \<epsilon>)"
  shows "ofold (schedule_stage \<epsilon> reg q freed seen ready) order sc L = Inr (sc', L') \<Longrightarrow>
    pass_ok \<epsilon> reg q P sc L \<Longrightarrow> distinct order \<Longrightarrow> set order \<subseteq> P \<Longrightarrow>
    steps \<epsilon> L L' \<and> pass_ok \<epsilon> reg q (P - set order) sc' L'"
proof (induction order arbitrary: sc L P)
  case (Cons i order)
  from Cons.prems(1) obtain sc1 L1 where one: "schedule_stage \<epsilon> reg q freed seen ready i sc L = Inr (sc1, L1)"
    and rest: "ofold (schedule_stage \<epsilon> reg q freed seen ready) order sc1 L1 = Inr (sc', L')"
    by (auto simp: op_simps)
  from schedule_stage_ok [OF inj Cons.prems(2) _ one] Cons.prems(4)
  have st: "steps \<epsilon> L L1" "pass_ok \<epsilon> reg q (P - {i}) sc1 L1" by auto
  have eq: "P - {i} - set order = P - set (i # order)" by auto
  from Cons.IH [OF rest st(2)] Cons.prems(3,4) st(1) show ?case
    unfolding eq by (auto intro: steps_trans)
qed (simp add: oreturn_def)

section \<open>The whole transaction\<close>

lemma sched_ok_initial:
  assumes ok: "ledger_ok \<epsilon> L"
  defines "stages \<equiv> active_stages L"
  defines "active \<equiv> filter (\<lambda>s. owning (st_state s)) stages"
  shows "sched_ok \<epsilon> (registry L)
     (concat (map (\<lambda>s. keys (st_allocation s)) (filter (\<lambda>s. st_state s = Recovery_Required) active)))
     {} stages (map st_id active) L"
proof -
  from ok have dist: "distinct (map st_id (stage_rows L))" by (simp add: ledger_ok_def)
  have dist': "distinct (map st_id stages)" unfolding stages_def by (rule stages_query_distinct [OF dist])
  have set: "set stages = {s \<in> set (stage_rows L). \<not> terminal (st_state s)}"
    unfolding stages_def by (rule active_stages_set)
  have owner: "st_id r \<in> set (map st_id active)" if "r \<in> set (stage_rows L)" "owning (st_state r)" for r
    using that set by (auto simp: active_def dest: terminal_not_owning)
  have "distinct (map st_id active)" using dist' unfolding active_def by (simp add: distinct_map_filter)
  moreover have "\<forall>s\<in>set stages. st_id s \<in> set (map st_id active) \<longrightarrow> st_state s \<noteq> Waiting"
  proof (intro ballI impI)
    fix s assume s: "s \<in> set stages" "st_id s \<in> set (map st_id active)"
    then obtain t where "t \<in> set stages" "owning (st_state t)" "st_id t = st_id s" by (auto simp: active_def)
    with dist' s(1) have "t = s" by (auto simp: distinct_map dest: inj_onD)
    with \<open>owning (st_state t)\<close> show "st_state s \<noteq> Waiting" by auto
  qed
  moreover have "\<forall>r\<in>set (stage_rows L). st_allocation r \<noteq> [] \<longrightarrow> st_id r \<in> set (map st_id active)"
    using owner ok by (auto simp: ledger_ok_def row_ok_def)
  moreover have "x \<in> set (concat (map (\<lambda>s. keys (st_allocation s)) (filter (\<lambda>s. st_state s = Recovery_Required) active)))"
    if "quarantined (stage_rows L) x" for x
    using that set by (auto simp: quarantined_def active_def)
  moreover have "\<forall>s\<in>set stages. \<exists>r. find_stage (st_id s) (stage_rows L) = Some r \<and> mirrors r s"
    using find_stage_distinct [OF dist] by (auto simp: set)
  ultimately show ?thesis
    using ok dist' set unfolding sched_ok_def by (auto simp: ledger_ok_def row_ok_def active_def)
qed

lemma ready_order_distinct: "distinct (map st_id ready) \<Longrightarrow> distinct (ready_order ready)"
proof -
  assume "distinct (map st_id ready)"
  moreover have "mset (ready_order ready) = mset (map st_id ready)" by (simp add: ready_order_def)
  ultimately show ?thesis by (metis mset_eq_imp_distinct_iff)
qed

lemma ready_order_set [simp]: "set (ready_order ready) = st_id ` set ready"
  by (simp add: ready_order_def)

lemma schedule_steps:
  assumes fresh: "fresh_ids \<epsilon>" and ok: "ledger_ok \<epsilon> L" and run: "schedule \<epsilon> unavailable L = Inr (gs, L')"
  shows "steps \<epsilon> L L'"
proof -
  note inj = fresh_inj [OF fresh]
  let ?stages = "active_stages L"
  let ?active = "filter (\<lambda>s. owning (st_state s)) ?stages"
  let ?q = "concat (map (\<lambda>s. keys (st_allocation s)) (filter (\<lambda>s. st_state s = Recovery_Required) ?active))"
  let ?L0 = "L\<lparr>released := []\<rparr>"
  from run obtain scanned L1 sc L2 where
    scan: "ofor (scan_stage \<epsilon> unavailable) ?stages ?L0 = Inr (scanned, L1)"
    and pass: "ofold (schedule_stage \<epsilon> (registry L) ?q (released L)
          (map st_id (filter (\<lambda>s. st_ready_seq s \<noteq> None) ?stages)) (map st_id (map fst (filter snd scanned))))
        (ready_order (map fst (filter snd scanned)))
        \<lparr>sc_mem = map fst scanned, sc_active = map st_id ?active, sc_protection = [], sc_granted = []\<rparr> L1 = Inr (sc, L2)"
    and out: "outcomes \<epsilon> (set_iter \<epsilon> (map st_request ?stages)) L2 = Inr ((), L')"
    unfolding schedule_def Let_def by (auto simp: op_simps)
  have f0: "frame L ?L0" by (simp add: frame_def request_log_def)
  have "sched_ok \<epsilon> (registry L) ?q {} ([] @ ?stages) (map st_id ?active) ?L0"
    using sched_quiet [OF inj sched_ok_initial [OF ok] f0] by simp
  from scan_ok [OF fresh scan this] have s1: "steps \<epsilon> ?L0 L1"
    and ids: "map (st_id \<circ> fst) scanned = map st_id ?stages"
    and ok1: "sched_ok \<epsilon> (registry L) ?q (st_id ` fst ` set (filter snd scanned)) (map fst scanned) (map st_id ?active) L1"
    by auto
  have "distinct (map st_id (map fst scanned))" using ok1 by (simp add: sched_ok_def)
  then have "distinct (map st_id (map fst (filter snd scanned)))"
    by (simp add: distinct_map_filter)
  then have dist: "distinct (ready_order (map fst (filter snd scanned)))" by (rule ready_order_distinct)
  have "pass_ok \<epsilon> (registry L) ?q (st_id ` fst ` set (filter snd scanned))
      \<lparr>sc_mem = map fst scanned, sc_active = map st_id ?active, sc_protection = [], sc_granted = []\<rparr> L1"
    using ok1 by (simp add: pass_ok_def)
  from pass_stages_ok [OF inj pass this dist] have "steps \<epsilon> L1 L2" by simp
  with s1 frame_steps [OF f0] quiet_steps [OF quiet_outcomes(2) out] show ?thesis by (blast intro: steps_trans)
qed

end
