(* ===== verification/Resource_Safety.thy ===== *)
theory Resource_Safety
  imports Schedule_Refinement
begin

text \<open>
  What holds in every ledger the transactions can reach, whatever their order and arguments: the
  transactions as commands, reachability, two locales for invariants and for relations between an
  earlier and a later ledger, and the safety properties of the resource queue.
\<close>

section \<open>Commands and reachable ledgers\<close>

datatype command =
    Configure json
  | Submit json json fields "json option"
  | Schedule "string list"
  | Attach string nat json
  | Annotate string nat fields
  | Admit string string
  | Cancel string
  | Subscribe string string json bool
  | Abort string nat "string option" "fields option"
  | Finish string nat stage_state "string list" json
  | Recover string nat "string list" fields

text \<open>A transaction that raises is rolled back.\<close>

fun exec :: "env \<Rightarrow> command \<Rightarrow> ledger \<Rightarrow> ledger" where
  "exec \<epsilon> (Configure raw) L = committed (configure \<epsilon> raw) L"
| "exec \<epsilon> (Submit p e plan s) L = committed (submit \<epsilon> p e plan s) L"
| "exec \<epsilon> (Schedule u) L = committed (schedule \<epsilon> u) L"
| "exec \<epsilon> (Attach i n v) L = committed (attach \<epsilon> i n v) L"
| "exec \<epsilon> (Annotate i n fs) L = committed (annotate \<epsilon> i n fs) L"
| "exec \<epsilon> (Admit i t) L = committed (admit \<epsilon> i t) L"
| "exec \<epsilon> (Cancel r) L = committed (cancel \<epsilon> r) L"
| "exec \<epsilon> (Subscribe r c s b) L = committed (subscribe \<epsilon> r c s b) L"
| "exec \<epsilon> (Abort i n t v) L = committed (abort_unadmitted \<epsilon> i n t v) L"
| "exec \<epsilon> (Finish i n oc freed v) L = committed (finish \<epsilon> i n oc freed v) L"
| "exec \<epsilon> (Recover i n freed v) L = committed (recover \<epsilon> i n freed v) L"

definition execs :: "env \<Rightarrow> command list \<Rightarrow> ledger \<Rightarrow> ledger" where
  "execs \<epsilon> cs L = fold (exec \<epsilon>) cs L"

definition reachable :: "env \<Rightarrow> ledger \<Rightarrow> bool" where
  "reachable \<epsilon> L \<longleftrightarrow> (\<exists>cs. L = execs \<epsilon> cs (initial_ledger \<epsilon>))"

lemma committed_cases: "committed m L = L \<or> (\<exists>x. m L = Inr (x, committed m L))"
  by (auto simp: committed_def split: sum.splits)

lemma exec_steps:
  assumes "fresh_ids \<epsilon>" "ledger_ok \<epsilon> L"
  shows "steps \<epsilon> L (exec \<epsilon> c L)"
proof -
  have *: "steps \<epsilon> L (committed m L)" if "\<And>x L'. m L = Inr (x, L') \<Longrightarrow> steps \<epsilon> L L'" for m :: "'b op"
    using that committed_cases [of m L] by (metis steps_refl)
  note inj = fresh_inj [OF assms(1)]
  show ?thesis
    using assms inj
    by (cases c) (auto intro!: * intro: configure_steps submit_steps schedule_steps attach_steps annotate_steps
        admit_steps cancel_steps subscribe_steps abort_steps finish_steps recover_steps)
qed

lemma initial_ok: "ledger_ok \<epsilon> (initial_ledger \<epsilon>)"
  by (simp add: ledger_ok_def initial_ledger_def wf_registry_def physical_ids_def jointly_def leaf_safe_def
      deps_passed_def)

lemma execs_steps:
  assumes "fresh_ids \<epsilon>"
  shows "ledger_ok \<epsilon> L \<Longrightarrow> steps \<epsilon> L (execs \<epsilon> cs L)"
proof (induction cs arbitrary: L)
  case (Cons c cs)
  from exec_steps [OF assms Cons.prems] have s: "steps \<epsilon> L (exec \<epsilon> c L)" .
  from Cons.IH [OF steps_ok [OF s fresh_inj [OF assms] Cons.prems]] s show ?case
    by (auto simp: execs_def intro: steps_trans)
qed (simp add: execs_def)

lemma reachable_ok: "fresh_ids \<epsilon> \<Longrightarrow> reachable \<epsilon> L \<Longrightarrow> ledger_ok \<epsilon> L"
  unfolding reachable_def using execs_steps initial_ok steps_ok fresh_inj by blast

lemma reachable_execs: "reachable \<epsilon> L \<Longrightarrow> reachable \<epsilon> (execs \<epsilon> cs L)"
  unfolding reachable_def execs_def by (metis fold_append o_apply)

section \<open>Invariants and monotone relations\<close>

text \<open>What every micro step keeps holds of every reachable ledger.\<close>

locale ledger_invariant =
  fixes \<epsilon> :: env and P :: "ledger \<Rightarrow> bool"
  assumes initial: "P (initial_ledger \<epsilon>)"
    and micro: "ledger_ok \<epsilon> L \<Longrightarrow> P L \<Longrightarrow> micro \<epsilon> L L' \<Longrightarrow> P L'"
begin

lemma steps: "steps \<epsilon> L L' \<Longrightarrow> inj (uuid4 \<epsilon>) \<Longrightarrow> ledger_ok \<epsilon> L \<Longrightarrow> P L \<Longrightarrow> P L'"
  unfolding steps_def
  by (induction rule: rtranclp_induct) (auto intro: micro steps_ok [unfolded steps_def])

lemma holds: "fresh_ids \<epsilon> \<Longrightarrow> reachable \<epsilon> L \<Longrightarrow> P L"
  unfolding reachable_def using execs_steps steps initial initial_ok fresh_inj by blast

end

text \<open>What relates a ledger to the next one and composes relates it to every later one.\<close>

locale ledger_progress =
  fixes \<epsilon> :: env and R :: "ledger \<Rightarrow> ledger \<Rightarrow> bool"
  assumes refl: "R L L"
    and trans: "R L L' \<Longrightarrow> R L' L'' \<Longrightarrow> R L L''"
    and micro: "ledger_ok \<epsilon> L \<Longrightarrow> micro \<epsilon> L L' \<Longrightarrow> R L L'"
begin

lemma steps: "steps \<epsilon> L L' \<Longrightarrow> inj (uuid4 \<epsilon>) \<Longrightarrow> ledger_ok \<epsilon> L \<Longrightarrow> R L L'"
  unfolding steps_def
  by (induction rule: rtranclp_induct) (auto intro: refl trans micro steps_ok [unfolded steps_def])

lemma later: "fresh_ids \<epsilon> \<Longrightarrow> reachable \<epsilon> L \<Longrightarrow> R L (execs \<epsilon> cs L)"
  using execs_steps steps reachable_ok fresh_inj by blast

end

section \<open>The life cycle\<close>

fun rank :: "stage_state \<Rightarrow> nat" where
  "rank Waiting = 0"
| "rank Granted = 1"
| "rank Launching = 2"
| "rank Running = 3"
| "rank Cleanup = 4"
| "rank Recovery_Required = 5"
| "rank _ = 6"

text \<open>One row has become another: same definition, later or equal in the life cycle, at most one
  grant, and once it left \<open>waiting\<close> its epoch is fixed.\<close>

definition row_later :: "stage \<Rightarrow> stage \<Rightarrow> bool" where
  "row_later s s' \<longleftrightarrow>
     same_core s s' \<and> rank (st_state s) \<le> rank (st_state s') \<and>
     (terminal (st_state s) \<longrightarrow> st_state s' = st_state s \<and> st_allocation s' = st_allocation s) \<and>
     st_epoch s \<le> st_epoch s' \<and> (st_state s \<noteq> Waiting \<longrightarrow> st_epoch s' = st_epoch s) \<and>
     (st_state s = Waiting \<and> st_state s' = Waiting \<longrightarrow> st_epoch s' = st_epoch s) \<and>
     (st_state s \<noteq> Waiting \<longrightarrow> part_of (st_allocation s') (st_allocation s))"

lemma row_later_refl [simp]: "row_later s s"
  by (simp add: row_later_def same_core_def)

lemma part_of_trans: "part_of c b \<Longrightarrow> part_of b a \<Longrightarrow> part_of c a"
proof -
  assume "part_of c b" "part_of b a"
  then obtain P Q where "c = filter (\<lambda>kv. P (fst kv)) b" "b = filter (\<lambda>kv. Q (fst kv)) a"
    by (auto simp: part_of_def)
  then show ?thesis unfolding part_of_def by (intro exI [of _ "\<lambda>k. Q k \<and> P k"]) simp
qed

lemma rank_Waiting: "rank st \<le> 0 \<longleftrightarrow> st = Waiting"
  by (cases st) auto

lemma row_later_trans: "row_later s s' \<Longrightarrow> row_later s' s'' \<Longrightarrow> row_later s s''"
  unfolding row_later_def
  by (cases "st_state s"; cases "st_state s'") (auto simp: same_core_def intro: part_of_trans)

lemma rank_terminal: "terminal st \<Longrightarrow> rank st = 6"
  by (cases st) auto

lemma rank_owning: "owning st \<Longrightarrow> rank st \<le> 5"
  by (cases st) auto

lemma edge_later:
  assumes "edge reg rows s s'"
  shows "row_later s s'"
  using assms
proof (cases rule: edge.cases)
  case (finish oc)
  then show ?thesis
    using rank_terminal [of oc] rank_owning [of "st_state s"] terminal_not_owning [of "st_state s"]
    by (cases "st_state s") (auto simp: row_later_def)
qed (auto simp: row_later_def same_control_def)

definition rows_later :: "ledger \<Rightarrow> ledger \<Rightarrow> bool" where
  "rows_later L L' \<longleftrightarrow>
     (\<forall>i s. find_stage i (stage_rows L) = Some s \<longrightarrow>
        (\<exists>s'. find_stage i (stage_rows L') = Some s' \<and> row_later s s'))
     \<and> (\<exists>new. request_log L' = request_log L @ new)"

lemma find_stage_append: "find_stage i (xs @ ys) = (case find_stage i xs of None \<Rightarrow> find_stage i ys | Some s \<Rightarrow> Some s)"
  by (induction xs) auto

lemma micro_later:
  assumes "micro \<epsilon> L L'"
  shows "rows_later L L'"
  using assms
proof (cases rule: micro.cases)
  case (row s' s)
  then show ?thesis
    using edge_later [OF row(2)] find_stageD [OF row(1)] unfolding rows_later_def by auto
next
  case (create s)
  then show ?thesis by (auto simp: rows_later_def find_stage_append)
qed (auto simp: rows_later_def frame_def)

interpretation life: ledger_progress \<epsilon> rows_later for \<epsilon>
proof
  show "rows_later L L" for L by (auto simp: rows_later_def)
  show "rows_later L L''" if "rows_later L L'" "rows_later L' L''" for L L' L''
    using that unfolding rows_later_def by (metis append.assoc row_later_trans)
  show "rows_later L L'" if "micro \<epsilon> L L'" for L L' using micro_later [OF that] .
qed

section \<open>Invariants of the rows and of the request log\<close>

text \<open>A stage holds its capability tokens exactly while it owns resources before its completion, and
  its epoch tells whether it was ever granted.\<close>

definition tokens_ok :: "stage \<Rightarrow> bool" where
  "tokens_ok s \<longleftrightarrow>
     (owning (st_state s) \<or> st_state s \<in> {Passed, Failed, Invalidated} \<longrightarrow> st_epoch s = 1) \<and>
     st_epoch s \<le> 1 \<and>
     (st_state s = Waiting \<longrightarrow> st_epoch s = 0) \<and>
     (st_launch_token s \<noteq> None \<longleftrightarrow> owning (st_state s) \<and> st_state s \<noteq> Recovery_Required) \<and>
     (st_maintenance_token s \<noteq> None \<longleftrightarrow> owning (st_state s) \<and> st_state s \<noteq> Recovery_Required)"

lemma edge_tokens:
  assumes "edge reg rows s s'" "tokens_ok s"
  shows "tokens_ok s'"
  using assms(1)
proof (cases rule: edge.cases)
  case (finish oc)
  with assms(2) show ?thesis by (cases oc) (auto simp: tokens_ok_def)
qed (use assms(2) in \<open>auto simp: tokens_ok_def same_control_def same_tokens_def\<close>)

definition rows_tokens :: "ledger \<Rightarrow> bool" where
  "rows_tokens L \<longleftrightarrow> list_all tokens_ok (stage_rows L)"

interpretation tokens: ledger_invariant \<epsilon> rows_tokens for \<epsilon>
proof
  show "rows_tokens (initial_ledger \<epsilon>)" by (simp add: rows_tokens_def initial_ledger_def)
  show "rows_tokens L'" if ok: "ledger_ok \<epsilon> L" and P: "rows_tokens L" and m: "micro \<epsilon> L L'" for L L'
    using m
  proof (cases rule: micro.cases)
    case (row s' s)
    from ok have dist: "distinct (map st_id (stage_rows L))" by (simp add: ledger_ok_def)
    have "tokens_ok s" using P find_stageD [OF row(1)] by (auto simp: rows_tokens_def list_all_iff)
    with edge_tokens [OF row(2)] P row(4) upsert_set [OF dist] show ?thesis
      by (auto simp: rows_tokens_def list_all_iff)
  qed (use P in \<open>auto simp: rows_tokens_def frame_def tokens_ok_def list_all_iff\<close>)
qed

definition externals_unique :: "ledger \<Rightarrow> bool" where
  "externals_unique L \<longleftrightarrow> distinct (map (\<lambda>(_, p, e, _). (p, e)) (request_log L))"

interpretation externals: ledger_invariant \<epsilon> externals_unique for \<epsilon>
proof
  show "externals_unique (initial_ledger \<epsilon>)" by (simp add: externals_unique_def initial_ledger_def request_log_def)
  show "externals_unique L'" if "externals_unique L" "micro \<epsilon> L L'" for L L'
    using that(2,1) by (cases rule: micro.cases) (auto simp: externals_unique_def frame_def)
qed

end
