(* ===== verification/Resource_Demo.thy ===== *)
theory Resource_Demo
  imports Resource_Safety
begin

text \<open>
  A concrete run of the resource queue: one exclusive leaf, a request of two stages of which the
  second depends on the first, and a pass of the scheduler. The witnesses of the ledger's properties
  use it.
\<close>

definition demo_env :: env where
  "demo_env = \<lparr>clock = int, uuid4 = (\<lambda>k. replicate (Suc k) CHR ''u''), secret = (\<lambda>k. replicate (Suc k) CHR ''s''),
     sha = (\<lambda>_. ''d''), uuid5 = (\<lambda>_. ''o''), isoformat = (\<lambda>_. Some True), str_hash = length\<rparr>"

definition demo_registry :: json where
  "demo_registry = JObj [(''gpu'', JObj [(''release'', JStr ''process'')])]"

definition demo_leaves :: registry where
  "demo_leaves =
    [(''gpu'',
      Leaf
       \<lparr>physical_id = ''gpu'', capacity = 1, incarnation = ''1'',
          release = By_Process,
          leaf_fields =
            [(''release'', JStr ''process''), (''kind'', JStr ''resource''),
             (''physical_id'', JStr ''gpu''), (''capacity'', JInt 1),
             (''incarnation'', JStr ''1'')]\<rparr>)]"

definition demo_stages :: "json list" where
  "demo_stages =
     [JObj [(''id'', JStr ''a''), (''needs'', JList [JObj [(''resource'', JStr ''gpu'')]])],
      JObj [(''id'', JStr ''b''), (''after'', JList [JStr ''a'']), (''needs'', JList [JObj [(''resource'', JStr ''gpu'')]])]]"

definition demo_plan :: fields where
  "demo_plan = [(''stages'', JList demo_stages)]"

definition demo_configured :: ledger where
  "demo_configured = \<lparr>registry = demo_leaves, released = [], sequence = 0, authority = ''u'', requests = [], stage_rows = [],
    event_log = [\<lparr>ev_at = 0, ev_subject = ''registry'', ev_kind = Configured_Event ''d''\<rparr>],
    outbox = [], history = [], clock_reads = 1, uuid_draws = 1, secret_draws = 0\<rparr>"

definition demo_submitted :: ledger where
  "demo_submitted = \<lparr>registry =
 demo_leaves,
    released = [], sequence = 2, authority = ''u'',
    requests =
      [\<lparr>rq_id = ''uu'', rq_project = ''p'', rq_external = ''e'',
          rq_plan =
 demo_plan,
          rq_subscribers = [], rq_created_at = 1\<rparr>],
    stage_rows =
      [\<lparr>st_id = ''uuu'', st_name = ''a'', st_request = ''uu'',
          st_project = ''p'', st_state = Waiting, st_seq = 1,
          st_reason = Some ''dependency_wait'', st_created_at = 2,
          st_epoch = 0, st_allocation = [],
          st_needs = JList [JObj [(''resource'', JStr ''gpu'')]],
          st_after = JList [], st_extra = [], st_ready_at = None,
          st_ready_seq = None, st_protection = None, st_launch_token = None,
          st_maintenance_token = None, st_cancel_requested = False,
          st_supervisor = JNull, st_started_at = None, st_granted_at = None,
          st_finished_at = None, st_outcome = None, st_evidence = JNull,
          st_incarnations = [], st_granted_allocation = [],
          st_bypass_count = JInt 0, st_blockers = [], st_wait_seconds = [],
          st_transition_at = Some 3, st_runner = []\<rparr>,
       \<lparr>st_id = ''uuuu'', st_name = ''b'', st_request = ''uu'',
          st_project = ''p'', st_state = Waiting, st_seq = 2,
          st_reason = Some ''dependency_wait'', st_created_at = 5,
          st_epoch = 0, st_allocation = [],
          st_needs = JList [JObj [(''resource'', JStr ''gpu'')]],
          st_after = JList [JStr ''a''], st_extra = [], st_ready_at = None,
          st_ready_seq = None, st_protection = None, st_launch_token = None,
          st_maintenance_token = None, st_cancel_requested = False,
          st_supervisor = JNull, st_started_at = None, st_granted_at = None,
          st_finished_at = None, st_outcome = None, st_evidence = JNull,
          st_incarnations = [], st_granted_allocation = [],
          st_bypass_count = JInt 0, st_blockers = [], st_wait_seconds = [],
          st_transition_at = Some 6, st_runner = []\<rparr>],
    event_log =
      [\<lparr>ev_at = 0, ev_subject = ''registry'',
          ev_kind = Configured_Event ''d''\<rparr>,
       \<lparr>ev_at = 4, ev_subject = ''uuu'',
          ev_kind = State_Changed Waiting (Some ''dependency_wait'')\<rparr>,
       \<lparr>ev_at = 7, ev_subject = ''uuuu'',
          ev_kind = State_Changed Waiting (Some ''dependency_wait'')\<rparr>,
       \<lparr>ev_at = 8, ev_subject = ''uu'',
          ev_kind = Submitted_Event ''p'' ''e''\<rparr>],
    outbox = [], history = [], clock_reads = 9, uuid_draws = 4,
    secret_draws = 0\<rparr>"

definition demo_granted :: ledger where
  "demo_granted = \<lparr>registry =
 demo_leaves,
    released = [], sequence = 3, authority = ''u'',
    requests =
      [\<lparr>rq_id = ''uu'', rq_project = ''p'', rq_external = ''e'',
          rq_plan =
 demo_plan,
          rq_subscribers = [], rq_created_at = 1\<rparr>],
    stage_rows =
      [\<lparr>st_id = ''uuu'', st_name = ''a'', st_request = ''uu'',
          st_project = ''p'', st_state = Granted, st_seq = 1,
          st_reason = None, st_created_at = 2, st_epoch = 1,
          st_allocation =
            [(''gpu'',
              \<lparr>claim_mode = Exclusive, claim_units = 1,
                 claim_group = JNull\<rparr>)],
          st_needs = JList [JObj [(''resource'', JStr ''gpu'')]],
          st_after = JList [], st_extra = [], st_ready_at = Some 9,
          st_ready_seq = Some 3, st_protection = None,
          st_launch_token = Some ''s'', st_maintenance_token = Some ''ss'',
          st_cancel_requested = False, st_supervisor = JNull,
          st_started_at = None, st_granted_at = Some 11,
          st_finished_at = None, st_outcome = None, st_evidence = JNull,
          st_incarnations = [(''gpu'', ''1'')],
          st_granted_allocation =
            [(''gpu'',
              \<lparr>claim_mode = Exclusive, claim_units = 1,
                 claim_group = JNull\<rparr>)],
          st_bypass_count = JInt 0, st_blockers = [],
          st_wait_seconds = [(''dependency_wait'', Some 9)],
          st_transition_at = Some 12, st_runner = []\<rparr>,
       \<lparr>st_id = ''uuuu'', st_name = ''b'', st_request = ''uu'',
          st_project = ''p'', st_state = Waiting, st_seq = 2,
          st_reason = Some ''dependency_wait'', st_created_at = 5,
          st_epoch = 0, st_allocation = [],
          st_needs = JList [JObj [(''resource'', JStr ''gpu'')]],
          st_after = JList [JStr ''a''], st_extra = [], st_ready_at = None,
          st_ready_seq = None, st_protection = None, st_launch_token = None,
          st_maintenance_token = None, st_cancel_requested = False,
          st_supervisor = JNull, st_started_at = None, st_granted_at = None,
          st_finished_at = None, st_outcome = None, st_evidence = JNull,
          st_incarnations = [], st_granted_allocation = [],
          st_bypass_count = JInt 0, st_blockers = [], st_wait_seconds = [],
          st_transition_at = Some 6, st_runner = []\<rparr>],
    event_log =
      [\<lparr>ev_at = 0, ev_subject = ''registry'',
          ev_kind = Configured_Event ''d''\<rparr>,
       \<lparr>ev_at = 4, ev_subject = ''uuu'',
          ev_kind = State_Changed Waiting (Some ''dependency_wait'')\<rparr>,
       \<lparr>ev_at = 7, ev_subject = ''uuuu'',
          ev_kind = State_Changed Waiting (Some ''dependency_wait'')\<rparr>,
       \<lparr>ev_at = 8, ev_subject = ''uu'',
          ev_kind = Submitted_Event ''p'' ''e''\<rparr>,
       \<lparr>ev_at = 10, ev_subject = ''uuu'', ev_kind = Ready_Event\<rparr>,
       \<lparr>ev_at = 13, ev_subject = ''uuu'',
          ev_kind = State_Changed Granted None\<rparr>,
       \<lparr>ev_at = 14, ev_subject = ''uuu'',
          ev_kind =
            Granted_Event
             [(''gpu'',
               \<lparr>claim_mode = Exclusive, claim_units = 1,
                  claim_group = JNull\<rparr>)]
             1 [(''gpu'', 1)]\<rparr>],
    outbox = [], history = [], clock_reads = 15, uuid_draws = 4,
    secret_draws = 2\<rparr>"

lemma demo_fresh: "fresh_ids demo_env"
  by (auto simp: fresh_ids_def demo_env_def inj_def)

lemma demo_configure: "exec demo_env (Configure demo_registry) (initial_ledger demo_env) = demo_configured"
  by code_simp

lemma demo_plan_stages: "plan_stages demo_plan = Inr (demo_stages, [''a'', ''b''])"
  by code_simp

lemmas search_eval = first_assignment_def assignments_def specifications_def demands_def demand_of_def
  empty_search_def dfs.simps selector_leaves.simps selector_claim_available.simps alternatives.simps
  compatible.simps occupied_at_def capacity_at_def Let_def disjoint_list_def

lemma demo_checks:
  "check_definition demo_leaves [''a'', ''b'']
     (JObj [(''id'', JStr ''a''), (''needs'', JList [JObj [(''resource'', JStr ''gpu'')]])]) = Inr ()"
  "check_definition demo_leaves [''a'', ''b'']
     (JObj [(''id'', JStr ''b''), (''after'', JList [JStr ''a'']), (''needs'', JList [JObj [(''resource'', JStr ''gpu'')]])]) = Inr ()"
  by (simp_all add: check_definition_def after_set_def search_eval demo_leaves_def cong: ebind_weak_cong)

lemma demo_submit:
  "submit demo_env (JStr ''p'') (JStr ''e'') demo_plan None demo_configured = Inr (''uu'', demo_submitted)"
  by (simp add: submit_def create_request_def demo_plan_stages find_external_def demo_checks demo_configured_def demo_submitted_def
      demo_env_def insert_request_def find_request_def demo_stages_def add_stage_def save_def new_stage_def stage_keys_def run_eval
      cong: obind_weak_cong)

lemmas schedule_eval = schedule_def scan_stage_def mark_ready_def stages_query_def predecessors_def failed_predecessor_def
  schedule_stage_def demand_count_def stage_leaves_def count_leaf_def prio_get_def grant_def leaf_incarnation_def
  leaf_capacity_def mem_all_def mem_put_def ready_order_def ready_number_def bypass_def unready_def
  outcomes_def outcomes_of_def outcome_due_def set_iter_def dedup_def save_def book_wait_def

lemma demo_schedule: "\<exists>gs. schedule demo_env [] demo_submitted = Inr (gs, demo_granted)"
  by (simp add: schedule_eval search_eval demo_submitted_def demo_granted_def demo_leaves_def demo_env_def run_eval keys_def
      cong: obind_weak_cong ebind_weak_cong)

text \<open>The run goes on: launch, admission and completion of the granted stage.\<close>

definition demo_identity :: json where
  "demo_identity = JObj [(''pid'', JInt 7)]"

definition demo_launching :: ledger where
  "demo_launching = committed (attach demo_env ''uuu'' 1 demo_identity) demo_granted"

definition demo_running :: ledger where
  "demo_running = committed (admit demo_env ''uuu'' ''s'') demo_launching"

definition demo_finished :: ledger where
  "demo_finished = committed (finish demo_env ''uuu'' 1 Passed [''gpu''] JNull) demo_running"

lemma demo_attach: "attach demo_env ''uuu'' 1 demo_identity demo_granted = Inr ((), demo_launching)"
  by (simp add: demo_launching_def committed_def attach_def get_stage_def save_def demo_granted_def demo_env_def run_eval
      cong: obind_weak_cong)

lemma demo_launching_eq:
  "\<exists>s. find_stage ''uuu'' (stage_rows demo_launching) = Some s \<and> st_state s = Launching \<and> st_launch_token s = Some ''s''
    \<and> \<not> st_cancel_requested s \<and> st_epoch s = 1 \<and> st_allocation s = st_allocation (hd (stage_rows demo_granted))"
  by (simp add: demo_launching_def committed_def attach_def get_stage_def save_def demo_granted_def demo_env_def run_eval
      cong: obind_weak_cong)

lemma demo_admit: "\<exists>s. admit demo_env ''uuu'' ''s'' demo_launching = Inr (s, demo_running)"
  by (simp add: demo_running_def demo_launching_def committed_def attach_def admit_def launch_token_of_def compare_digest_def 
     get_stage_def save_def demo_granted_def demo_env_def run_eval cong: obind_weak_cong)

lemma obind_run_False [run_eval]: "m L = Inr (False, L') \<Longrightarrow> obind m f L = f False L'"
  by (simp add: obind_def)

lemmas finish_eval = keys_def finish_def finish_stage_def released_groups_def registry_group_def entry_group_def splits_group_def outcomes_def outcomes_of_def dedup_def
  outcome_due_def outcome_status_def outcome_key_def find_request_def get_request_def stages_query_def book_wait_def Let_def

lemma demo_finish: "finish demo_env ''uuu'' 1 Passed [''gpu''] JNull demo_running = Inr ((), demo_finished)"
  by (simp add: demo_finished_def demo_running_def demo_launching_def committed_def attach_def admit_def launch_token_of_def compare_digest_def 
     get_stage_def save_def demo_granted_def demo_env_def run_eval finish_eval demo_leaves_def cong: obind_weak_cong ebind_weak_cong)

lemma demo_running_row:
  "\<exists>s. find_stage ''uuu'' (stage_rows demo_running) = Some s \<and> keys (st_allocation s) = [''gpu'']"
  by (simp add: demo_running_def demo_launching_def committed_def attach_def admit_def launch_token_of_def compare_digest_def
     get_stage_def save_def demo_granted_def demo_env_def run_eval keys_def cong: obind_weak_cong)

text \<open>Completing the first stage lets the second one in.\<close>

definition demo_second :: ledger where
  "demo_second = committed (schedule demo_env []) demo_finished"

lemma demo_second_rows:
  "(\<exists>s. find_stage ''uuuu'' (stage_rows demo_second) = Some s \<and> st_epoch s = 1 \<and> st_request s = ''uu''
      \<and> st_after s = JList [JStr ''a''])
   \<and> (\<exists>p. find_stage ''uuu'' (stage_rows demo_second) = Some p \<and> st_name p = ''a'' \<and> st_request p = ''uu'')"
  by (simp add: demo_second_def demo_finished_def demo_running_def demo_launching_def committed_def attach_def admit_def
     launch_token_of_def compare_digest_def
     get_stage_def save_def demo_granted_def demo_env_def run_eval finish_eval schedule_eval search_eval demo_leaves_def
     cong: obind_weak_cong ebind_weak_cong)

end
