(* ===== verification/Resource_Properties.thy ===== *)
theory Resource_Properties
  imports Resource_Demo
begin

text \<open>
  The properties of the resource queue, over every ledger that its transactions reach, with their
  witnesses on the demonstration run of theory Resource_Demo.
\<close>


section \<open>The demonstration run is reachable\<close>

lemma demo_exec_submit: "exec demo_env (Submit (JStr ''p'') (JStr ''e'') demo_plan None) demo_configured = demo_submitted"
  by (simp add: committed_def demo_submit)

lemma demo_exec_schedule: "exec demo_env (Schedule []) demo_submitted = demo_granted"
  using demo_schedule by (auto simp: committed_def)

lemma demo_reachable: "reachable demo_env demo_submitted" "reachable demo_env demo_granted"
proof -
  have "demo_submitted = execs demo_env [Configure demo_registry, Submit (JStr ''p'') (JStr ''e'') demo_plan None]
      (initial_ledger demo_env)"
    by (simp add: execs_def demo_configure demo_exec_submit del: exec.simps)
  then show r: "reachable demo_env demo_submitted" unfolding reachable_def by blast
  have "demo_granted = execs demo_env [Schedule []] demo_submitted"
    by (simp add: execs_def demo_exec_schedule del: exec.simps)
  with reachable_execs [OF r] show "reachable demo_env demo_granted" by metis
qed

lemma exec_reachable: "reachable \<epsilon> L \<Longrightarrow> reachable \<epsilon> (exec \<epsilon> c L)"
  using reachable_execs [of \<epsilon> L "[c]"] by (simp add: execs_def)

lemma committed_Inr: "m L = Inr (x, L') \<Longrightarrow> committed m L = L'"
  by (simp add: committed_def)

lemma demo_configured_reachable: "reachable demo_env demo_configured"
  unfolding reachable_def
  by (rule exI [of _ "[Configure demo_registry]"]) (simp add: execs_def demo_configure del: exec.simps)

lemma demo_launching_reachable: "reachable demo_env demo_launching"
  using exec_reachable [OF demo_reachable(2), of "Attach ''uuu'' 1 demo_identity"] by (simp add: demo_launching_def)

lemma demo_running_reachable: "reachable demo_env demo_running"
  using exec_reachable [OF demo_launching_reachable, of "Admit ''uuu'' ''s''"] by (simp add: demo_running_def)

lemma demo_second_reachable: "reachable demo_env demo_second"
  using exec_reachable [OF exec_reachable [OF demo_running_reachable, of "Finish ''uuu'' 1 Passed [''gpu''] JNull"], of "Schedule []"]
  by (simp add: demo_second_def demo_finished_def)

section \<open>Safety of allocations and dependencies\<close>

text \<open>C1: in every reachable ledger the allocations of all stages together respect every leaf: the units
  claimed at it do not exceed its capacity, and two stages hold it at once only in shared mode and in
  the same compatibility group.\<close>

theorem leaf_never_overcommitted:
  assumes "fresh_ids \<epsilon>" "reachable \<epsilon> L"
  shows "let held = occupied_at (map st_allocation (stage_rows L)) x in
    held = [] \<or> is_leaf (registry L) x \<and> units_sum held \<le> cap_of (registry L) x \<and>
    (length held \<le> 1 \<or> (\<exists>g. \<forall>c\<in>set held. claim_mode c = Shared \<and> claim_group c = g))"
  using reachable_ok [OF assms(1,2)] by (simp add: ledger_ok_def jointly_def leaf_safe_def Let_def)

theorem leaf_never_overcommitted_witness:
  "let held = occupied_at (map st_allocation (stage_rows demo_granted)) ''gpu'' in
    held = [] \<or> is_leaf (registry demo_granted) ''gpu'' \<and> units_sum held \<le> cap_of (registry demo_granted) ''gpu'' \<and>
    (length held \<le> 1 \<or> (\<exists>g. \<forall>c\<in>set held. claim_mode c = Shared \<and> claim_group c = g))"
  by (rule leaf_never_overcommitted [OF demo_fresh demo_reachable(2)])

text \<open>C2: a stage that was ever granted resources has only passed predecessors, in every reachable
  ledger.\<close>

theorem dependencies_passed_before_grant:
  assumes "fresh_ids \<epsilon>" "reachable \<epsilon> L" "s \<in> set (stage_rows L)" "0 < st_epoch s"
    and "predecessor_of (stage_rows L) s p"
  shows "st_state p = Passed"
  using reachable_ok [OF assms(1,2)] assms(3-5) by (auto simp: ledger_ok_def deps_passed_def)

theorem dependencies_passed_before_grant_witness:
  "\<exists>s p. find_stage ''uuuu'' (stage_rows demo_second) = Some s \<and> st_epoch s = 1
     \<and> predecessor_of (stage_rows demo_second) s p \<and> st_state p = Passed"
proof -
  from demo_second_rows obtain s p where s: "find_stage ''uuuu'' (stage_rows demo_second) = Some s" "st_epoch s = 1"
    "st_request s = ''uu''" "st_after s = JList [JStr ''a'']"
    and p: "find_stage ''uuu'' (stage_rows demo_second) = Some p" "st_name p = ''a''" "st_request p = ''uu''" by blast
  have mem: "s \<in> set (stage_rows demo_second)" using find_stageD [OF s(1)] by simp
  have pred: "predecessor_of (stage_rows demo_second) s p"
    using s p find_stageD [OF p(1)] by (simp add: predecessor_of_def)
  from dependencies_passed_before_grant [OF demo_fresh demo_second_reachable mem _ pred] s pred show ?thesis by auto
qed

text \<open>C3: every transaction of a reachable ledger, committed or rolled back, is a sequence of atomic
  steps of the stage life cycle (the edges of theory Resource_Steps): it inserts waiting rows, moves
  rows along those edges only, appends requests, or touches nothing but logs and subscribers.\<close>

theorem transactions_refine_steps:
  assumes "fresh_ids \<epsilon>" "reachable \<epsilon> L"
  shows "steps \<epsilon> L (exec \<epsilon> c L)"
  by (rule exec_steps [OF assms(1) reachable_ok [OF assms]])

theorem transactions_refine_steps_witness: "steps demo_env demo_submitted demo_granted"
  using transactions_refine_steps [OF demo_fresh demo_reachable(1), of "Schedule []"]
  unfolding demo_exec_schedule .

text \<open>C4: whatever transactions follow, a stage keeps its definition (name, request, needs,
  dependencies), only moves forward in its life cycle, is absorbed by a terminal state, is granted at
  most once, and after its grant only ever gives leaves up.\<close>

theorem stage_life_cycle:
  assumes "fresh_ids \<epsilon>" "reachable \<epsilon> L" "find_stage i (stage_rows L) = Some s"
  shows "\<exists>s'. find_stage i (stage_rows (execs \<epsilon> cs L)) = Some s' \<and> row_later s s'"
  using life.later [OF assms(1,2)] assms(3) by (auto simp: rows_later_def)

theorem stage_life_cycle_witness:
  "\<exists>s'. find_stage ''uuu'' (stage_rows (execs demo_env [Schedule []] demo_submitted)) = Some s'
     \<and> row_later (hd (stage_rows demo_submitted)) s'"
  by (rule stage_life_cycle [OF demo_fresh demo_reachable(1)]) (simp add: demo_submitted_def)

section \<open>Admission and fencing\<close>

lemma later_rank:
  assumes "fresh_ids \<epsilon>" "reachable \<epsilon> L" "find_stage i (stage_rows L) = Some s"
  shows "\<exists>s'. find_stage i (stage_rows (execs \<epsilon> cs L)) = Some s' \<and> rank (st_state s) \<le> rank (st_state s')
     \<and> (terminal (st_state s) \<longrightarrow> st_state s' = st_state s)"
  using life.later [OF assms(1,2)] assms(3) by (fastforce simp: rows_later_def row_later_def)

lemma admit_running:
  assumes "admit \<epsilon> i t L = Inr (s, L')"
  shows "find_stage i (stage_rows L') = Some s \<and> st_state s = Running"
proof -
  from assms obtain s0 t0 L1 L2 where s0: "find_stage i (stage_rows L) = Some s0"
    and save: "save \<epsilon> (s0\<lparr>st_state := Running, st_started_at := Some t0\<rparr>) L1 = Inr (s, L2)"
    and log: "log_event \<epsilon> i (Admitted_Event (st_epoch s)) L2 = Inr ((), L')"
    by (auto simp: admit_def run_simps)
  from save obtain L3 where "stamped (s0\<lparr>st_state := Running, st_started_at := Some t0\<rparr>) s"
    "L2 = L3\<lparr>stage_rows := upsert_stage s (stage_rows L1)\<rparr>" by (rule save_Inr)
  with stamped_fields [OF this(1)] find_stageD [OF s0] frameD [OF log_event_frame [OF log]]
  show ?thesis by simp
qed

text \<open>C5: a launch token admits at most one process: after a successful admission of a stage, and whatever
  transactions follow, every further admission of that stage is refused, with whatever token.\<close>

theorem admission_happens_once:
  assumes "fresh_ids \<epsilon>" "reachable \<epsilon> L" "admit \<epsilon> i token L = Inr (s, L')"
  shows "\<exists>e. admit \<epsilon> i token' (execs \<epsilon> cs L') = Inl e"
proof -
  have "exec \<epsilon> (Admit i token) L = L'" using assms(3) by (simp add: committed_Inr)
  with exec_reachable [OF assms(2)] have "reachable \<epsilon> L'" by metis
  from later_rank [OF assms(1) this] admit_running [OF assms(3)] obtain s' where
    s': "find_stage i (stage_rows (execs \<epsilon> cs L')) = Some s'" "rank (st_state s') \<ge> 3" by fastforce
  then have "st_state s' \<noteq> Launching" by auto
  with s' show ?thesis by (simp add: admit_def obind_def get_stage_def olift_def raise_if_def)
qed

theorem admission_happens_once_witness:
  "\<exists>s e. admit demo_env ''uuu'' ''s'' demo_launching = Inr (s, demo_running)
     \<and> admit demo_env ''uuu'' ''s'' (execs demo_env [Schedule []] demo_running) = Inl e"
proof -
  from demo_admit obtain s where s: "admit demo_env ''uuu'' ''s'' demo_launching = Inr (s, demo_running)" ..
  from admission_happens_once [OF demo_fresh demo_launching_reachable this] s show ?thesis by blast
qed

text \<open>What a completion does to the row it completes.\<close>

lemma finish_row:
  assumes run: "finish \<epsilon> i n oc freed v L = Inr (u, L')"
  obtains s s' where "find_stage i (stage_rows L) = Some s" "st_epoch s = n" "owning (st_state s)" "terminal oc"
    "set freed \<subseteq> set (keys (st_allocation s))"
    "stage_rows L' = upsert_stage s' (stage_rows L)" "st_id s' = i"
    "st_allocation s' = filter (\<lambda>kv. fst kv \<notin> set freed) (st_allocation s)"
    "st_state s' = (if st_allocation s' = [] then oc else Recovery_Required)" "st_outcome s' = Some oc"
    "st_epoch s' = n" "st_launch_token s' = None"
proof -
  let ?rest = "\<lambda>s. filter (\<lambda>kv. fst kv \<notin> set freed) (st_allocation s)"
  let ?s = "\<lambda>s t. s\<lparr>st_state := (if ?rest s \<noteq> [] then Recovery_Required else oc),
                         st_outcome := Some oc, st_allocation := ?rest s, st_evidence := v,
                         st_finished_at := Some t, st_launch_token := None, st_maintenance_token := None\<rparr>"
  from run obtain s t L1 r L2 L3 where oc: "terminal oc" and s: "find_stage i (stage_rows L) = Some s" "owning (st_state s)" "st_epoch s = n"
    and sub: "list_all (\<lambda>leaf. leaf \<in> set (keys (st_allocation s))) freed"
    and t: "now \<epsilon> L = Inr (t, L1)" and save: "save \<epsilon> (?s s t) L1 = Inr (r, L2)"
    and log: "log_event \<epsilon> i (Finished_Event oc freed v)
       (L2\<lparr>released := sort (dedup (released L2 @ freed))\<rparr>) = Inr ((), L3)"
    and out: "outcomes \<epsilon> [st_request s] L3 = Inr (u, L')"
    unfolding finish_def finish_stage_def Let_def
    by (fastforce simp: run_simps simp del: filter_empty_conv)
  from save obtain L4 where st: "stamped (?s s t) r" "L2 = L4\<lparr>stage_rows := upsert_stage r (stage_rows L1)\<rparr>"
    by (rule save_Inr)
  note f = stamped_fields [OF st(1)] frameD [OF now_frame [OF t]] frameD [OF log_event_frame [OF log]]
    frameD [OF quietD [OF quiet_outcomes(2) out]]
  have "stage_rows L' = upsert_stage r (stage_rows L)" using f st(2) by simp
  with s oc sub f find_stageD [OF s(1)] show ?thesis
    by (intro that [of s r]) (auto simp: list_all_iff)
qed



text \<open>C7: a completion takes exactly the released leaves from the completed stage: every other leaf keeps
  its claim, the stage is quarantined for recovery exactly when something is left, and no other stage
  changes.\<close>

theorem release_is_exact:
  assumes fin: "finish \<epsilon> i n oc freed v L = Inr (u, L')" and s: "find_stage i (stage_rows L) = Some s"
  shows "\<exists>s'. find_stage i (stage_rows L') = Some s' \<and>
      (\<forall>x. map_of (st_allocation s') x = (if x \<in> set freed then None else map_of (st_allocation s) x)) \<and>
      (st_state s' = Recovery_Required \<longleftrightarrow> \<not> set (keys (st_allocation s)) \<subseteq> set freed) \<and>
      (\<forall>j. j \<noteq> i \<longrightarrow> find_stage j (stage_rows L') = find_stage j (stage_rows L))"
  using fin
proof (rule finish_row)
  fix t t' assume t: "find_stage i (stage_rows L) = Some t" "terminal oc" "stage_rows L' = upsert_stage t' (stage_rows L)"
      "st_id t' = i" "st_allocation t' = filter (\<lambda>kv. fst kv \<notin> set freed) (st_allocation t)"
      "st_state t' = (if st_allocation t' = [] then oc else Recovery_Required)"
  have ne: "oc \<noteq> Recovery_Required" using t(2) by auto
  have nil: "st_allocation t' = [] \<longleftrightarrow> set (keys (st_allocation s)) \<subseteq> set freed"
    using t(1,5) s by (auto simp: filter_empty_conv keys_def)
  have "map_of (st_allocation t') x = (if x \<in> set freed then None else map_of (st_allocation s) x)" for x
    using t(1,5) s map_of_filter_fst [of "\<lambda>k. k \<notin> set freed" "st_allocation s" x] by simp
  with t nil ne s show ?thesis by (intro exI [of _ t']) auto
qed

theorem release_is_exact_witness:
  "\<exists>s s'. find_stage ''uuu'' (stage_rows demo_running) = Some s
     \<and> find_stage ''uuu'' (stage_rows demo_finished) = Some s'
     \<and> map_of (st_allocation s) ''gpu'' \<noteq> None \<and> map_of (st_allocation s') ''gpu'' = None
     \<and> find_stage ''uuuu'' (stage_rows demo_finished) = find_stage ''uuuu'' (stage_rows demo_running)"
proof -
  from demo_running_row obtain s where s: "find_stage ''uuu'' (stage_rows demo_running) = Some s"
    "keys (st_allocation s) = [''gpu'']" by blast
  then have "map_of (st_allocation s) ''gpu'' \<noteq> None" by (cases "st_allocation s") (auto simp: keys_def)
  with release_is_exact [OF demo_finish s(1)] s(1) show ?thesis by force
qed

section \<open>Submission\<close>

lemma find_external_key:
  "map_option request_key (find_external p e (requests L)) =
     List.find (\<lambda>(_, p', e', _). p' = p \<and> e' = e) (request_log L)"
proof -
  have "map_option request_key (find_external p e rs) = List.find (\<lambda>(_, p', e', _). p' = p \<and> e' = e) (map request_key rs)" for rs
    by (induction rs) (auto simp: find_external_def request_key_def)
  then show ?thesis by (simp add: request_log_def)
qed

lemma find_append: "List.find P (xs @ ys) = (case List.find P xs of None \<Rightarrow> List.find P ys | Some x \<Rightarrow> Some x)"
  by (induction xs) auto

lemma submit_logged:
  assumes fresh: "fresh_ids \<epsilon>" and ok: "ledger_ok \<epsilon> L"
    and run: "submit \<epsilon> (JStr p) (JStr e) plan sub L = Inr (rid, L')"
  shows "\<exists>plan'. List.find (\<lambda>(_, p', e', _). p' = p \<and> e' = e) (request_log L') = Some (rid, p, e, plan')
     \<and> json_eq (JObj plan') (JObj plan)"
proof -
  from run obtain ds names where
    r: "(case find_external p e (requests L) of
       Some r \<Rightarrow>
         if json_eq (JObj (rq_plan r)) (JObj plan) then oreturn (rq_id r)
         else olift (Inl (ResourceError ''request ID already has different immutable inputs''))
     | None \<Rightarrow> create_request \<epsilon> p e plan sub ds names) L = Inr (rid, L')"
    unfolding submit_def obind_Inr olift_Inr oget_Inr by (auto simp: op_simps simp del: identifier_of.simps)
  show ?thesis
  proof (cases "find_external p e (requests L)")
    case (Some q)
    then have q: "rq_project q = p" "rq_external q = e" by (auto simp: find_external_def find_Some_iff)
    from r Some have "L' = L" "rid = rq_id q" "json_eq (JObj (rq_plan q)) (JObj plan)"
      by (auto simp: run_simps split: if_splits)
    with find_external_key [of p e L, symmetric] Some q show ?thesis by (simp add: request_key_def)
  next
    case None
    with find_external_key [of p e L] have no: "List.find (\<lambda>(_, p', e', _). p' = p \<and> e' = e) (request_log L) = None" by simp
    from r None have "create_request \<epsilon> p e plan sub ds names L = Inr (rid, L')" by simp
    from create_request_steps [OF fresh_inj [OF fresh] ok None this] obtain new where
      "request_log L' = request_log L @ (rid, p, e, plan) # new" by blast
    with no show ?thesis by (auto simp: find_append)
  qed
qed

text \<open>C8: submission is idempotent over the whole later history: replaying a successful submission
  returns the same request and changes nothing, and reusing its external id with a different plan is
  refused.\<close>

theorem submission_is_idempotent:
  assumes fresh: "fresh_ids \<epsilon>" and reach: "reachable \<epsilon> L"
    and run: "submit \<epsilon> (JStr p) (JStr e) plan sub L = Inr (rid, L')"
  shows "submit \<epsilon> (JStr p) (JStr e) plan sub (execs \<epsilon> cs L') = Inr (rid, execs \<epsilon> cs L')
    \<and> (plan_stages plan2 = Inr defs \<longrightarrow> \<not> json_eq (JObj plan) (JObj plan2) \<longrightarrow>
       submit \<epsilon> (JStr p) (JStr e) plan2 None (execs \<epsilon> cs L')
         = Inl (ResourceError ''request ID already has different immutable inputs''))"
proof -
  let ?later = "execs \<epsilon> cs L'"
  have "exec \<epsilon> (Submit (JStr p) (JStr e) plan sub) L = L'" using run by (simp add: committed_Inr)
  with exec_reachable [OF reach] have reach': "reachable \<epsilon> L'" by metis
  from submit_logged [OF fresh reachable_ok [OF fresh reach] run] obtain plan' where
    found: "List.find (\<lambda>(_, p', e', _). p' = p \<and> e' = e) (request_log L') = Some (rid, p, e, plan')"
    and eq: "json_eq (JObj plan') (JObj plan)" by blast
  from life.later [OF fresh reach', of cs] obtain new where "request_log ?later = request_log L' @ new"
    by (auto simp: rows_later_def)
  with found find_external_key [of p e ?later] have
    "map_option request_key (find_external p e (requests ?later)) = Some (rid, p, e, plan')"
    by (simp add: find_append)
  then obtain r where r: "find_external p e (requests ?later) = Some r" "rq_id r = rid" "rq_plan r = plan'"
    by (auto simp: request_key_def)
  from run have ids: "identifier_of (JStr p) = Inr p" "identifier_of (JStr e) = Inr e"
    and sub: "(case sub of None \<Rightarrow> Inr () | Some s \<Rightarrow> validate_subscriber (isoformat \<epsilon>) s) = Inr ()"
    and stages: "\<exists>x. plan_stages plan = Inr x"
    by (auto simp: submit_def run_simps)
  have "submit \<epsilon> (JStr p) (JStr e) plan sub ?later = Inr (rid, ?later)"
    using ids sub stages r eq by (auto simp: submit_def op_simps simp del: identifier_of.simps)
  moreover have "\<not> json_eq (JObj plan') (JObj plan2)" if "\<not> json_eq (JObj plan) (JObj plan2)"
    using that eq by (metis json_eq_sym json_eq_trans)
  then have "plan_stages plan2 = Inr defs \<longrightarrow> \<not> json_eq (JObj plan) (JObj plan2) \<longrightarrow>
       submit \<epsilon> (JStr p) (JStr e) plan2 None ?later
         = Inl (ResourceError ''request ID already has different immutable inputs'')"
    using ids r by (cases defs) (auto simp: submit_def obind_def olift_def oget_def simp del: identifier_of.simps identifier_of_Inr)
  ultimately show ?thesis by blast
qed

theorem submission_is_idempotent_witness:
  "submit demo_env (JStr ''p'') (JStr ''e'') demo_plan None (execs demo_env [Schedule []] demo_submitted)
     = Inr (''uu'', execs demo_env [Schedule []] demo_submitted)"
  by (rule submission_is_idempotent [OF demo_fresh demo_configured_reachable demo_submit, THEN conjunct1])

section \<open>Capability tokens and request identity\<close>

text \<open>in every reachable ledger a stage holds a launch token and a maintenance token exactly while it
  owns resources and has not reported completion, no stage is granted twice, and a waiting stage was
  never granted.\<close>

theorem tokens_match_ownership:
  assumes "fresh_ids \<epsilon>" "reachable \<epsilon> L" "s \<in> set (stage_rows L)"
  shows "tokens_ok s"
  using tokens.holds [OF assms(1,2)] assms(3) by (simp add: rows_tokens_def list_all_iff)

theorem tokens_match_ownership_witness: "tokens_ok (hd (stage_rows demo_granted))"
  by (rule tokens_match_ownership [OF demo_fresh demo_reachable(2)]) (simp add: demo_granted_def)

text \<open>in every reachable ledger no two requests of one project share an external id.\<close>

theorem external_ids_unique:
  assumes "fresh_ids \<epsilon>" "reachable \<epsilon> L"
  shows "distinct (map (\<lambda>r. (rq_project r, rq_external r)) (requests L))"
  using externals.holds [OF assms] by (simp add: externals_unique_def request_log_def request_key_def comp_def)

theorem external_ids_unique_witness:
  "distinct (map (\<lambda>r. (rq_project r, rq_external r)) (requests demo_granted)) \<and> requests demo_granted \<noteq> []"
  using external_ids_unique [OF demo_fresh demo_reachable(2)] by (simp add: demo_granted_def)

end
