(* ===== verification/Operation_Wait.thy ===== *)
theory Operation_Wait
  imports Engine_Prelude
begin

text \<open>
  \<open>operation_wait.py\<close>: one bounded wait over worker tasks, local checks, CI monitors and pull-request
  monitors. What the four status functions of the other modules report at the \<open>n\<close>-th reading is a
  function of the record \<open>sources\<close>, as are the monotonic clock and the text (\<open>str\<close>) of a status that is
  no string. Durations are floats that may be infinite or no number; times are rationals.
\<close>

section \<open>Targets\<close>

datatype kind = Worker | Check | Ci | Pr

fun kind_text :: "kind \<Rightarrow> string" where
  "kind_text Worker = ''worker''"
| "kind_text Check = ''check''"
| "kind_text Ci = ''ci''"
| "kind_text Pr = ''pr''"

definition kind_of_text :: "string \<Rightarrow> kind option" where
  "kind_of_text s = List.find (\<lambda>k. kind_text k = s) [Worker, Check, Ci, Pr]"

text \<open>\<open>value.partition(":")\<close>: before and after the first colon, \<open>None\<close> without one.\<close>

fun partition_colon :: "string \<Rightarrow> (string \<times> string) option" where
  "partition_colon [] = None"
| "partition_colon (c # cs) =
     (if c = CHR '':'' then Some ([], cs) else map_option (\<lambda>(a, b). (c # a, b)) (partition_colon cs))"

definition parse_target :: "string \<Rightarrow> err + kind \<times> string" where
  "parse_target s =
     (case partition_colon s of
        Some (name, c # cs) \<Rightarrow>
          (case kind_of_text name of
             Some k \<Rightarrow> Inr (k, c # cs)
           | None \<Rightarrow> Inl (WaitError ''target must use KIND:ID''))
      | _ \<Rightarrow> Inl (WaitError ''target must use KIND:ID''))"

definition max_targets :: nat where
  "max_targets = 64"

definition validate_targets :: "string list \<Rightarrow> string \<Rightarrow> err + unit" where
  "validate_targets targets md =
     ebind (raise_if (targets = []) (WaitError ''operation wait requires at least one target'')) (\<lambda>_.
     ebind (raise_if (max_targets < length targets) (WaitError ''operation wait supports at most 64 targets'')) (\<lambda>_.
     ebind (emap parse_target targets) (\<lambda>parsed.
     ebind (raise_if (\<not> distinct parsed) (WaitError ''operation wait targets must be unique'')) (\<lambda>_.
     raise_if (md \<notin> {''all'', ''any''}) (WaitError ''operation wait mode must be one of: all, any'')))))"

lemma partition_colon_append:
  "partition_colon (name @ CHR '':'' # i) = Some (name, i) \<longleftrightarrow> CHR '':'' \<notin> set name"
proof (induction name)
  case (Cons c cs)
  show ?case
  proof (cases "partition_colon (cs @ CHR '':'' # i)")
    case (Some p)
    with Cons show ?thesis by (cases p) auto
  qed (use Cons in auto)
qed simp

lemma partition_colonD: "partition_colon s = Some (a, b) \<Longrightarrow> s = a @ CHR '':'' # b"
  by (induction s arbitrary: a) (auto split: if_splits)

lemma kind_text_inj [simp]: "kind_text k = kind_text k' \<longleftrightarrow> k = k'"
  by (cases k; cases k') auto

lemma kind_of_text_iff: "kind_of_text s = Some k \<longleftrightarrow> s = kind_text k"
  by (cases k) (auto simp: kind_of_text_def)

lemma kind_text_no_colon: "CHR '':'' \<notin> set (kind_text k)"
  by (cases k) auto

lemma parse_target_iff: "parse_target s = Inr (k, i) \<longleftrightarrow> i \<noteq> [] \<and> s = kind_text k @ CHR '':'' # i"
proof
  assume "parse_target s = Inr (k, i)"
  then show "i \<noteq> [] \<and> s = kind_text k @ CHR '':'' # i"
    by (auto simp: parse_target_def kind_of_text_iff dest!: partition_colonD split: option.splits list.splits)
next
  assume s: "i \<noteq> [] \<and> s = kind_text k @ CHR '':'' # i"
  then have "partition_colon s = Some (kind_text k, i)" by (simp add: partition_colon_append kind_text_no_colon)
  moreover have "kind_of_text (kind_text k) = Some k" by (simp add: kind_of_text_iff)
  ultimately show "parse_target s = Inr (k, i)"
    using s by (cases i) (simp_all add: parse_target_def)
qed

lemma parse_target_inj: "parse_target s = Inr p \<Longrightarrow> parse_target s' = Inr p \<Longrightarrow> s = s'"
  by (cases p) (simp add: parse_target_iff)

lemma emap_parse_distinct: "emap parse_target ts = Inr ps \<Longrightarrow> distinct ps \<longleftrightarrow> distinct ts"
proof (induction ts arbitrary: ps)
  case (Cons t ts)
  then obtain p qs where ps: "parse_target t = Inr p" "emap parse_target ts = Inr qs" "ps = p # qs"
    by (auto simp: err_simps)
  have "p \<in> set qs \<longleftrightarrow> t \<in> set ts"
    using emap_Inr_set [OF ps(2)] emap_Inr_in [OF ps(2)] ps(1) by (fastforce dest: parse_target_inj)
  with Cons.IH [OF ps(2)] ps(3) show ?case by simp
qed simp

section \<open>One operation\<close>

record sources =
  worker_report :: "nat \<Rightarrow> string \<Rightarrow> err + fields"
  check_report :: "nat \<Rightarrow> string \<Rightarrow> err + fields"
  ci_report :: "nat \<Rightarrow> string \<Rightarrow> err + fields"
  pr_report :: "nat \<Rightarrow> string \<Rightarrow> err + fields"
  text_of :: "json \<Rightarrow> string"
  clock_at :: "nat \<Rightarrow> rat"

definition check_terminal :: "string set" where
  "check_terminal = {''passed'', ''failed'', ''errored'', ''cancelled''}"

definition ci_terminal :: "string set" where
  "ci_terminal = {''completed'', ''failed'', ''cancelled'', ''timed_out'', ''unavailable'', ''ambiguous''}"

definition pr_terminal :: "string set" where
  "pr_terminal = {''ready'', ''merged'', ''failed_checks'', ''changes_requested'', ''conflicting'', ''head_changed'',
     ''closed'', ''cancelled'', ''timed_out'', ''unavailable'', ''ambiguous'', ''failed''}"

definition pr_success :: "string set" where
  "pr_success = {''ready'', ''merged''}"

text \<open>\<open>_single_report_item\<close>; \<open>error\<close> keeps the first 500 characters of a text.\<close>

definition single_report_item :: "(json \<Rightarrow> string) \<Rightarrow> fields \<Rightarrow> string \<Rightarrow> err + fields" where
  "single_report_item txt rep key =
     (case get rep key of
        JList [JObj item] \<Rightarrow> Inr item
      | _ \<Rightarrow>
          (case get rep ''invalid'' of
             JList (first # _) \<Rightarrow>
               let e = (case first of JObj fs \<Rightarrow> get fs ''error'' | v \<Rightarrow> v) in
               Inr [(''status'', JStr ''invalid''), (''failure_kind'', JStr ''descriptor_invalid''),
                    (''error'', JStr (take 500 (case e of JStr s \<Rightarrow> s | v \<Rightarrow> txt v)))]
           | _ \<Rightarrow> Inl (WaitError ''operation status is unavailable'')))"

definition requires_action :: "string \<Rightarrow> bool \<Rightarrow> bool" where
  "requires_action status term \<longleftrightarrow>
     status \<in> {''crashed'', ''stalled'', ''invalid''} \<or>
     (\<not> term \<and> status \<notin> {''starting'', ''running'', ''cancelling''})"

text \<open>\<open>str(item.get("status") or "unknown")\<close>\<close>

definition item_status :: "(json \<Rightarrow> string) \<Rightarrow> fields \<Rightarrow> string" where
  "item_status txt item =
     (if truthy (get item ''status'')
      then (case get item ''status'' of JStr s \<Rightarrow> s | v \<Rightarrow> txt v) else ''unknown'')"

record op_snapshot =
  os_target :: string
  os_kind :: kind
  os_id :: string
  os_status :: string
  os_terminal :: bool
  os_successful :: bool
  os_action :: bool
  os_details :: fields
  os_health :: "fields option"

definition detail_keys :: "string list" where
  "detail_keys = [''worker'', ''suite'', ''ci_conclusion'', ''failure_kind'', ''result_path'', ''summary_path'',
     ''evidence_path'', ''event_path'', ''finished_at'', ''duration_seconds'', ''wake_policy'']"

definition present :: "fields \<Rightarrow> string list \<Rightarrow> fields" where
  "present item ks = map (\<lambda>k. (k, get item k)) (filter (\<lambda>k. get item k \<noteq> JNull) ks)"

definition classify :: "(json \<Rightarrow> string) \<Rightarrow> kind \<Rightarrow> fields \<Rightarrow> string \<times> bool \<times> bool \<times> bool" where
  "classify txt k item =
     (let status = item_status txt item in
      case k of
        Worker \<Rightarrow>
          let term = truthy (get item ''terminal'')
          in (status, term, term \<and> status = ''completed'', get item ''health'' \<noteq> JNull)
      | Check \<Rightarrow>
          let term = status \<in> check_terminal
          in (status, term, term \<and> status = ''passed'', requires_action status term)
      | Ci \<Rightarrow>
          let term = status \<in> ci_terminal
          in (status, term, term \<and> status = ''completed'' \<and> get item ''ci_conclusion'' = JStr ''success'',
              requires_action status term)
      | Pr \<Rightarrow>
          let term = status \<in> pr_terminal
          in (status, term, term \<and> status \<in> pr_success, requires_action status term))"

definition fetch_item :: "sources \<Rightarrow> nat \<Rightarrow> kind \<Rightarrow> string \<Rightarrow> err + fields" where
  "fetch_item S n k i =
     (case k of
        Worker \<Rightarrow> worker_report S n i
      | Check \<Rightarrow> ebind (check_report S n i) (\<lambda>r. single_report_item (text_of S) r ''checks'')
      | Ci \<Rightarrow> ebind (ci_report S n i) (\<lambda>r. single_report_item (text_of S) r ''monitors'')
      | Pr \<Rightarrow> ebind (pr_report S n i) (\<lambda>r. single_report_item (text_of S) r ''monitors''))"

definition operation_snapshot :: "sources \<Rightarrow> nat \<Rightarrow> string \<Rightarrow> err + op_snapshot" where
  "operation_snapshot S n target =
     ebind (parse_target target) (\<lambda>(k, i).
     ebind (fetch_item S n k i) (\<lambda>item.
     let (status, term, succ, act) = classify (text_of S) k item in
     Inr \<lparr>os_target = target, os_kind = k, os_id = i, os_status = status, os_terminal = term, os_successful = succ,
          os_action = act, os_details = present item detail_keys,
          os_health = (case get item ''health'' of
             JObj h \<Rightarrow> Some (present h [''status'', ''message'', ''heartbeat_age_seconds'']) | _ \<Rightarrow> None)\<rparr>))"

section \<open>All targets\<close>

record wait_snapshot =
  ws_mode :: string
  ws_status :: string
  ws_wait_status :: string
  ws_condition_met :: bool
  ws_targets :: "op_snapshot list"
  ws_terminal_targets :: "string list"
  ws_action_targets :: "string list"
  ws_wakeup_targets :: "string list"
  ws_target_count :: nat
  ws_terminal_count :: nat
  ws_successful_count :: nat
  ws_unsuccessful_count :: nat
  ws_action_count :: nat
  ws_active_count :: nat
  ws_waited :: rat

definition summarize :: "string \<Rightarrow> op_snapshot list \<Rightarrow> wait_snapshot" where
  "summarize md snaps =
     (let term = filter os_terminal snaps;
          succ = filter os_successful term;
          unsucc = filter (\<lambda>s. \<not> os_successful s) term;
          act = filter os_action snaps;
          wake = filter (\<lambda>s. get_or (os_details s) ''wake_policy'' (JStr ''always'') \<noteq> JStr ''never'') snaps;
          met = (if md = ''any'' then term \<noteq> [] else length term = length snaps)
      in \<lparr>ws_mode = md,
          ws_status = (if act \<noteq> [] then ''action_required''
                       else if met then (if unsucc \<noteq> [] then ''unsuccessful'' else ''completed'') else ''waiting''),
          ws_wait_status = (if act \<noteq> [] then ''action_required'' else if met then ''condition_met'' else ''waiting''),
          ws_condition_met = met, ws_targets = snaps,
          ws_terminal_targets = map os_target term, ws_action_targets = map os_target act,
          ws_wakeup_targets = map os_target wake, ws_target_count = length snaps,
          ws_terminal_count = length term, ws_successful_count = length succ,
          ws_unsuccessful_count = length unsucc, ws_action_count = length act,
          ws_active_count = length (filter (\<lambda>s. \<not> os_terminal s \<and> \<not> os_action s) snaps), ws_waited = 0\<rparr>)"

definition operation_wait_snapshot :: "sources \<Rightarrow> nat \<Rightarrow> string list \<Rightarrow> string \<Rightarrow> err + wait_snapshot" where
  "operation_wait_snapshot S n targets md =
     ebind (validate_targets targets md) (\<lambda>_.
     ebind (emap (operation_snapshot S n) targets) (\<lambda>snaps. Inr (summarize md snaps)))"

section \<open>The wait\<close>

datatype pyfloat = Finite rat | Infinite bool | Not_a_Number

fun positive_finite :: "pyfloat \<Rightarrow> bool" where
  "positive_finite (Finite r) = (0 < r)"
| "positive_finite _ = False"

fun real_part :: "pyfloat \<Rightarrow> rat" where
  "real_part (Finite r) = r"
| "real_part _ = 0"

text \<open>\<open>round(x, 3)\<close>: to the nearest thousandth, a tie to the even one.\<close>

definition round3 :: "rat \<Rightarrow> rat" where
  "round3 x =
     (let y = x * 1000; f = \<lfloor>y\<rfloor>; d = y - of_int f in
      of_int (if d < 1/2 then f else if 1/2 < d then f + 1 else if even f then f else f + 1) / 1000)"

text \<open>The \<open>n\<close>-th round reads the sources once (at \<open>n\<close>) and the clock once (at \<open>Suc n\<close>; reading 0 is the
  start). \<open>None\<close>: out of fuel. The second component lists the snapshots handed to \<open>on_update\<close>.\<close>

fun wait_rounds ::
    "nat \<Rightarrow> sources \<Rightarrow> string list \<Rightarrow> string \<Rightarrow> rat \<Rightarrow> rat option \<Rightarrow> nat \<Rightarrow>
     (err + wait_snapshot \<times> wait_snapshot list) option" where
  "wait_rounds 0 S targets md started deadline n = None"
| "wait_rounds (Suc fuel) S targets md started deadline n =
     (case operation_wait_snapshot S n targets md of
        Inl e \<Rightarrow> Some (Inl e)
      | Inr snap0 \<Rightarrow>
          let t = clock_at S (Suc n); snap = snap0\<lparr>ws_waited := round3 (max (t - started) 0)\<rparr> in
          if ws_condition_met snap \<or> ws_wait_status snap = ''action_required'' then Some (Inr (snap, [snap]))
          else if (case deadline of None \<Rightarrow> False | Some d \<Rightarrow> d \<le> t) then
            let last = snap\<lparr>ws_status := ''waiting'', ws_wait_status := ''timed_out''\<rparr> in
            Some (Inr (last, [snap, last]))
          else map_option (\<lambda>r. ebind r (\<lambda>(res, seen). Inr (res, snap # seen)))
                 (wait_rounds fuel S targets md started deadline (Suc n)))"

definition wait_for_operations ::
    "nat \<Rightarrow> sources \<Rightarrow> string list \<Rightarrow> string \<Rightarrow> pyfloat \<Rightarrow> pyfloat option \<Rightarrow> pyfloat \<Rightarrow>
     (err + wait_snapshot \<times> wait_snapshot list) option" where
  "wait_for_operations fuel S targets md interval timeout stale =
     (case ebind (validate_targets targets md) (\<lambda>_.
           ebind (raise_if (\<not> positive_finite interval) (WaitError ''wait interval must be finite and positive'')) (\<lambda>_.
           ebind (raise_if (case timeout of None \<Rightarrow> False | Some t \<Rightarrow> \<not> positive_finite t)
                    (WaitError ''wait timeout must be finite and positive'')) (\<lambda>_.
           raise_if (\<not> positive_finite stale) (WaitError ''wait stale threshold must be finite and positive'')))) of
        Inl e \<Rightarrow> Some (Inl e)
      | Inr _ \<Rightarrow>
          let started = clock_at S 0 in
          wait_rounds fuel S targets md started (map_option (\<lambda>t. started + real_part t) timeout) 0)"

section \<open>Properties\<close>

text \<open>a target text is accepted exactly when it is one of the four kinds, a colon and a nonempty id, and
  parsing it returns that kind and that id (which may contain further colons).\<close>

theorem parse_target_roundtrip: "parse_target s = Inr (k, i) \<longleftrightarrow> i \<noteq> [] \<and> s = kind_text k @ CHR '':'' # i"
  by (rule parse_target_iff)

text \<open>a set of targets is accepted exactly when it has between 1 and 64 entries, each of them parses,
  no text occurs twice and the mode is \<open>all\<close> or \<open>any\<close>.\<close>

theorem validate_targets_iff:
  "validate_targets ts md = Inr () \<longleftrightarrow>
     ts \<noteq> [] \<and> length ts \<le> 64 \<and> (\<exists>ps. emap parse_target ts = Inr ps) \<and> distinct ts \<and> (md = ''all'' \<or> md = ''any'')"
  using emap_parse_distinct [of ts] by (auto simp: validate_targets_def max_targets_def err_simps)

text \<open>A summary counts every target once and is \<open>completed\<close> only over successful targets.\<close>

lemma summarize_counts:
  "ws_terminal_count (summarize md snaps) = ws_successful_count (summarize md snaps) + ws_unsuccessful_count (summarize md snaps)"
  using sum_length_filter_compl [of os_successful "filter os_terminal snaps"] by (simp add: summarize_def Let_def conj_commute)

text \<open>C12: a wait is reported as completed exactly when no target needs attention, the mode's condition holds
  and every finished target succeeded; in mode \<open>all\<close> that is when every target finished successfully.\<close>

theorem completed_iff:
  "(ws_status (summarize md snaps) = ''completed'') =
     (list_all (\<lambda>s. \<not> os_action s \<and> (if os_terminal s then os_successful s else md = ''any'')) snaps \<and>
      (if md = ''any'' then list_ex os_terminal snaps else True))"
proof -
  have len: "length (filter os_terminal snaps) = length snaps \<longleftrightarrow> (\<forall>s\<in>set snaps. os_terminal s)"
    by (metis filter_id_conv length_filter_less less_irrefl)
  show ?thesis by (auto simp: summarize_def Let_def len filter_empty_conv list_all_iff list_ex_iff)
qed

section \<open>When the wait ends\<close>

text \<open>The result of reading \<open>n\<close> and whether it ends the wait.\<close>

definition settled :: "wait_snapshot \<Rightarrow> bool" where
  "settled s \<longleftrightarrow> ws_condition_met s \<or> ws_wait_status s = ''action_required''"

definition expired :: "sources \<Rightarrow> rat option \<Rightarrow> nat \<Rightarrow> bool" where
  "expired S deadline n \<longleftrightarrow> (case deadline of None \<Rightarrow> False | Some d \<Rightarrow> d \<le> clock_at S (Suc n))"

text \<open>Reading \<open>n\<close> leaves the wait open.\<close>

definition open_at :: "sources \<Rightarrow> string list \<Rightarrow> string \<Rightarrow> rat option \<Rightarrow> nat \<Rightarrow> bool" where
  "open_at S ts md deadline n \<longleftrightarrow>
     (\<exists>s. operation_wait_snapshot S n ts md = Inr s \<and> \<not> settled s \<and> \<not> expired S deadline n)"

lemma wait_rounds_result:
  "wait_rounds fuel S ts md started deadline n = Some (Inr (res, seen)) \<Longrightarrow>
   \<exists>m s. n \<le> m \<and> m < n + fuel \<and> operation_wait_snapshot S m ts md = Inr s \<and> ws_targets res = ws_targets s \<and>
     (\<forall>j. n \<le> j \<and> j < m \<longrightarrow> open_at S ts md deadline j) \<and>
     (settled s \<and> ws_status res = ws_status s \<and> ws_wait_status res = ws_wait_status s \<or>
      \<not> settled s \<and> expired S deadline m \<and> ws_wait_status res = ''timed_out'')"
proof (induction fuel arbitrary: n seen)
  case (Suc fuel)
  show ?case
  proof (cases "operation_wait_snapshot S n ts md")
    case (Inl e)
    with Suc.prems show ?thesis by simp
  next
    case (Inr s)
    show ?thesis
    proof (cases "settled s \<or> expired S deadline n")
      case True
      with Suc.prems Inr show ?thesis
        by (intro exI [of _ n] exI [of _ s]) (auto simp: settled_def expired_def Let_def split: if_splits option.splits)
    next
      case False
      with Suc.prems Inr obtain seen' where "wait_rounds fuel S ts md started deadline (Suc n) = Some (Inr (res, seen'))"
        by (auto simp: settled_def expired_def Let_def err_simps split: if_splits option.splits)
      from Suc.IH [OF this] obtain m s' where m: "Suc n \<le> m" "m < Suc n + fuel" "operation_wait_snapshot S m ts md = Inr s'"
        "ws_targets res = ws_targets s'" "\<forall>j. Suc n \<le> j \<and> j < m \<longrightarrow> open_at S ts md deadline j"
        "settled s' \<and> ws_status res = ws_status s' \<and> ws_wait_status res = ws_wait_status s' \<or>
         \<not> settled s' \<and> expired S deadline m \<and> ws_wait_status res = ''timed_out''" by blast
      have "open_at S ts md deadline n" using False Inr by (auto simp: open_at_def)
      with m(5) have "\<forall>j. n \<le> j \<and> j < m \<longrightarrow> open_at S ts md deadline j" by (metis Suc_leI le_neq_implies_less)
      with m show ?thesis by (intro exI [of _ m] exI [of _ s']) auto
    qed
  qed
qed simp

lemma wait_rounds_returns:
  "k < fuel \<Longrightarrow> expired S deadline (n + k) \<Longrightarrow> wait_rounds fuel S ts md started deadline n \<noteq> None"
proof (induction fuel arbitrary: n k)
  case (Suc fuel)
  show ?case
  proof (cases k)
    case 0
    with Suc.prems show ?thesis by (auto simp: expired_def Let_def split: sum.splits option.splits)
  next
    case (Suc k')
    with Suc.prems Suc.IH [of k' "Suc n"] show ?thesis by (auto simp: Let_def split: sum.splits)
  qed
qed simp

text \<open>what a wait returns is the state of the targets at its last reading: all earlier readings were
  neither settled nor past the deadline, and the last one either is settled and is reported as it is,
  or it is not settled, the deadline has passed, and the wait reports a time-out.\<close>

theorem wait_returns_last_reading:
  assumes "wait_for_operations fuel S ts md interval timeout stale = Some (Inr (res, seen))"
  shows "\<exists>m s. operation_wait_snapshot S m ts md = Inr s \<and> ws_targets res = ws_targets s \<and>
     (\<forall>j<m. open_at S ts md (map_option (\<lambda>t. clock_at S 0 + real_part t) timeout) j) \<and>
     (settled s \<and> ws_status res = ws_status s \<and> ws_wait_status res = ws_wait_status s \<or>
      \<not> settled s \<and> expired S (map_option (\<lambda>t. clock_at S 0 + real_part t) timeout) m \<and> ws_wait_status res = ''timed_out'')"
proof -
  from assms have "wait_rounds fuel S ts md (clock_at S 0) (map_option (\<lambda>t. clock_at S 0 + real_part t) timeout) 0
      = Some (Inr (res, seen))"
    by (auto simp: wait_for_operations_def Let_def split: sum.splits)
  from wait_rounds_result [OF this] show ?thesis by auto
qed

text \<open>C13: a wait with a timeout returns as soon as some reading of the clock has passed the deadline, in at
  most one round more than there were readings before it.\<close>

theorem wait_with_timeout_returns:
  assumes "timeout = Some (Finite d)" "clock_at S 0 + d \<le> clock_at S (Suc k)" "k < fuel"
  shows "\<exists>r. wait_for_operations fuel S ts md interval timeout stale = Some r"
proof -
  have "expired S (Some (clock_at S 0 + d)) (0 + k)" using assms(2) by (simp add: expired_def)
  from wait_rounds_returns [OF assms(3) this, of ts md "clock_at S 0"] assms(1) show ?thesis
    by (auto simp: wait_for_operations_def Let_def split: sum.splits)
qed

text \<open>A check that still runs at the first reading and has passed at the second.\<close>

definition demo_sources :: sources where
  "demo_sources = \<lparr>worker_report = (\<lambda>_ _. Inr []),
     check_report = (\<lambda>n _. Inr [(''checks'', JList [JObj [(''status'', JStr (if n = 0 then ''running'' else ''passed''))]])]),
     ci_report = (\<lambda>_ _. Inr []), pr_report = (\<lambda>_ _. Inr []), text_of = (\<lambda>_. []), clock_at = of_nat\<rparr>"

lemmas wait_eval = wait_for_operations_def operation_wait_snapshot_def operation_snapshot_def fetch_item_def classify_def
  single_report_item_def item_status_def requires_action_def summarize_def check_terminal_def validate_targets_def
  max_targets_def parse_target_def kind_of_text_def present_def detail_keys_def demo_sources_def Let_def

lemma demo_wait:
  "\<exists>res seen. wait_for_operations 2 demo_sources [''check:c''] ''all'' (Finite 1) None (Finite 90) = Some (Inr (res, seen))
     \<and> ws_status res = ''completed''"
  by (simp add: wait_eval numeral_2_eq_2)

theorem wait_returns_last_reading_witness:
  "\<exists>(res :: wait_snapshot) m s. operation_wait_snapshot demo_sources m [''check:c''] ''all'' = Inr s \<and> ws_targets res = ws_targets s
     \<and> settled s \<and> ws_status res = ''completed''"
proof -
  from demo_wait obtain res seen where
    run: "wait_for_operations 2 demo_sources [''check:c''] ''all'' (Finite 1) None (Finite 90) = Some (Inr (res, seen))"
    and st: "ws_status res = ''completed''" by blast
  from wait_returns_last_reading [OF run] obtain m s where
    "operation_wait_snapshot demo_sources m [''check:c''] ''all'' = Inr s" "ws_targets res = ws_targets s" "settled s"
    by (auto simp: expired_def)
  with st show ?thesis by blast
qed

theorem wait_with_timeout_returns_witness:
  "\<exists>r. wait_for_operations 6 demo_sources [''check:c''] ''all'' (Finite 1) (Some (Finite 5)) (Finite 90) = Some r"
  by (rule wait_with_timeout_returns [OF refl, of demo_sources 5 4]) (simp_all add: demo_sources_def)

end
