(* ===== verification/Resource_Metrics.thy ===== *)
theory Resource_Metrics
  imports Resource_Demo
begin

text \<open>
  \<open>resource_metrics.py\<close>: what the ledger's rows and its event log tell about waiting and ownership.
  Times are integers, means and fractions rationals (the source computes with floats).

  The replay of the events (\<open>replay_event\<close>, then \<open>close_open\<close> for what is still owned) builds, per leaf, the
  spans in which some stage of the project held it; \<open>intervals_union\<close> measures their union.
\<close>

section \<open>The measure of a union of intervals\<close>

fun union_loop :: "int option \<Rightarrow> (int \<times> int) list \<Rightarrow> int" where
  "union_loop stop [] = 0"
| "union_loop stop ((start, fin) # spans) =
     max 0 (fin - max start (case stop of None \<Rightarrow> start | Some e \<Rightarrow> e))
     + union_loop (Some (max fin (case stop of None \<Rightarrow> fin | Some e \<Rightarrow> e))) spans"

definition intervals_union :: "(int \<times> int) list \<Rightarrow> int" where
  "intervals_union spans = union_loop None (sort spans)"

text \<open>The instants that the spans cover.\<close>

definition covered :: "(int \<times> int) list \<Rightarrow> int set" where
  "covered spans = (\<Union>(start, fin)\<in>set spans. {start..<fin})"

lemma covered_simps [simp]:
  "covered [] = {}"
  "covered ((start, fin) # spans) = {start..<fin} \<union> covered spans"
  by (simp_all add: covered_def)

lemma finite_covered [simp]: "finite (covered spans)"
  by (auto simp: covered_def)

lemma covered_sort [simp]: "covered (sort spans) = covered spans"
  by (simp add: covered_def)

lemma covered_from:
  "sorted ((start, fin) # spans) \<Longrightarrow> t \<in> covered spans \<Longrightarrow> start \<le> t"
  by (fastforce simp: covered_def less_eq_prod_def)

lemma card_span: "int (card {lo..<hi::int}) = max 0 (hi - lo)"
  by auto

lemma union_loop_card:
  "sorted spans \<Longrightarrow> union_loop (Some e) spans = int (card (covered spans - {..<e}))"
proof (induction spans arbitrary: e)
  case (Cons sp spans)
  obtain start fin where sp: "sp = (start, fin)" by (cases sp)
  have from_start: "start \<le> t" if "t \<in> covered spans" for t
    using covered_from [of start fin spans t] Cons.prems that by (simp add: sp)
  have split: "covered (sp # spans) - {..<e} = {max start e..<fin} \<union> (covered spans - {..<max fin e})"
    using from_start by (auto simp: sp not_less)
  have disj: "{max start e..<fin} \<inter> (covered spans - {..<max fin e}) = {}" by auto
  have "int (card (covered (sp # spans) - {..<e}))
      = int (card {max start e..<fin}) + int (card (covered spans - {..<max fin e}))"
    unfolding split by (subst card_Un_disjoint [OF _ _ disj]) simp_all
  also have "\<dots> = max 0 (fin - max start e) + union_loop (Some (max fin e)) spans"
    using Cons by (simp add: card_span del: card_atLeastLessThan_int)
  finally show ?case by (simp add: sp)
qed simp

lemma union_loop_None:
  "sorted spans \<Longrightarrow> union_loop None spans = int (card (covered spans))"
proof (cases spans)
  case (Cons sp rest)
  obtain start fin where sp: "sp = (start, fin)" by (cases sp)
  assume sorted: "sorted spans"
  have from_start: "start \<le> t" if "t \<in> covered rest" for t
    using covered_from [of start fin rest t] sorted that by (simp add: sp Cons)
  have split: "covered spans = {start..<fin} \<union> (covered rest - {..<fin})"
    using from_start by (auto simp: sp Cons not_less)
  have disj: "{start..<fin} \<inter> (covered rest - {..<fin}) = {}" by auto
  have "int (card (covered spans)) = int (card {start..<fin}) + int (card (covered rest - {..<fin}))"
    unfolding split by (subst card_Un_disjoint [OF _ _ disj]) simp_all
  also have "\<dots> = union_loop None spans"
    using sorted union_loop_card [of rest fin] by (simp add: sp Cons card_span del: card_atLeastLessThan_int)
  finally show ?thesis by simp
qed simp

lemma intervals_union_covered: "intervals_union spans = int (card (covered spans))"
  by (simp add: intervals_union_def union_loop_None)

lemma intervals_union_bounds:
  assumes "\<And>start fin. (start, fin) \<in> set spans \<Longrightarrow> lo \<le> start \<and> fin \<le> hi" "lo \<le> hi"
  shows "0 \<le> intervals_union spans \<and> intervals_union spans \<le> hi - lo"
proof -
  have "covered spans \<subseteq> {lo..<hi}" using assms(1) by (fastforce simp: covered_def)
  then have "card (covered spans) \<le> card {lo..<hi}" by (rule card_mono [rotated]) simp
  with assms(2) show ?thesis by (simp add: intervals_union_covered)
qed

section \<open>Waiting times\<close>

definition wait_sample :: "int option \<Rightarrow> int option \<Rightarrow> int list" where
  "wait_sample fin start =
     (case (fin, start) of (Some f, Some s) \<Rightarrow> if s \<le> f then [f - s] else [] | _ \<Rightarrow> [])"

type_synonym reason_table = "(string option \<times> int option) list"

definition table_get :: "reason_table \<Rightarrow> string option \<Rightarrow> int option" where
  "table_get tbl r = (case map_of tbl r of None \<Rightarrow> Some 0 | Some v \<Rightarrow> v)"

definition add_known :: "int option \<Rightarrow> int option \<Rightarrow> int option" where
  "add_known a b = (case (a, b) of (Some x, Some y) \<Rightarrow> Some (x + y) | _ \<Rightarrow> None)"

text \<open>The stored waiting times of one stage, and the time it has been waiting for its present reason.\<close>

definition measured_waits :: "int \<Rightarrow> stage \<Rightarrow> reason_table" where
  "measured_waits clk s =
     (let stored = map (\<lambda>(r, v). (Some r, v)) (st_wait_seconds s) in
      if st_state s = Waiting then
        let delta = clk - (case st_transition_at s of None \<Rightarrow> st_created_at s | Some u \<Rightarrow> u)
        in AList.update (st_reason s)
             (add_known (table_get stored (st_reason s)) (if 0 \<le> delta then Some delta else None)) stored
      else stored)"

definition sum_waits :: "int \<Rightarrow> stage list \<Rightarrow> reason_table" where
  "sum_waits clk stages =
     fold (\<lambda>(r, v) tbl. AList.update r (add_known (table_get tbl r) v) tbl) (concat (map (measured_waits clk) stages)) []"

definition count_reasons :: "stage list \<Rightarrow> (string option \<times> nat) list" where
  "count_reasons stages =
     fold (\<lambda>s tbl. AList.update (st_reason s) (Suc (case map_of tbl (st_reason s) of None \<Rightarrow> 0 | Some n \<Rightarrow> n)) tbl)
       (filter (\<lambda>s. st_state s = Waiting) stages) []"

definition ready_ages :: "int \<Rightarrow> stage list \<Rightarrow> int list" where
  "ready_ages clk stages =
     concat (map (\<lambda>s. if st_state s = Waiting \<and> st_ready_seq s \<noteq> None then wait_sample (Some clk) (st_ready_at s) else []) stages)"

section \<open>Replay of the event log\<close>

record usage =
  us_owned :: "((string \<times> string) \<times> int \<times> int) list"
  us_spans :: "(string \<times> (int \<times> int) list) list"
  us_units :: "(string \<times> int) list"
  us_releases :: "(string \<times> int) list"
  us_latencies :: "(string \<times> int list) list"
  us_invalid :: bool

definition no_usage :: usage where
  "no_usage = \<lparr>us_owned = [], us_spans = [], us_units = [], us_releases = [], us_latencies = [], us_invalid = False\<rparr>"

definition list_get :: "(string \<times> 'a list) list \<Rightarrow> string \<Rightarrow> 'a list" where
  "list_get tbl k = (case map_of tbl k of None \<Rightarrow> [] | Some xs \<Rightarrow> xs)"

definition int_get :: "(string \<times> int) list \<Rightarrow> string \<Rightarrow> int \<Rightarrow> int" where
  "int_get tbl k d = (case map_of tbl k of None \<Rightarrow> d | Some v \<Rightarrow> v)"

definition take_leaf :: "string \<Rightarrow> int \<Rightarrow> (string \<times> int) list \<Rightarrow> string \<times> claim \<Rightarrow> usage \<Rightarrow> usage" where
  "take_leaf subject t caps lc u =
     (let (leaf, c) = lc;
          weight = (if claim_mode c = Exclusive then int_get caps leaf 1 else claim_units c) in
      u\<lparr>us_owned := AList.update (subject, leaf) (t, weight) (us_owned u),
        us_latencies :=
          (case map_of (us_releases u) leaf of
             Some r \<Rightarrow> if r \<le> t then AList.update leaf (list_get (us_latencies u) leaf @ [t - r]) (us_latencies u)
                       else us_latencies u
           | None \<Rightarrow> us_latencies u)\<rparr>)"

definition add_span :: "string \<Rightarrow> int \<Rightarrow> int \<Rightarrow> int \<Rightarrow> usage \<Rightarrow> usage" where
  "add_span leaf start fin weight u =
     u\<lparr>us_spans := AList.update leaf (list_get (us_spans u) leaf @ [(start, fin)]) (us_spans u),
       us_units := AList.update leaf (int_get (us_units u) leaf 0 + weight * (fin - start)) (us_units u)\<rparr>"

definition give_leaf :: "string \<Rightarrow> int \<Rightarrow> string \<Rightarrow> usage \<Rightarrow> usage" where
  "give_leaf subject t leaf u =
     (let (start, weight) = (case map_of (us_owned u) (subject, leaf) of None \<Rightarrow> (t, 0) | Some p \<Rightarrow> p);
          u' = u\<lparr>us_owned := AList.delete (subject, leaf) (us_owned u)\<rparr> in
      if t < start then u'\<lparr>us_invalid := True\<rparr>
      else (add_span leaf start t weight u')\<lparr>us_releases := AList.update leaf t (us_releases u)\<rparr>)"

definition replay_event :: "string list \<Rightarrow> event \<Rightarrow> usage \<Rightarrow> usage" where
  "replay_event ids e u =
     (if ev_subject e \<notin> set ids then u
      else (case ev_kind e of
              Granted_Event a _ caps \<Rightarrow> fold (take_leaf (ev_subject e) (ev_at e) caps) a u
            | Finished_Event _ freed _ \<Rightarrow> fold (give_leaf (ev_subject e) (ev_at e)) freed u
            | _ \<Rightarrow> u))"

definition close_open :: "int \<Rightarrow> ((string \<times> string) \<times> int \<times> int) \<Rightarrow> usage \<Rightarrow> usage" where
  "close_open clk entry u =
     (let ((_, leaf), start, weight) = entry in
      if clk < start then u\<lparr>us_invalid := True\<rparr> else add_span leaf start clk weight u)"

definition usage_of :: "int \<Rightarrow> string list \<Rightarrow> event list \<Rightarrow> usage" where
  "usage_of clk ids events =
     (let u = fold (replay_event ids) events no_usage in fold (close_open clk) (us_owned u) u)"

section \<open>The report\<close>

definition mean_of :: "int list \<Rightarrow> rat option" where
  "mean_of xs = (if xs = [] then None else Some (of_int (sum_list xs) / of_nat (length xs)))"

record leaf_metrics =
  lm_owned_wall :: "int option"
  lm_unit_seconds :: "int option"
  lm_fraction :: "rat option"
  lm_latency_samples :: nat
  lm_mean_latency :: "rat option"

definition leaf_report :: "int option \<Rightarrow> usage \<Rightarrow> string \<times> (int \<times> int) list \<Rightarrow> string \<times> leaf_metrics" where
  "leaf_report window u ls =
     (let (leaf, spans) = ls; busy = intervals_union spans; lats = list_get (us_latencies u) leaf in
      (leaf, \<lparr>lm_owned_wall = (if us_invalid u then None else Some busy),
              lm_unit_seconds = (if us_invalid u then None else Some (int_get (us_units u) leaf 0)),
              lm_fraction = (case window of None \<Rightarrow> None
                             | Some w \<Rightarrow> if w = 0 then None else Some (of_int busy / of_int w)),
              lm_latency_samples = length lats,
              lm_mean_latency = mean_of lats\<rparr>))"

record metrics =
  mt_sample_size :: nat
  mt_observation :: "int option"
  mt_waits :: "int list"
  mt_mean_wait :: "rat option"
  mt_launches :: "int list"
  mt_mean_launch :: "rat option"
  mt_oldest :: "int option"
  mt_reasons :: "(string option \<times> nat) list"
  mt_wait_seconds :: reason_table
  mt_recovery :: nat
  mt_protected :: nat
  mt_bypass_count :: rat
  mt_resources :: "(string \<times> leaf_metrics) list"
  mt_clock_discontinuity :: bool

definition minimum :: "int list \<Rightarrow> int option" where
  "minimum xs = (if xs = [] then None else Some (Min (set xs)))"

definition maximum :: "int list \<Rightarrow> int option" where
  "maximum xs = (if xs = [] then None else Some (Max (set xs)))"

text \<open>A plan may preset \<open>bypass_count\<close> with any JSON value; the sum raises unless all are numbers.\<close>

fun number_of :: "json \<Rightarrow> err + rat" where
  "number_of (JInt i) = Inr (of_int i)"
| "number_of (JBool b) = Inr (if b then 1 else 0)"
| "number_of (JReal r) = Inr r"
| "number_of _ = Inl TypeError"

text \<open>\<open>report\<close>: the clock is read once.\<close>

definition report :: "int \<Rightarrow> string \<Rightarrow> ledger \<Rightarrow> err + metrics" where
  "report clk project L =
     (let stages = stages_query None False (Some project) L;
          waits = concat (map (\<lambda>s. wait_sample (st_granted_at s) (st_ready_at s)) stages);
          launches = concat (map (\<lambda>s. wait_sample (st_started_at s) (st_granted_at s)) stages);
          u = usage_of clk (map st_id stages) (event_log L);
          window = (case minimum (map st_created_at stages) of None \<Rightarrow> None
                    | Some first \<Rightarrow> if first \<le> clk then Some (clk - first) else None)
      in ebind (emap (\<lambda>s. number_of (st_bypass_count s)) stages) (\<lambda>bypasses.
         Inr \<lparr>mt_sample_size = length stages, mt_observation = window,
          mt_waits = waits, mt_mean_wait = mean_of waits,
          mt_launches = launches, mt_mean_launch = mean_of launches,
          mt_oldest = maximum (ready_ages clk stages),
          mt_reasons = count_reasons stages, mt_wait_seconds = sum_waits clk stages,
          mt_recovery = length (filter (\<lambda>s. st_state s = Recovery_Required) stages),
          mt_protected = length (filter (\<lambda>s. st_protection s \<noteq> None \<and> st_protection s \<noteq> Some []) stages),
          mt_bypass_count = sum_list bypasses,
          mt_resources = map (leaf_report window u) (us_spans u), mt_clock_discontinuity = us_invalid u\<rparr>))"

section \<open>Ownership stays within the observation\<close>

text \<open>What holds between \<open>lo\<close> and \<open>t\<close>: nothing is owned from a later time, every span lies in between.\<close>

definition usage_ok :: "int \<Rightarrow> int \<Rightarrow> usage \<Rightarrow> bool" where
  "usage_ok lo t u \<longleftrightarrow>
     \<not> us_invalid u \<and> (\<forall>k start w. map_of (us_owned u) k = Some (start, w) \<longrightarrow> lo \<le> start \<and> start \<le> t) \<and>
     (\<forall>leaf spans start fin. map_of (us_spans u) leaf = Some spans \<longrightarrow> (start, fin) \<in> set spans \<longrightarrow> lo \<le> start \<and> fin \<le> t)"

lemma usage_ok_later: "usage_ok lo t u \<Longrightarrow> t \<le> t' \<Longrightarrow> usage_ok lo t' u"
  unfolding usage_ok_def by (meson order_trans)

lemma usage_ok_take: "usage_ok lo t u \<Longrightarrow> lo \<le> t \<Longrightarrow> usage_ok lo t (take_leaf i t caps lc u)"
  by (auto simp: usage_ok_def take_leaf_def Let_def split: prod.split)

lemma usage_ok_span:
  "usage_ok lo t u \<Longrightarrow> lo \<le> start \<Longrightarrow> usage_ok lo t (add_span leaf start t w u)"
proof -
  assume ok: "usage_ok lo t u" and start: "lo \<le> start"
  have "lo \<le> a \<and> b \<le> t"
    if "map_of (us_spans (add_span leaf start t w u)) leaf' = Some spans" "(a, b) \<in> set spans" for leaf' spans a b
  proof (cases "leaf' = leaf")
    case True
    with that have "(a, b) \<in> set (list_get (us_spans u) leaf) \<or> (a, b) = (start, t)" by (auto simp: add_span_def)
    moreover have "lo \<le> a \<and> b \<le> t" if "(a, b) \<in> set (list_get (us_spans u) leaf)"
      using that ok by (cases "map_of (us_spans u) leaf") (auto simp: usage_ok_def list_get_def)
    ultimately show ?thesis using start by auto
  next
    case False
    with that ok show ?thesis by (auto simp: add_span_def usage_ok_def)
  qed
  with ok show ?thesis by (simp add: usage_ok_def) (simp add: add_span_def)
qed

lemma usage_ok_give:
  assumes "usage_ok lo t u" "lo \<le> t"
  shows "usage_ok lo t (give_leaf i t leaf u)"
proof -
  obtain start w where sw: "(case map_of (us_owned u) (i, leaf) of None \<Rightarrow> (t, 0) | Some p \<Rightarrow> p) = (start, w)"
    by (metis surj_pair)
  then have bounds: "lo \<le> start" "start \<le> t"
    using assms by (auto simp: usage_ok_def split: option.splits)
  let ?u = "u\<lparr>us_owned := AList.delete (i, leaf) (us_owned u)\<rparr>"
  have "usage_ok lo t ?u" using assms(1) by (auto simp: usage_ok_def delete_conv')
  from usage_ok_span [OF this bounds(1)]
  have "usage_ok lo t ((add_span leaf start t w ?u)\<lparr>us_releases := AList.update leaf t (us_releases u)\<rparr>)"
    by (simp add: usage_ok_def)
  with bounds sw show ?thesis by (simp add: give_leaf_def)
qed

lemma usage_ok_fold:
  "(\<And>x u. x \<in> set xs \<Longrightarrow> usage_ok lo t u \<Longrightarrow> usage_ok lo t (f x u)) \<Longrightarrow> usage_ok lo t u \<Longrightarrow> usage_ok lo t (fold f xs u)"
  by (induction xs arbitrary: u) auto

lemma usage_ok_event: "usage_ok lo (ev_at e) u \<Longrightarrow> lo \<le> ev_at e \<Longrightarrow> usage_ok lo (ev_at e) (replay_event ids e u)"
  by (auto simp: replay_event_def intro!: usage_ok_fold usage_ok_take usage_ok_give split: event_kind.splits)

lemma usage_ok_events:
  "sorted (map ev_at es) \<Longrightarrow> (\<And>e. e \<in> set es \<Longrightarrow> t \<le> ev_at e \<and> ev_at e \<le> clk) \<Longrightarrow> lo \<le> t \<Longrightarrow> t \<le> clk \<Longrightarrow>
   usage_ok lo t u \<Longrightarrow> usage_ok lo clk (fold (replay_event ids) es u)"
proof (induction es arbitrary: t u)
  case Nil
  then show ?case by (auto intro: usage_ok_later)
next
  case (Cons e es)
  from Cons.prems have t: "t \<le> ev_at e" "ev_at e \<le> clk" by auto
  have "usage_ok lo (ev_at e) (replay_event ids e u)"
    using usage_ok_event [OF usage_ok_later [OF Cons.prems(5) t(1)]] Cons.prems(3) t by simp
  with Cons.IH [of "ev_at e"] Cons.prems t show ?case by auto
qed

lemma usage_ok_close: "usage_ok lo clk u \<Longrightarrow> lo \<le> snd_start \<Longrightarrow> snd_start \<le> clk \<Longrightarrow>
   usage_ok lo clk (close_open clk (k, snd_start, w) u)"
  by (cases k) (auto simp: close_open_def intro: usage_ok_span)

lemma owned_distinct: "distinct (keys (us_owned u)) \<Longrightarrow> distinct (keys (us_owned (replay_event ids e u)))"
proof -
  have take: "distinct (keys (us_owned u)) \<Longrightarrow> distinct (keys (us_owned (take_leaf i t caps lc u)))" for i t caps lc and u :: usage
    by (auto simp: take_leaf_def Let_def distinct_keys_update split: prod.split)
  have give: "distinct (keys (us_owned u)) \<Longrightarrow> distinct (keys (us_owned (give_leaf i t leaf u)))" for i t leaf and u :: usage
    by (auto simp: give_leaf_def add_span_def Let_def keys_def distinct_delete split: prod.split)
  have "distinct (keys (us_owned u)) \<Longrightarrow> distinct (keys (us_owned (fold (take_leaf i t caps) a u)))" for i t caps a
    by (induction a arbitrary: u) (auto intro: take)
  moreover have "distinct (keys (us_owned u)) \<Longrightarrow> distinct (keys (us_owned (fold (give_leaf i t) freed u)))" for i t freed
    by (induction freed arbitrary: u) (auto intro: give)
  ultimately show "distinct (keys (us_owned u)) \<Longrightarrow> ?thesis"
    by (auto simp: replay_event_def split: event_kind.splits)
qed

lemma usage_of_ok:
  assumes "sorted (map ev_at es)" "\<And>e. e \<in> set es \<Longrightarrow> lo \<le> ev_at e \<and> ev_at e \<le> clk" "lo \<le> clk"
  shows "usage_ok lo clk (usage_of clk ids es)"
proof -
  let ?u = "fold (replay_event ids) es no_usage"
  have ok: "usage_ok lo clk ?u"
    using usage_ok_events [OF assms(1), of lo clk lo no_usage ids] assms by (auto simp: usage_ok_def no_usage_def)
  have "distinct (keys (us_owned (fold (replay_event ids) es u)))" if "distinct (keys (us_owned u))" for u
    using that by (induction es arbitrary: u) (auto intro: owned_distinct)
  then have "distinct (keys (us_owned ?u))" by (simp add: no_usage_def keys_def)
  then have "lo \<le> start \<and> start \<le> clk" if "(k, start, w) \<in> set (us_owned ?u)" for k start w
    using ok that by (cases k) (fastforce simp: usage_ok_def keys_def)
  then have "usage_ok lo clk (fold (close_open clk) (us_owned ?u) ?u)"
    using ok by (intro usage_ok_fold [of "us_owned ?u"]) (auto intro: usage_ok_close)
  then show ?thesis by (simp add: usage_of_def Let_def)
qed

lemma spans_distinct: "distinct (keys (us_spans (usage_of clk ids es)))"
proof -
  have add: "distinct (keys (us_spans u)) \<Longrightarrow> distinct (keys (us_spans (add_span leaf s f w u)))" for leaf s f w u
    by (simp add: add_span_def distinct_keys_update)
  have give: "distinct (keys (us_spans u)) \<Longrightarrow> distinct (keys (us_spans (give_leaf i t leaf u)))" for i t leaf u
    by (auto simp: give_leaf_def Let_def intro!: add split: prod.split)
  have give': "distinct (keys (us_spans u)) \<Longrightarrow> distinct (keys (us_spans (fold (give_leaf i t) freed u)))" for i t freed u
    by (induction freed arbitrary: u) (auto intro: give)
  have take: "us_spans (fold (take_leaf i t caps) a u) = us_spans u" for i t caps a u
    by (induction a arbitrary: u) (auto simp: take_leaf_def Let_def split: prod.split)
  have ev: "distinct (keys (us_spans u)) \<Longrightarrow> distinct (keys (us_spans (replay_event ids e u)))" for e u
    by (auto simp: replay_event_def take intro: give' split: event_kind.splits)
  have close: "distinct (keys (us_spans u)) \<Longrightarrow> distinct (keys (us_spans (close_open clk k u)))" for k u
    by (auto simp: close_open_def Let_def intro: add split: prod.split)
  have evs: "distinct (keys (us_spans u)) \<Longrightarrow> distinct (keys (us_spans (fold (replay_event ids) es u)))" for u
    by (induction es arbitrary: u) (auto intro: ev)
  have "distinct (keys (us_spans u)) \<Longrightarrow> distinct (keys (us_spans (fold (close_open clk) xs u)))" for u xs
    by (induction xs arbitrary: u) (auto intro: close)
  from this [OF evs [of no_usage]] show ?thesis by (simp add: usage_of_def Let_def no_usage_def keys_def)
qed

section \<open>Properties\<close>

lemma replay_filter:
  "fold (replay_event ids) es u = fold (replay_event ids) (filter (\<lambda>e. ev_subject e \<in> set ids) es) u"
  by (induction es arbitrary: u) (auto simp: replay_event_def)

lemma usage_of_filter: "usage_of clk ids es = usage_of clk ids (filter (\<lambda>e. ev_subject e \<in> set ids) es)"
  by (simp add: usage_of_def replay_filter [of ids es])

lemma minimum_Some: "minimum xs = Some m \<Longrightarrow> x \<in> set xs \<Longrightarrow> m \<le> x"
  by (auto simp: minimum_def split: if_splits)

text \<open>C11: \<open>intervals_union\<close> counts every instant that some span covers exactly once, whatever the order and
  the overlaps of the spans.\<close>

theorem interval_union_exact: "intervals_union spans = int (card {t. \<exists>(start, fin)\<in>set spans. start \<le> t \<and> t < fin})"
proof -
  have "{t. \<exists>(start, fin)\<in>set spans. start \<le> t \<and> t < fin} = covered spans" by (force simp: covered_def)
  then show ?thesis by (simp add: intervals_union_covered)
qed

text \<open>over an event log in the order of time, whose entries on the project's stages lie between the
  creation of its first stage and the reading of the clock, the report sees no clock discontinuity,
  and no leaf is owned for longer than the observation.\<close>

theorem metrics_within_observation:
  assumes rep: "report clk project L = Inr m" and w: "mt_observation m = Some w"
    and leaf: "(leaf, lm) \<in> set (mt_resources m)"
    and sorted: "sorted (map ev_at (event_log L))"
    and inside: "\<And>e. e \<in> set (event_log L) \<Longrightarrow> ev_subject e \<in> st_id ` set (stages_query None False (Some project) L) \<Longrightarrow>
      clk - w \<le> ev_at e \<and> ev_at e \<le> clk"
  shows "\<not> mt_clock_discontinuity m \<and> (\<exists>busy. lm_owned_wall lm = Some busy \<and> 0 \<le> busy \<and> busy \<le> w)"
proof -
  let ?ids = "map st_id (stages_query None False (Some project) L)"
  let ?es = "filter (\<lambda>e. ev_subject e \<in> set ?ids) (event_log L)"
  let ?u = "usage_of clk ?ids (event_log L)"
  from rep w have pos: "0 \<le> w"
    by (auto simp: report_def Let_def err_simps split: option.splits if_splits)
  have "sorted (map ev_at ?es)" using sorted by (rule sorted_filter)
  from usage_of_ok [OF this, of "clk - w" clk ?ids] inside pos have ok: "usage_ok (clk - w) clk ?u"
    by (subst usage_of_filter) auto
  from rep leaf obtain spans where sp: "(leaf, spans) \<in> set (us_spans ?u)" "lm_owned_wall lm = (if us_invalid ?u then None else Some (intervals_union spans))"
    and inv: "mt_clock_discontinuity m = us_invalid ?u"
    by (auto simp: report_def leaf_report_def Let_def err_simps)
  from sp(1) spans_distinct [of clk ?ids "event_log L"] have "map_of (us_spans ?u) leaf = Some spans"
    by (simp add: keys_def)
  with ok have "\<And>a b. (a, b) \<in> set spans \<Longrightarrow> clk - w \<le> a \<and> b \<le> clk" by (auto simp: usage_ok_def)
  from intervals_union_bounds [of spans "clk - w" clk, OF this] pos sp(2) inv ok show ?thesis
    by (auto simp: usage_ok_def)
qed

text \<open>One stage that waited from 9 to 11 for its leaf and released it at 15.\<close>

definition demo_log :: ledger where
  "demo_log = demo_configured\<lparr>
     requests := [\<lparr>rq_id = ''r'', rq_project = ''p'', rq_external = ''e'', rq_plan = [], rq_subscribers = [], rq_created_at = 1\<rparr>],
     stage_rows := [(new_stage ''s'' ''a'' ''r'' ''p'' 1 2 [])\<lparr>st_state := Passed, st_ready_at := Some 9, st_granted_at := Some 11\<rparr>],
     event_log := [\<lparr>ev_at = 11, ev_subject = ''s'',
         ev_kind = Granted_Event [(''gpu'', \<lparr>claim_mode = Exclusive, claim_units = 1, claim_group = JNull\<rparr>)] 1 [(''gpu'', 1)]\<rparr>,
       \<lparr>ev_at = 15, ev_subject = ''s'', ev_kind = Finished_Event Passed [''gpu''] JNull\<rparr>]\<rparr>"

definition demo_metrics :: metrics where
  "demo_metrics = projr (report 20 ''p'' demo_log)"

lemma demo_log_stages: "stages_query None False (Some ''p'') demo_log
    = [(new_stage ''s'' ''a'' ''r'' ''p'' 1 2 [])\<lparr>st_state := Passed, st_ready_at := Some 9, st_granted_at := Some 11\<rparr>]"
  by (simp add: stages_query_def demo_log_def new_stage_def)

definition demo_usage :: usage where
  "demo_usage = \<lparr>us_owned = [], us_spans = [(''gpu'', [(11, 15)])], us_units = [(''gpu'', 4)], us_releases = [(''gpu'', 15)],
     us_latencies = [], us_invalid = False\<rparr>"

lemma demo_usage: "usage_of 20 [''s''] (event_log demo_log) = demo_usage"
  by code_simp

lemma demo_report: "report 20 ''p'' demo_log = Inr demo_metrics" "mt_observation demo_metrics = Some 18"
  "\<exists>lm. (''gpu'', lm) \<in> set (mt_resources demo_metrics)"
  by (simp_all add: demo_metrics_def report_def demo_log_stages demo_usage Let_def minimum_def new_stage_def)
    (simp add: demo_usage_def leaf_report_def Let_def)

theorem metrics_within_observation_witness:
  "\<exists>lm busy. report 20 ''p'' demo_log = Inr demo_metrics \<and> (''gpu'', lm) \<in> set (mt_resources demo_metrics)
     \<and> lm_owned_wall lm = Some busy \<and> 0 \<le> busy \<and> busy \<le> 18"
proof -
  obtain lm where lm: "(''gpu'', lm) \<in> set (mt_resources demo_metrics)" using demo_report(3) ..
  have "\<exists>busy. lm_owned_wall lm = Some busy \<and> 0 \<le> busy \<and> busy \<le> 18"
    by (rule metrics_within_observation [OF demo_report(1,2) lm, THEN conjunct2]) (auto simp: demo_log_def)
  with demo_report(1) lm show ?thesis by blast
qed

end
