(* ===== verification/Recipe_Paths.thy ===== *)
theory Recipe_Paths
  imports Engine_Prelude
begin

text \<open>
  Relative POSIX paths as \<open>PurePosixPath\<close> reads them, and the test that the typed recipes
  (\<open>resource_adapters._relative_path\<close>) and the retained input manifests
  (\<open>resource_service.validate_input_manifest\<close>) apply to every path.
\<close>

fun split_on :: "char \<Rightarrow> string \<Rightarrow> string list" where
  "split_on c [] = [[]]"
| "split_on c (x # xs) =
     (if x = c then [] # split_on c xs
      else case split_on c xs of [] \<Rightarrow> [[x]] | p # ps \<Rightarrow> (x # p) # ps)"

fun join_with :: "char \<Rightarrow> string list \<Rightarrow> string" where
  "join_with c [] = []"
| "join_with c [p] = p"
| "join_with c (p # ps) = p @ c # join_with c ps"

abbreviation slash :: char where
  "slash \<equiv> CHR ''/''"

text \<open>\<open>PurePosixPath(s).parts\<close> of a relative path: empty components and \<open>"."\<close> disappear.\<close>

definition path_parts :: "string \<Rightarrow> string list" where
  "path_parts s = filter (\<lambda>p. p \<noteq> [] \<and> p \<noteq> ''.'') (split_on slash s)"

fun absolute :: "string \<Rightarrow> bool" where
  "absolute [] = False"
| "absolute (c # cs) = (c = slash)"

definition as_posix :: "string \<Rightarrow> string" where
  "as_posix s = (if path_parts s = [] then ''.'' else join_with slash (path_parts s))"

definition safe_path :: "string \<Rightarrow> bool" where
  "safe_path s \<longleftrightarrow>
     \<not> absolute s \<and> as_posix s = s \<and> CHR 0x5C \<notin> set s \<and>
     \<not> list_ex (\<lambda>p. p \<in> {[], ''.'', ''..''}) (path_parts s) \<and> ''.orchestrator'' \<notin> set (path_parts s)"

text \<open>\<open>PurePosixPath(rel) == PurePosixPath(dir) or PurePosixPath(dir) in PurePosixPath(rel).parents\<close>, for
  relative paths.\<close>

definition below :: "string \<Rightarrow> string \<Rightarrow> bool" where
  "below dir rel \<longleftrightarrow> take (length (path_parts dir)) (path_parts rel) = path_parts dir"

section \<open>A safe path stays below the directory it is read from\<close>

text \<open>Where the components of a path lead from the directory \<open>base\<close>, links aside.\<close>

fun enter :: "string \<Rightarrow> string list \<Rightarrow> string list" where
  "enter p base = (if p = ''..'' then butlast base else if p = [] \<or> p = ''.'' then base else base @ [p])"

definition resolve :: "string list \<Rightarrow> string \<Rightarrow> string list" where
  "resolve base s = (if absolute s then fold enter (split_on slash s) [] else fold enter (split_on slash s) base)"

lemma fold_enter:
  "''..'' \<notin> set ps \<Longrightarrow> fold enter ps base = base @ filter (\<lambda>p. p \<noteq> [] \<and> p \<noteq> ''.'') ps"
  by (induction ps arbitrary: base) auto

lemma safe_path_parts: "safe_path s \<Longrightarrow> (path_parts s = [] \<longrightarrow> s = ''.'') \<and> ''..'' \<notin> set (path_parts s)"
  by (auto simp: safe_path_def as_posix_def list_ex_iff path_parts_def split: if_splits)

lemma resolve_safe: "safe_path s \<Longrightarrow> resolve base s = base @ path_parts s"
proof -
  assume safe: "safe_path s"
  then have "''..'' \<notin> set (split_on slash s)"
    using safe_path_parts [OF safe] by (auto simp: path_parts_def)
  with safe show ?thesis by (simp add: resolve_def safe_path_def fold_enter path_parts_def)
qed

lemma below_refl [simp]: "below s s"
  by (simp add: below_def)

end
