(* ===== verification/Release_Upgrade.thy ===== *)
theory Release_Upgrade
  imports Recipe_Paths Host_Binding
begin

text \<open>
  The typed release-upgrade adapter (\<open>resource_adapters.py\<close>): the recipe a project registers, the
  private command it compiles to, the pinned input handed to the adapter, and the validation of the
  result the adapter writes. SHA-256 of a file and of a canonical JSON value, the file system and the
  JSON parser's text layer are arguments.
\<close>

section \<open>Recipes\<close>

abbreviation upgrade_kind :: string where
  "upgrade_kind \<equiv> ''release-upgrade''"

definition recipe_fields :: "string list" where
  "recipe_fields = [''kind'', ''inputs'', ''needs'', ''adapter'', ''previous_boundary'', ''fixtures'', ''pre_assertions'',
     ''post_assertions'', ''readbacks'', ''timeout_seconds'']"

definition only_keys :: "fields \<Rightarrow> string list \<Rightarrow> bool" where
  "only_keys fs ks \<longleftrightarrow> list_all (\<lambda>k. k \<in> set ks) (keys fs)"

definition exact_keys :: "fields \<Rightarrow> string list \<Rightarrow> bool" where
  "exact_keys fs ks \<longleftrightarrow> only_keys fs ks \<and> list_all (\<lambda>k. k \<in> set (keys fs)) ks"

fun relative_path :: "json \<Rightarrow> err + string" where
  "relative_path (JStr s) =
     ebind (raise_if (s = [] \<or> 4096 < length s) (ResourceError ''must be a nonempty bounded relative path'')) (\<lambda>_.
     ebind (raise_if (\<not> safe_path s) (ResourceError ''must stay inside captured project inputs'')) (\<lambda>_. Inr s))"
| "relative_path _ = Inl (ResourceError ''must be a nonempty bounded relative path'')"

definition path_list :: "nat \<Rightarrow> json \<Rightarrow> err + string list" where
  "path_list maximum v =
     (case v of
        JList xs \<Rightarrow>
          ebind (raise_if (xs = [] \<or> maximum < length xs \<or> \<not> list_all is_str xs \<or> \<not> distinct xs)
                   (ResourceError ''must be a nonempty unique bounded path list'')) (\<lambda>_.
          emap relative_path xs)
      | _ \<Rightarrow> Inl (ResourceError ''must be a nonempty unique bounded path list''))"

fun boundary_pattern :: "string \<Rightarrow> bool" where
  "boundary_pattern [] = False"
| "boundary_pattern (c # cs) = (is_alnum c \<and> length cs \<le> 159 \<and> list_all is_id_char cs)"

definition covered_by :: "string list \<Rightarrow> string \<Rightarrow> bool" where
  "covered_by inputs rel = list_ex (\<lambda>dir. below dir rel) inputs"

record upgrade =
  ug_inputs :: "string list"
  ug_needs :: "fields list"
  ug_adapter :: string
  ug_previous :: string
  ug_fixtures :: "string list"
  ug_pre :: "string list"
  ug_post :: "string list"
  ug_readbacks :: "string list"
  ug_timeout :: "rat option"

definition upgrade_need :: "json \<Rightarrow> err + fields" where
  "upgrade_need need =
     (case need of
        JObj fs \<Rightarrow>
          (if exact_keys fs [''resource'', ''mode''] \<and>
              (case get fs ''resource'' of JStr s \<Rightarrow> s \<noteq> [] \<and> length s \<le> 160 | _ \<Rightarrow> False) \<and>
              get fs ''mode'' = JStr ''exclusive''
           then Inr fs
           else Inl (ResourceError ''release-upgrade resource needs must be explicit exclusive selectors''))
      | _ \<Rightarrow> Inl (ResourceError ''release-upgrade resource needs must be explicit exclusive selectors''))"

definition previous_boundary :: "json \<Rightarrow> err + string" where
  "previous_boundary v =
     (case v of JStr s \<Rightarrow> if boundary_pattern s then Inr s
                        else Inl (ResourceError ''previous boundary must be a bounded ASCII identifier'')
      | _ \<Rightarrow> Inl (ResourceError ''previous boundary must be a bounded ASCII identifier''))"

definition upgrade_timeout :: "json \<Rightarrow> err + rat option" where
  "upgrade_timeout v =
     (case v of
        JNull \<Rightarrow> Inr None
      | JInt i \<Rightarrow> if 0 < i then Inr (Some (of_int i)) else Inl (ResourceError ''release-upgrade timeout must be positive and finite'')
      | JReal r \<Rightarrow> if 0 < r then Inr (Some r) else Inl (ResourceError ''release-upgrade timeout must be positive and finite'')
      | _ \<Rightarrow> Inl (ResourceError ''release-upgrade timeout must be positive and finite''))"

definition role_paths :: "upgrade \<Rightarrow> string list" where
  "role_paths u = ug_adapter u # ug_fixtures u @ ug_pre u @ ug_post u @ ug_readbacks u"

definition normalize_upgrade :: "json \<Rightarrow> err + upgrade" where
  "normalize_upgrade recipe =
     (case recipe of
        JObj fs \<Rightarrow>
          ebind (raise_if (\<not> only_keys fs recipe_fields) (ResourceError ''unsupported release-upgrade recipe fields'')) (\<lambda>_.
          ebind (raise_if (get fs ''kind'' \<noteq> JStr upgrade_kind) (ResourceError ''unsupported typed resource recipe kind'')) (\<lambda>_.
          ebind (path_list 64 (get fs ''inputs'')) (\<lambda>inputs.
          ebind (case get fs ''needs'' of JList [n] \<Rightarrow> Inr [n]
                 | _ \<Rightarrow> Inl (ResourceError ''release-upgrade requires exactly one exclusive resource selector'')) (\<lambda>ns.
          ebind (emap upgrade_need ns) (\<lambda>needs.
          ebind (relative_path (get fs ''adapter'')) (\<lambda>adapter.
          ebind (previous_boundary (get fs ''previous_boundary'')) (\<lambda>previous.
          ebind (path_list 16 (get fs ''fixtures'')) (\<lambda>fixtures.
          ebind (path_list 32 (get fs ''pre_assertions'')) (\<lambda>pre.
          ebind (path_list 32 (get fs ''post_assertions'')) (\<lambda>post.
          ebind (path_list 32 (get fs ''readbacks'')) (\<lambda>readbacks.
          ebind (upgrade_timeout (get fs ''timeout_seconds'')) (\<lambda>timeout.
          let u = \<lparr>ug_inputs = inputs, ug_needs = needs, ug_adapter = adapter, ug_previous = previous,
                   ug_fixtures = fixtures, ug_pre = pre, ug_post = post, ug_readbacks = readbacks, ug_timeout = timeout\<rparr> in
          ebind (raise_if (\<not> list_all (covered_by inputs) (role_paths u))
                   (ResourceError ''release-upgrade path is not covered by recipe inputs'')) (\<lambda>_.
          Inr u)))))))))))))
      | _ \<Rightarrow> Inl (ResourceError ''unsupported release-upgrade recipe fields''))"

definition strings :: "string list \<Rightarrow> json" where
  "strings xs = JList (map JStr xs)"

definition timeout_field :: "upgrade \<Rightarrow> fields" where
  "timeout_field u = (case ug_timeout u of None \<Rightarrow> [] | Some r \<Rightarrow> [(''timeout_seconds'', JReal r)])"

text \<open>The normalized recipe as the dict the source returns.\<close>

definition upgrade_json :: "upgrade \<Rightarrow> json" where
  "upgrade_json u = JObj
     ([(''kind'', JStr upgrade_kind), (''inputs'', strings (ug_inputs u)), (''needs'', JList (map JObj (ug_needs u))),
       (''adapter'', JStr (ug_adapter u)), (''previous_boundary'', JStr (ug_previous u)),
       (''fixtures'', strings (ug_fixtures u)), (''pre_assertions'', strings (ug_pre u)),
       (''post_assertions'', strings (ug_post u)), (''readbacks'', strings (ug_readbacks u))] @ timeout_field u)"

section \<open>Compilation\<close>

definition upgrade_command :: "upgrade \<Rightarrow> fields" where
  "upgrade_command u =
     [(''kind'', JStr upgrade_kind), (''adapter'', JStr (ug_adapter u)), (''previous_boundary'', JStr (ug_previous u)),
      (''fixtures'', strings (ug_fixtures u)), (''pre_assertions'', strings (ug_pre u)),
      (''post_assertions'', strings (ug_post u)), (''readbacks'', strings (ug_readbacks u))] @ timeout_field u"

definition compile_recipe :: "fields \<Rightarrow> err + json" where
  "compile_recipe recipe =
     (if get recipe ''kind'' \<noteq> JStr upgrade_kind then
        (case map_of recipe ''stages'' of None \<Rightarrow> Inl (KeyError ''stages'') | Some v \<Rightarrow> Inr v)
      else ebind (normalize_upgrade (JObj recipe)) (\<lambda>u.
        Inr (JList [JObj [(''id'', JStr upgrade_kind), (''needs'', JList (map JObj (ug_needs u))),
                          (''commands'', JList [JObj (upgrade_command u)])]])))"

text \<open>\<open>*value\<close>: the elements of any iterable.\<close>

fun spread :: "json \<Rightarrow> err + json list" where
  "spread (JList xs) = Inr xs"
| "spread (JStr s) = Inr (map (\<lambda>c. JStr [c]) s)"
| "spread (JObj fs) = Inr (map (\<lambda>kv. JStr (fst kv)) fs)"
| "spread _ = Inl TypeError"

definition command_fields :: "string list" where
  "command_fields = [''kind'', ''adapter'', ''previous_boundary'', ''fixtures'', ''pre_assertions'', ''post_assertions'', ''readbacks'']"

definition compiled_needs :: json where
  "compiled_needs = JList [JObj [(''resource'', JStr ''compiled''), (''mode'', JStr ''exclusive'')]]"

definition validate_compiled_command :: "json \<Rightarrow> err + unit" where
  "validate_compiled_command cmd =
     (case cmd of
        JObj fs \<Rightarrow>
          ebind (raise_if (\<not> only_keys fs (''timeout_seconds'' # command_fields) \<or> \<not> list_all (\<lambda>k. k \<in> set (keys fs)) command_fields)
                   (ResourceError ''unsupported compiled release-upgrade command fields'')) (\<lambda>_.
          ebind (emap spread (map (get fs) [''fixtures'', ''pre_assertions'', ''post_assertions'', ''readbacks''])) (\<lambda>paths.
          ebind (normalize_upgrade
             (JObj (fs @ [(''inputs'', JList (get fs ''adapter'' # concat paths)), (''needs'', compiled_needs)]))) (\<lambda>_.
          Inr ())))
      | _ \<Rightarrow> Inl (ResourceError ''unsupported compiled release-upgrade command fields''))"

section \<open>The adapter's input\<close>

text \<open>What the file system says of a path below the workspace: is it a link, is it a regular file, does it
  resolve below the workspace, and the SHA-256 of its bytes.\<close>

record file_info =
  fi_link :: bool
  fi_regular :: bool
  fi_inside :: bool
  fi_sha256 :: string

definition captured_path :: "(string \<Rightarrow> file_info option) \<Rightarrow> (string \<times> string) list \<Rightarrow> string \<Rightarrow> err + json" where
  "captured_path fs manifest rel =
     (case fs rel of
        None \<Rightarrow> Inl (ResourceError ''captured release-upgrade path is unavailable'')
      | Some f \<Rightarrow>
          ebind (raise_if (fi_link f \<or> \<not> fi_regular f \<or> \<not> fi_inside f)
                   (ResourceError ''captured release-upgrade path is unavailable'')) (\<lambda>_.
          ebind (raise_if (map_of manifest rel \<noteq> Some (fi_sha256 f))
                   (ResourceError ''release-upgrade input is not pinned exactly'')) (\<lambda>_.
          Inr (JObj [(''path'', JStr rel), (''sha256'', JStr (fi_sha256 f))]))))"

record upgrade_run =
  ur_authority :: string
  ur_request :: string
  ur_stage :: string
  ur_epoch :: int
  ur_recipe_digest :: string

definition manifest_json :: "(string \<times> string) list \<Rightarrow> json" where
  "manifest_json manifest = JObj (map (\<lambda>(p, h). (p, JStr h)) manifest)"

definition text_list :: "json \<Rightarrow> string list" where
  "text_list v = (case v of JList xs \<Rightarrow> concat (map (\<lambda>x. case x of JStr s \<Rightarrow> [s] | _ \<Rightarrow> []) xs) | _ \<Rightarrow> [])"

definition build_upgrade_input ::
    "(json \<Rightarrow> string) \<Rightarrow> (string \<Rightarrow> file_info option) \<Rightarrow> (string \<times> string) list \<Rightarrow> upgrade_run \<Rightarrow> fields \<Rightarrow> err + fields" where
  "build_upgrade_input dig fs manifest run cmd =
     ebind (validate_compiled_command (JObj cmd)) (\<lambda>_.
     ebind (emap (captured_path fs manifest) (text_list (JList [get cmd ''adapter'']))) (\<lambda>adapter.
     ebind (emap (captured_path fs manifest) (text_list (get cmd ''fixtures''))) (\<lambda>fixtures.
     ebind (emap (captured_path fs manifest) (text_list (get cmd ''pre_assertions''))) (\<lambda>pre.
     ebind (emap (captured_path fs manifest) (text_list (get cmd ''post_assertions''))) (\<lambda>post.
     ebind (emap (captured_path fs manifest) (text_list (get cmd ''readbacks''))) (\<lambda>readbacks.
     let body = [(''operation'', JStr upgrade_kind), (''authority'', JStr (ur_authority run)),
                 (''request'', JStr (ur_request run)), (''stage'', JStr (ur_stage run)), (''epoch'', JInt (ur_epoch run)),
                 (''recipe_digest'', JStr (ur_recipe_digest run)),
                 (''candidate_digest'', JStr (dig (jcanon (manifest_json manifest)))),
                 (''previous_boundary'', get cmd ''previous_boundary''), (''adapter'', hd adapter),
                 (''fixtures'', JList fixtures), (''pre_assertions'', JList pre), (''post_assertions'', JList post),
                 (''readbacks'', JList readbacks)]
     in Inr ([(''schema_version'', JInt 1), (''kind'', JStr ''ORCHESTRATOR_RELEASE_UPGRADE_INPUT'')] @ body
             @ [(''contract_digest'', JStr (dig (jcanon (JObj body))))])))))))"

section \<open>The adapter's result\<close>

definition upgrade_phases :: "string list" where
  "upgrade_phases = [''stack_start'', ''reset_previous'', ''fixture_load'', ''pre_assertions'', ''migrate_candidate'',
     ''post_assertions'', ''type_readback'', ''check_readback'']"

text \<open>\<open>v in {...}\<close> for a set of strings: a list or an object raises.\<close>

definition in_strings :: "json \<Rightarrow> string list \<Rightarrow> err + bool" where
  "in_strings v xs = (if hashable v then Inr (v \<in> set (map JStr xs)) else Inl TypeError)"

definition hex_digest :: "string \<Rightarrow> bool" where
  "hex_digest s \<longleftrightarrow> length s = 64 \<and>
     list_all (\<lambda>c. CHR ''0'' \<le> c \<and> c \<le> CHR ''9'' \<or> CHR ''a'' \<le> c \<and> c \<le> CHR ''f'') s"

definition utf8_length :: "string \<Rightarrow> nat" where
  "utf8_length s = sum_list (map (\<lambda>c. if (of_char c :: nat) < 128 then 1 else 2) s)"

definition bounded_text :: "json \<Rightarrow> err + string" where
  "bounded_text v =
     (case v of
        JStr s \<Rightarrow>
          if s \<noteq> [] \<and> utf8_length s \<le> 160 \<and>
             list_all (\<lambda>c. let n = (of_char c :: nat) in 32 \<le> n \<and> \<not> (127 \<le> n \<and> n \<le> 159)) s
          then Inr s else Inl (ResourceError ''release-upgrade evidence name is not a bounded string'')
      | _ \<Rightarrow> Inl (ResourceError ''release-upgrade evidence name is not a bounded string''))"

definition check_record :: "json \<Rightarrow> err + json" where
  "check_record rec =
     (case rec of
        JObj fs \<Rightarrow>
          ebind (raise_if (\<not> exact_keys fs [''name'', ''status'', ''sha256'', ''size_bytes''])
                   (ResourceError ''unsupported release-upgrade evidence fields'')) (\<lambda>_.
          ebind (bounded_text (get fs ''name'')) (\<lambda>name.
          ebind (in_strings (get fs ''status'') [''passed'', ''failed'']) (\<lambda>ok.
          ebind (raise_if (\<not> ok) (ResourceError ''release-upgrade evidence status is invalid'')) (\<lambda>_.
          ebind (raise_if (\<not> (case get fs ''sha256'' of JStr s \<Rightarrow> hex_digest s | _ \<Rightarrow> False))
                   (ResourceError ''release-upgrade evidence digest is invalid'')) (\<lambda>_.
          ebind (raise_if (\<not> (case get fs ''size_bytes'' of JInt n \<Rightarrow> 0 \<le> n \<and> n \<le> 8 * 1024 * 1024 | _ \<Rightarrow> False))
                   (ResourceError ''release-upgrade evidence size is invalid'')) (\<lambda>_.
          Inr (JObj (AList.update ''name'' (JStr name) fs))))))))
      | _ \<Rightarrow> Inl (ResourceError ''unsupported release-upgrade evidence fields''))"

definition check_phase :: "string \<Rightarrow> json \<Rightarrow> err + fields" where
  "check_phase expected phase =
     (case phase of
        JObj fs \<Rightarrow>
          ebind (raise_if (\<not> exact_keys fs [''name'', ''status'', ''exit_code'', ''evidence''])
                   (ResourceError ''unsupported release-upgrade phase fields'')) (\<lambda>_.
          ebind (raise_if (get fs ''name'' \<noteq> JStr expected)
                   (ResourceError ''release-upgrade phases must use the declared order'')) (\<lambda>_.
          ebind (in_strings (get fs ''status'') [''passed'', ''failed'']) (\<lambda>ok.
          (case get fs ''exit_code'' of
             JInt code \<Rightarrow>
               ebind (raise_if (\<not> ok) (ResourceError ''release-upgrade phase status/exit code is invalid'')) (\<lambda>_.
               ebind (raise_if ((get fs ''status'' = JStr ''passed'') \<noteq> (code = 0))
                        (ResourceError ''release-upgrade phase status contradicts exit code'')) (\<lambda>_.
               (case get fs ''evidence'' of
                  JList evidence \<Rightarrow>
                    ebind (raise_if (64 < length evidence) (ResourceError ''release-upgrade phase evidence must be bounded'')) (\<lambda>_.
                    ebind (emap check_record evidence) (\<lambda>records.
                    Inr (AList.update ''evidence'' (JList records) fs)))
                | _ \<Rightarrow> Inl (ResourceError ''release-upgrade phase evidence must be bounded''))))
           | _ \<Rightarrow> Inl (ResourceError ''release-upgrade phase status/exit code is invalid'')))))
      | _ \<Rightarrow> Inl (ResourceError ''unsupported release-upgrade phase fields''))"

definition passed_phase :: "fields \<Rightarrow> bool" where
  "passed_phase p \<longleftrightarrow> get p ''status'' = JStr ''passed''"

definition expected_field :: "fields \<Rightarrow> string \<Rightarrow> err + json" where
  "expected_field expected k = (case map_of expected k of None \<Rightarrow> Inl (KeyError k) | Some v \<Rightarrow> Inr v)"

definition check_digest_field :: "fields \<Rightarrow> fields \<Rightarrow> string \<Rightarrow> err + unit" where
  "check_digest_field value expected k =
     ebind (expected_field expected k) (\<lambda>e.
     ebind (raise_if (\<not> json_eq (get value k) e) (ResourceError ''release-upgrade result digest mismatch'')) (\<lambda>_.
     (case get value k of
        JStr s \<Rightarrow> raise_if (\<not> hex_digest s) (ResourceError ''release-upgrade result digest mismatch'')
      | _ \<Rightarrow> Inl TypeError)))"

definition result_fields :: "string list" where
  "result_fields = [''schema_version'', ''kind'', ''contract_digest'', ''candidate_digest'', ''previous_boundary'', ''status'', ''phases'']"

definition validate_upgrade_result :: "json \<Rightarrow> fields \<Rightarrow> err + fields" where
  "validate_upgrade_result v expected =
     (case v of
        JObj value \<Rightarrow>
          ebind (raise_if (\<not> exact_keys value result_fields) (ResourceError ''unsupported release-upgrade result fields'')) (\<lambda>_.
          ebind (raise_if (\<not> json_eq (get value ''schema_version'') (JInt 1))
                   (ResourceError ''unsupported release-upgrade result schema version'')) (\<lambda>_.
          ebind (raise_if (get value ''kind'' \<noteq> JStr ''ORCHESTRATOR_RELEASE_UPGRADE_RESULT'')
                   (ResourceError ''unsupported release-upgrade result kind'')) (\<lambda>_.
          ebind (check_digest_field value expected ''contract_digest'') (\<lambda>_.
          ebind (check_digest_field value expected ''candidate_digest'') (\<lambda>_.
          ebind (expected_field expected ''previous_boundary'') (\<lambda>previous.
          ebind (raise_if (\<not> json_eq (get value ''previous_boundary'') previous)
                   (ResourceError ''release-upgrade result previous boundary mismatch'')) (\<lambda>_.
          ebind (in_strings (get value ''status'') [''passed'', ''failed'']) (\<lambda>ok.
          ebind (raise_if (\<not> ok) (ResourceError ''release-upgrade result status must be passed or failed'')) (\<lambda>_.
          ebind (case get value ''phases'' of
                   JList phases \<Rightarrow> if phases \<noteq> [] \<and> length phases \<le> length upgrade_phases then Inr phases
                                   else Inl (ResourceError ''release-upgrade result requires a bounded phase prefix'')
                 | _ \<Rightarrow> Inl (ResourceError ''release-upgrade result requires a bounded phase prefix'')) (\<lambda>phases.
          ebind (emap (\<lambda>(n, p). check_phase n p) (zip upgrade_phases phases)) (\<lambda>normalized.
          ebind (if get value ''status'' = JStr ''passed''
                 then raise_if (length normalized \<noteq> length upgrade_phases \<or> \<not> list_all passed_phase normalized)
                        (ResourceError ''passed release-upgrade result requires every phase'')
                 else raise_if (get (last normalized) ''status'' \<noteq> JStr ''failed'')
                        (ResourceError ''failed release-upgrade result must end at a failed phase'')) (\<lambda>_.
          Inr (AList.update ''phases'' (JList (map JObj normalized)) value)))))))))))))
      | _ \<Rightarrow> Inl (ResourceError ''unsupported release-upgrade result fields''))"

section \<open>Reading the result\<close>

text \<open>What opening and reading the result file gives; the bytes carry their parse, an object of which keeps
  repeated keys, or \<open>None\<close> when they are no JSON text.\<close>

datatype result_read =
    No_File
  | Read_Error
  | Symbolic_Link
  | Irregular
  | Content (size_of_bytes: nat) (sha_of_bytes: string) (parse_of_bytes: "json option")

text \<open>\<open>object_pairs_hook=_unique_object\<close>, applied to every object from the inside out.\<close>

fun unique_keys :: "json \<Rightarrow> bool" where
  "unique_keys (JObj fs) = (distinct (map fst fs) \<and> list_all (\<lambda>kv. unique_keys (snd kv)) fs)"
| "unique_keys (JList xs) = list_all unique_keys xs"
| "unique_keys _ = True"

definition read_upgrade_result :: "nat \<Rightarrow> result_read \<Rightarrow> fields \<Rightarrow> err + fields \<times> string \<times> nat \<times> json" where
  "read_upgrade_result maximum r expected =
     ebind (case r of
              No_File \<Rightarrow> Inl (ResourceError ''release-upgrade adapter did not create a result'')
            | Read_Error \<Rightarrow> Inl (ResourceError ''release-upgrade result is unreadable'')
            | Symbolic_Link \<Rightarrow> Inl (ResourceError ''release-upgrade result must not be a symlink'')
            | Irregular \<Rightarrow> Inl (ResourceError ''release-upgrade result must be a regular file'')
            | Content n h p \<Rightarrow>
                if maximum < n then Inl (ResourceError ''release-upgrade result exceeds the size limit'')
                else (case p of
                        Some v \<Rightarrow> if unique_keys v then Inr (v, h, n)
                                  else Inl (ResourceError ''release-upgrade result is unreadable'')
                      | None \<Rightarrow> Inl (ResourceError ''release-upgrade result is unreadable''))) (\<lambda>(v, h, n).
     ebind (validate_upgrade_result v expected) (\<lambda>w.
     Inr (w, h, n, get w ''status'')))"

section \<open>What normalization accepts\<close>

definition path_ok :: "string \<Rightarrow> bool" where
  "path_ok s \<longleftrightarrow> s \<noteq> [] \<and> length s \<le> 4096 \<and> safe_path s"

definition need_ok :: "fields \<Rightarrow> bool" where
  "need_ok fs \<longleftrightarrow> exact_keys fs [''resource'', ''mode''] \<and>
     (case get fs ''resource'' of JStr s \<Rightarrow> s \<noteq> [] \<and> length s \<le> 160 | _ \<Rightarrow> False) \<and> get fs ''mode'' = JStr ''exclusive''"

lemma relative_path_iff: "relative_path v = Inr s \<longleftrightarrow> v = JStr s \<and> path_ok s"
  by (cases v) (auto simp: path_ok_def err_simps not_less)

lemma strings_simps [simp]:
  "strings xs = JList ys \<longleftrightarrow> ys = map JStr xs" "JList ys = strings xs \<longleftrightarrow> ys = map JStr xs"
  by (auto simp: strings_def)

lemma strings_inj [simp]: "strings xs = strings ys \<longleftrightarrow> xs = ys"
  by (auto simp: strings_def inj_map_eq_map inj_def)

lemma emap_relative_iff: "emap relative_path vs = Inr xs \<longleftrightarrow> vs = map JStr xs \<and> (\<forall>x\<in>set xs. path_ok x)"
proof (induction vs arbitrary: xs)
  case (Cons v vs)
  show ?case by (cases xs) (auto simp: err_simps relative_path_iff Cons)
qed auto

lemma path_list_iff:
  "path_list n v = Inr xs \<longleftrightarrow>
     v = strings xs \<and> xs \<noteq> [] \<and> length xs \<le> n \<and> distinct xs \<and> (\<forall>x\<in>set xs. path_ok x)"
proof (cases v)
  case (JList vs)
  have "list_all is_str (map JStr xs)" by (induction xs) auto
  then show ?thesis
    by (auto simp: JList path_list_def err_simps emap_relative_iff distinct_map inj_on_def not_less)
qed (auto simp: path_list_def strings_def)

lemma upgrade_need_iff: "upgrade_need v = Inr fs \<longleftrightarrow> v = JObj fs \<and> need_ok fs"
  by (cases v) (auto simp: upgrade_need_def need_ok_def split: json.splits)

lemma previous_boundary_iff: "previous_boundary v = Inr s \<longleftrightarrow> v = JStr s \<and> boundary_pattern s"
  by (cases v) (auto simp: previous_boundary_def)

definition upgrade_ok :: "upgrade \<Rightarrow> bool" where
  "upgrade_ok u \<longleftrightarrow>
     (\<forall>xs n. (xs, n) \<in> set [(ug_inputs u, 64), (ug_fixtures u, 16), (ug_pre u, 32), (ug_post u, 32), (ug_readbacks u, 32)] \<longrightarrow>
        xs \<noteq> [] \<and> length xs \<le> n \<and> distinct xs \<and> (\<forall>x\<in>set xs. path_ok x)) \<and>
     (\<exists>n. ug_needs u = [n] \<and> need_ok n) \<and> path_ok (ug_adapter u) \<and> boundary_pattern (ug_previous u) \<and>
     (case ug_timeout u of None \<Rightarrow> True | Some r \<Rightarrow> 0 < r) \<and> (\<forall>p\<in>set (role_paths u). covered_by (ug_inputs u) p)"

lemma one_need_Inr:
  "(case v of JList [n] \<Rightarrow> Inr [n] | _ \<Rightarrow> Inl e) = Inr ns \<longleftrightarrow> (\<exists>n. v = JList [n] \<and> ns = [n])"
  by (auto split: json.splits list.splits)

lemma normalize_upgrade_iff:
  "normalize_upgrade (JObj fs) = Inr u \<longleftrightarrow>
     only_keys fs recipe_fields \<and> get fs ''kind'' = JStr upgrade_kind \<and> get fs ''inputs'' = strings (ug_inputs u) \<and>
     get fs ''needs'' = JList (map JObj (ug_needs u)) \<and> get fs ''adapter'' = JStr (ug_adapter u) \<and>
     get fs ''previous_boundary'' = JStr (ug_previous u) \<and> get fs ''fixtures'' = strings (ug_fixtures u) \<and>
     get fs ''pre_assertions'' = strings (ug_pre u) \<and> get fs ''post_assertions'' = strings (ug_post u) \<and>
     get fs ''readbacks'' = strings (ug_readbacks u) \<and>
     upgrade_timeout (get fs ''timeout_seconds'') = Inr (ug_timeout u) \<and> upgrade_ok u" (is "?L \<longleftrightarrow> ?R")
proof
  assume ?L
  then show ?R
    by (clarsimp simp: normalize_upgrade_def Let_def ebind_Inr_iff raise_if_simps path_list_iff relative_path_iff
        previous_boundary_iff upgrade_need_iff one_need_Inr upgrade_ok_def role_paths_def list_all_iff)
      (auto simp: upgrade_timeout_def split: json.splits if_splits)
next
  assume R: ?R
  then have paths: "path_list 64 (get fs ''inputs'') = Inr (ug_inputs u)" "path_list 16 (get fs ''fixtures'') = Inr (ug_fixtures u)"
    "path_list 32 (get fs ''pre_assertions'') = Inr (ug_pre u)" "path_list 32 (get fs ''post_assertions'') = Inr (ug_post u)"
    "path_list 32 (get fs ''readbacks'') = Inr (ug_readbacks u)"
    by (simp_all add: path_list_iff upgrade_ok_def)
  from R obtain n where n: "ug_needs u = [n]" "need_ok n" by (auto simp: upgrade_ok_def)
  from R have rel: "relative_path (get fs ''adapter'') = Inr (ug_adapter u)"
    and prev: "previous_boundary (get fs ''previous_boundary'') = Inr (ug_previous u)"
    unfolding relative_path_iff previous_boundary_iff upgrade_ok_def by blast+
  from R have cov: "list_all (covered_by (ug_inputs u)) (role_paths u)"
    by (simp add: upgrade_ok_def list_all_iff)
  have "upgrade_need (JObj n) = Inr n" using n(2) by (simp add: upgrade_need_iff)
  with R paths n rel prev cov show ?L by (simp add: normalize_upgrade_def Let_def role_paths_def del: relative_path.simps)
qed

lemma keys_simps [simp]: "keys [] = []" "keys ((k, v) # al) = k # keys al" "keys (al @ al') = keys al @ keys al'"
  by (simp_all add: keys_def)

lemma keys_timeout_field: "set (keys (timeout_field u)) \<subseteq> {''timeout_seconds''}"
  by (simp add: timeout_field_def split: option.splits)

lemma only_keys_append: "only_keys (xs @ ys) ks \<longleftrightarrow> only_keys xs ks \<and> only_keys ys ks"
  by (simp add: only_keys_def)

lemma only_keys_Cons [simp]: "only_keys ((k, v) # fs) ks \<longleftrightarrow> k \<in> set ks \<and> only_keys fs ks" "only_keys [] ks"
  by (simp_all add: only_keys_def)

lemma only_keys_timeout: "''timeout_seconds'' \<in> set ks \<Longrightarrow> only_keys (timeout_field u) ks"
  by (simp add: only_keys_def timeout_field_def split: option.splits)

lemma get_timeout_field [simp]: "k \<noteq> ''timeout_seconds'' \<Longrightarrow> get (timeout_field u) k = JNull"
  by (simp add: timeout_field_def split: option.splits)

lemma timeout_roundtrip:
  "upgrade_ok u \<Longrightarrow> upgrade_timeout (get (timeout_field u) ''timeout_seconds'') = Inr (ug_timeout u)"
  by (auto simp: timeout_field_def upgrade_timeout_def upgrade_ok_def split: option.splits)

lemma get_append': "get (xs @ ys) k = (if k \<in> set (keys xs) then get xs k else get ys k)"
  by (simp add: get_append set_keys split: option.splits) (auto simp: get_def split: option.splits)

lemma normalize_upgrade_ok:
  assumes "normalize_upgrade r = Inr u"
  shows "upgrade_ok u"
proof (cases r)
  case (JObj fs)
  with assms show ?thesis by (simp add: normalize_upgrade_iff)
qed (use assms in \<open>simp_all only: normalize_upgrade_def json.case sum.distinct\<close>)

text \<open>normalization is idempotent: the dict it returns, read again, is the same recipe.\<close>

theorem normalize_upgrade_roundtrip:
  assumes "normalize_upgrade r = Inr u"
  shows "normalize_upgrade (upgrade_json u) = Inr u"
proof -
  from assms have ok: "upgrade_ok u" by (rule normalize_upgrade_ok)
  then show ?thesis
    unfolding upgrade_json_def normalize_upgrade_iff
    by (simp add: only_keys_append only_keys_timeout timeout_roundtrip get_append' recipe_fields_def)
qed

lemma upgrade_ok_paths: "upgrade_ok u \<Longrightarrow> p \<in> set (role_paths u) \<Longrightarrow> path_ok p"
  unfolding upgrade_ok_def role_paths_def by (simp only: set_simps set_append insert_iff Un_iff) blast

lemma upgrade_ok_inputs: "upgrade_ok u \<Longrightarrow> p \<in> set (ug_inputs u) \<Longrightarrow> path_ok p"
  unfolding upgrade_ok_def by (simp only: set_simps insert_iff) blast

lemma upgrade_ok_covered: "upgrade_ok u \<Longrightarrow> p \<in> set (role_paths u) \<Longrightarrow> \<exists>dir \<in> set (ug_inputs u). below dir p"
  unfolding upgrade_ok_def by (simp add: covered_by_def list_ex_iff)

text \<open>C14: every path of an accepted recipe is entered below the directory it is resolved in (no absolute
  path and no \<open>..\<close>), does not enter the engine's own state, and lies below one of the declared inputs.\<close>

theorem upgrade_paths_stay_inside:
  assumes "normalize_upgrade r = Inr u" "p \<in> set (role_paths u)"
  shows "resolve base p = base @ path_parts p \<and> ''.orchestrator'' \<notin> set (path_parts p) \<and>
    (\<exists>dir \<in> set (ug_inputs u). \<exists>rest. resolve base p = resolve base dir @ rest)"
proof -
  from assms(1) have ok: "upgrade_ok u" by (rule normalize_upgrade_ok)
  then have "path_ok p" using assms(2) by (rule upgrade_ok_paths)
  then have p: "resolve base p = base @ path_parts p" "''.orchestrator'' \<notin> set (path_parts p)"
    by (auto simp: path_ok_def resolve_safe safe_path_def)
  from upgrade_ok_covered [OF ok assms(2)] obtain dir where dir: "dir \<in> set (ug_inputs u)" "below dir p" ..
  from upgrade_ok_inputs [OF ok dir(1)] have "path_ok dir" .
  then have "resolve base dir = base @ path_parts dir" by (simp add: path_ok_def resolve_safe)
  with p(1) dir(2) have "resolve base p = resolve base dir @ drop (length (path_parts dir)) (path_parts p)"
    unfolding below_def by (metis append.assoc append_take_drop_id)
  with p dir show ?thesis by blast
qed

section \<open>Compiled commands\<close>

lemma compiled_paths:
  "emap spread (map (get (upgrade_command u)) [''fixtures'', ''pre_assertions'', ''post_assertions'', ''readbacks''])
    = Inr (map (map JStr) [ug_fixtures u, ug_pre u, ug_post u, ug_readbacks u])"
  by (simp add: upgrade_command_def strings_def)

text \<open>The recipe under which a compiled command is validated again.\<close>

definition recompiled :: "upgrade \<Rightarrow> upgrade" where
  "recompiled u = u\<lparr>ug_inputs := role_paths u, ug_needs := [[(''resource'', JStr ''compiled''), (''mode'', JStr ''exclusive'')]]\<rparr>"

lemma recompiled_role_paths [simp]: "role_paths (recompiled u) = role_paths u"
  by (simp add: recompiled_def role_paths_def)

lemma compiled_need_ok: "need_ok [(''resource'', JStr ''compiled''), (''mode'', JStr ''exclusive'')]"
  by (simp add: need_ok_def exact_keys_def only_keys_def)

lemma recompiled_ok:
  assumes "upgrade_ok u"
  shows "upgrade_ok (recompiled u) \<longleftrightarrow> distinct (role_paths u) \<and> length (role_paths u) \<le> 64"
proof -
  have "covered_by (role_paths u) p" if "p \<in> set (role_paths u)" for p
    using that by (auto simp: covered_by_def list_ex_iff intro: below_refl)
  moreover have "\<forall>p\<in>set (role_paths u). path_ok p"
    using assms upgrade_ok_paths by blast
  moreover have "role_paths u \<noteq> []" by (simp add: role_paths_def)
  ultimately show ?thesis
    using assms compiled_need_ok unfolding upgrade_ok_def by (simp add: recompiled_def) (auto simp: role_paths_def)
qed

text \<open>C15: a command compiled from an accepted recipe is accepted when it is about to run exactly when its
  paths are pairwise different, over all their roles, and at most 64; an accepted recipe that uses one
  file in two roles compiles to a command that no run accepts.\<close>

theorem compiled_command_accepted_iff:
  assumes "normalize_upgrade r = Inr u"
  shows "(validate_compiled_command (JObj (upgrade_command u)) = Inr ()) = (distinct (role_paths u) \<and> length (role_paths u) \<le> 64)"
proof -
  from assms have ok: "upgrade_ok u" by (rule normalize_upgrade_ok)
  let ?fs = "upgrade_command u @ [(''inputs'', JList (get (upgrade_command u) ''adapter'' #
     concat (map (map JStr) [ug_fixtures u, ug_pre u, ug_post u, ug_readbacks u]))), (''needs'', compiled_needs)]"
  have keys: "only_keys (upgrade_command u) (''timeout_seconds'' # command_fields)"
    "list_all (\<lambda>k. k \<in> set (keys (upgrade_command u))) command_fields"
    by (simp_all add: upgrade_command_def command_fields_def only_keys_append only_keys_timeout)
  have iff: "normalize_upgrade (JObj ?fs) = Inr w \<longleftrightarrow> w = recompiled u \<and> upgrade_ok (recompiled u)" for w
  proof -
    have timeout: "get ?fs ''timeout_seconds'' = get (timeout_field u) ''timeout_seconds''"
      by (simp add: upgrade_command_def timeout_field_def split: option.splits)
    have gets: "get ?fs ''kind'' = JStr upgrade_kind" "get ?fs ''inputs'' = strings (role_paths u)" "get ?fs ''needs'' = compiled_needs"
      "get ?fs ''adapter'' = JStr (ug_adapter u)" "get ?fs ''previous_boundary'' = JStr (ug_previous u)"
      "get ?fs ''fixtures'' = strings (ug_fixtures u)" "get ?fs ''pre_assertions'' = strings (ug_pre u)"
      "get ?fs ''post_assertions'' = strings (ug_post u)" "get ?fs ''readbacks'' = strings (ug_readbacks u)"
      by (simp_all add: upgrade_command_def timeout_field_def role_paths_def strings_def split: option.splits)
    have ks: "only_keys ?fs recipe_fields"
      by (simp add: upgrade_command_def only_keys_append only_keys_timeout recipe_fields_def)
    show ?thesis
    proof
      assume "normalize_upgrade (JObj ?fs) = Inr w"
      then have eqs: "upgrade_ok w" "ug_inputs w = role_paths u" "compiled_needs = JList (map JObj (ug_needs w))"
        "ug_adapter w = ug_adapter u" "ug_previous w = ug_previous u" "ug_fixtures w = ug_fixtures u" "ug_pre w = ug_pre u"
        "ug_post w = ug_post u" "ug_readbacks w = ug_readbacks u" "ug_timeout w = ug_timeout u"
        unfolding normalize_upgrade_iff gets timeout using timeout_roundtrip [OF ok] by simp_all
      from eqs(3) have "ug_needs w = [[(''resource'', JStr ''compiled''), (''mode'', JStr ''exclusive'')]]"
        by (cases "ug_needs w") (auto simp: compiled_needs_def)
      with eqs have "w = recompiled u" by (simp add: recompiled_def)
      with eqs(1) show "w = recompiled u \<and> upgrade_ok (recompiled u)" by simp
    next
      assume w: "w = recompiled u \<and> upgrade_ok (recompiled u)"
      then show "normalize_upgrade (JObj ?fs) = Inr w"
        unfolding normalize_upgrade_iff gets timeout using ks timeout_roundtrip [OF ok]
        by (simp add: recompiled_def compiled_needs_def)
    qed
  qed
  have "validate_compiled_command (JObj (upgrade_command u)) = Inr () \<longleftrightarrow> (\<exists>w. normalize_upgrade (JObj ?fs) = Inr w)"
    using keys by (simp add: validate_compiled_command_def compiled_paths ebind_Inr_iff del: emap.simps list.map)
  with iff recompiled_ok [OF ok] show ?thesis by blast
qed

text \<open>A recipe whose pre- and post-assertions are the same file.\<close>

definition demo_recipe :: json where
  "demo_recipe = JObj [(''kind'', JStr upgrade_kind), (''inputs'', strings [''db'']),
     (''needs'', JList [JObj [(''resource'', JStr ''gpu''), (''mode'', JStr ''exclusive'')]]), (''adapter'', JStr ''db/run''),
     (''previous_boundary'', JStr ''v1''), (''fixtures'', strings [''db/f'']), (''pre_assertions'', strings [''db/check'']),
     (''post_assertions'', strings [''db/check'']), (''readbacks'', strings [''db/r''])]"

definition demo_upgrade :: upgrade where
  "demo_upgrade = \<lparr>ug_inputs = [''db''], ug_needs = [[(''resource'', JStr ''gpu''), (''mode'', JStr ''exclusive'')]],
     ug_adapter = ''db/run'', ug_previous = ''v1'', ug_fixtures = [''db/f''], ug_pre = [''db/check''], ug_post = [''db/check''],
     ug_readbacks = [''db/r''], ug_timeout = None\<rparr>"

lemma demo_upgrade: "normalize_upgrade demo_recipe = Inr demo_upgrade"
  by code_simp

theorem normalize_upgrade_roundtrip_witness: "normalize_upgrade (upgrade_json demo_upgrade) = Inr demo_upgrade"
  by (rule normalize_upgrade_roundtrip [OF demo_upgrade])

theorem upgrade_paths_stay_inside_witness: "resolve [''home''] ''db/run'' = [''home'', ''db'', ''run'']"
  using upgrade_paths_stay_inside [OF demo_upgrade, of "''db/run''" "[''home'']"]
  by (simp add: demo_upgrade_def role_paths_def path_parts_def)

theorem compiled_command_accepted_iff_witness:
  "normalize_upgrade demo_recipe = Inr demo_upgrade \<and> validate_compiled_command (JObj (upgrade_command demo_upgrade)) \<noteq> Inr ()"
  using demo_upgrade compiled_command_accepted_iff [OF demo_upgrade] by (simp add: demo_upgrade_def role_paths_def)

section \<open>Results\<close>

lemma get_update_same: "k \<in> set (keys fs) \<Longrightarrow> AList.update k (get fs k) fs = fs"
  by (rule update_same) (auto simp: get_def set_keys)

lemma exact_keys_in: "exact_keys fs ks \<Longrightarrow> k \<in> set ks \<Longrightarrow> k \<in> set (keys fs)"
  by (auto simp: exact_keys_def list_all_iff)

lemma bounded_text_id: "bounded_text v = Inr s \<Longrightarrow> v = JStr s"
  by (auto simp: bounded_text_def split: json.splits if_splits)

lemma check_record_id: "check_record r = Inr w \<Longrightarrow> w = r"
proof -
  assume run: "check_record r = Inr w"
  then obtain fs where r: "r = JObj fs" by (cases r) (auto simp: check_record_def)
  with run obtain name where ks: "exact_keys fs [''name'', ''status'', ''sha256'', ''size_bytes'']"
    and name: "bounded_text (get fs ''name'') = Inr name" and w: "w = JObj (AList.update ''name'' (JStr name) fs)"
    by (auto simp: check_record_def ebind_Inr_iff)
  have "AList.update ''name'' (get fs ''name'') fs = fs"
    by (rule get_update_same) (rule exact_keys_in [OF ks], simp)
  with bounded_text_id [OF name] w r show "w = r" by simp
qed

lemma emap_id: "(\<And>x y. x \<in> set xs \<Longrightarrow> f x = Inr y \<Longrightarrow> y = x) \<Longrightarrow> emap f xs = Inr ys \<Longrightarrow> ys = xs"
  by (induction xs arbitrary: ys) (auto simp: err_simps)

lemma check_phase_Inr:
  assumes "check_phase n p = Inr w"
  shows "p = JObj w \<and> get w ''name'' = JStr n \<and>
    (\<exists>code. get w ''exit_code'' = JInt code \<and> (get w ''status'' = JStr ''passed'') = (code = 0))"
proof -
  from assms obtain fs where p: "p = JObj fs" by (cases p) (auto simp: check_phase_def)
  from assms p obtain code where code: "get fs ''exit_code'' = JInt code"
    by (cases "get fs ''exit_code''") (auto simp: check_phase_def ebind_Inr_iff)
  from assms p code obtain evidence where ev: "get fs ''evidence'' = JList evidence"
    by (cases "get fs ''evidence''") (auto simp: check_phase_def ebind_Inr_iff)
  from assms p code ev obtain records where ks: "exact_keys fs [''name'', ''status'', ''exit_code'', ''evidence'']"
    and name: "get fs ''name'' = JStr n" and st: "(get fs ''status'' = JStr ''passed'') = (code = 0)"
    and rec: "emap check_record evidence = Inr records" and w: "w = AList.update ''evidence'' (JList records) fs"
    by (auto simp: check_phase_def ebind_Inr_iff)
  have "records = evidence" by (rule emap_id [OF _ rec]) (rule check_record_id)
  moreover have "AList.update ''evidence'' (get fs ''evidence'') fs = fs"
    by (rule get_update_same) (rule exact_keys_in [OF ks], simp)
  ultimately have "w = fs" using w ev by simp
  with p name code st show ?thesis by simp
qed

lemma emap_zip_phases:
  "emap (\<lambda>(n, p). check_phase n p) (zip ns ps) = Inr ws \<Longrightarrow> length ps \<le> length ns \<Longrightarrow>
   ps = map JObj ws \<and> map (\<lambda>w. get w ''name'') ws = map JStr (take (length ps) ns) \<and>
   (\<forall>w\<in>set ws. \<exists>code. get w ''exit_code'' = JInt code \<and> (get w ''status'' = JStr ''passed'') = (code = 0))"
proof (induction ns arbitrary: ps ws)
  case (Cons n ns)
  show ?case
  proof (cases ps)
    case (Cons p ps')
    with Cons.prems obtain w ws' where w: "check_phase n p = Inr w" and ws: "emap (\<lambda>(n, p). check_phase n p) (zip ns ps') = Inr ws'"
      "ws = w # ws'" by (auto simp: ebind_Inr_iff)
    from Cons.IH [OF ws(1)] Cons.prems(2) Cons check_phase_Inr [OF w] ws(2) show ?thesis by auto
  qed (use Cons.prems in auto)
qed auto

lemma validate_result_obj:
  assumes "validate_upgrade_result v expected = Inr w"
  obtains fs where "v = JObj fs"
  using assms that by (cases v) (simp_all only: validate_upgrade_result_def json.case json.inject sum.distinct)

lemma validate_result_list: "validate_upgrade_result (JObj fs) expected = Inr w \<Longrightarrow> \<exists>phases. get fs ''phases'' = JList phases"
  unfolding validate_upgrade_result_def json.case ebind_Inr_iff by (elim exE conjE) (simp split: json.splits)

lemma validate_result_parts:
  assumes "validate_upgrade_result (JObj fs) expected = Inr w" "get fs ''phases'' = JList phases"
  shows "exact_keys fs result_fields \<and> phases \<noteq> [] \<and> length phases \<le> length upgrade_phases \<and>
    (\<exists>ws. emap (\<lambda>(n, p). check_phase n p) (zip upgrade_phases phases) = Inr ws \<and>
       (if get fs ''status'' = JStr ''passed'' then length ws = length upgrade_phases \<and> list_all passed_phase ws
        else get (last ws) ''status'' = JStr ''failed'') \<and> w = AList.update ''phases'' (JList (map JObj ws)) fs)"
  using assms(1) unfolding validate_upgrade_result_def json.case assms(2) ebind_Inr_iff
  by (elim exE conjE) (simp split: if_splits)

text \<open>a result that validates is returned unchanged; its phases are a prefix of the eight declared
  phases, in that order, each with a status that agrees with its exit code; and it is a pass exactly
  when all eight phases exited with 0.\<close>

theorem upgrade_result_sound:
  assumes "validate_upgrade_result v expected = Inr w"
  shows "v = JObj w \<and> (\<exists>ps. get w ''phases'' = JList (map JObj ps) \<and> ps \<noteq> [] \<and>
     map (\<lambda>p. get p ''name'') ps = map JStr (take (length ps) upgrade_phases) \<and>
     (get w ''status'' = JStr ''passed'') = (length ps = 8 \<and> (\<forall>p \<in> set ps. get p ''exit_code'' = JInt 0)))"
proof -
  from validate_result_obj [OF assms] obtain fs where v: "v = JObj fs" .
  from validate_result_list [OF assms [unfolded v]] obtain phases where ph: "get fs ''phases'' = JList phases" ..
  from validate_result_parts [OF assms [unfolded v] ph] obtain ws where ks: "exact_keys fs result_fields"
    and ph': "phases \<noteq> []" "length phases \<le> length upgrade_phases"
    and ws: "emap (\<lambda>(n, p). check_phase n p) (zip upgrade_phases phases) = Inr ws"
    and out: "if get fs ''status'' = JStr ''passed'' then length ws = length upgrade_phases \<and> list_all passed_phase ws
        else get (last ws) ''status'' = JStr ''failed''"
    and w: "w = AList.update ''phases'' (JList (map JObj ws)) fs" by blast
  note ph = ph ph'
  note eq = emap_zip_phases [OF ws ph(3)]
  have "AList.update ''phases'' (get fs ''phases'') fs = fs"
    by (rule get_update_same) (rule exact_keys_in [OF ks], simp add: result_fields_def)
  with w ph(1) eq have wfs: "w = fs" by simp
  from eq have phw: "phases = map JObj ws"
    and codes: "\<And>p. p \<in> set ws \<Longrightarrow> \<exists>code. get p ''exit_code'' = JInt code \<and> (get p ''status'' = JStr ''passed'') = (code = 0)"
    by blast+
  from phw ph(2) have ne: "ws \<noteq> []" by simp
  have len: "length upgrade_phases = 8" by (simp add: upgrade_phases_def)
  have zero: "get p ''exit_code'' = JInt 0 \<longleftrightarrow> passed_phase p" if "p \<in> set ws" for p
    using codes [OF that] by (auto simp: passed_phase_def)
  have "(get fs ''status'' = JStr ''passed'') = (length ws = 8 \<and> (\<forall>p\<in>set ws. get p ''exit_code'' = JInt 0))"
  proof (cases "get fs ''status'' = JStr ''passed''")
    case True
    with out len have "length ws = 8" "\<forall>p\<in>set ws. passed_phase p" by (simp_all add: list_all_iff)
    with True zero show ?thesis by simp
  next
    case False
    with out have "\<not> passed_phase (last ws)" by (simp add: passed_phase_def)
    with False zero ne last_in_set [OF ne] show ?thesis by blast
  qed
  moreover have "map (\<lambda>p. get p ''name'') ws = map JStr (take (length ws) upgrade_phases)" using eq phw by simp
  ultimately show ?thesis using wfs v ph(1) phw ne by blast
qed

definition demo_result :: fields where
  "demo_result = [(''schema_version'', JInt 1), (''kind'', JStr ''ORCHESTRATOR_RELEASE_UPGRADE_RESULT''),
     (''contract_digest'', JStr (replicate 64 CHR ''0'')), (''candidate_digest'', JStr (replicate 64 CHR ''a'')),
     (''previous_boundary'', JStr ''v1''), (''status'', JStr ''failed''),
     (''phases'', JList [JObj [(''name'', JStr ''stack_start''), (''status'', JStr ''failed''), (''exit_code'', JInt 3),
                              (''evidence'', JList [])]])]"

lemma demo_result: "validate_upgrade_result (JObj demo_result) demo_result = Inr demo_result"
  by code_simp

theorem upgrade_result_sound_witness:
  "\<exists>ps. get demo_result ''phases'' = JList (map JObj ps) \<and> ps \<noteq> [] \<and> \<not> (\<forall>p \<in> set ps. get p ''exit_code'' = JInt 0)"
proof -
  from upgrade_result_sound [OF demo_result] obtain ps where "get demo_result ''phases'' = JList (map JObj ps)" "ps \<noteq> []" by blast
  moreover from this have "get (hd ps) ''exit_code'' \<noteq> JInt 0" by (cases ps) (auto simp: demo_result_def)
  ultimately show ?thesis by (intro exI [of _ ps]) (auto intro: hd_in_set)
qed

end
