(* ===== verification/Resource_Config.thy ===== *)
theory Resource_Config
  imports Release_Upgrade Resource_Demo
begin

text \<open>
  The configuration side of the resource authority (\<open>resource_service.py\<close>): validation of commands and
  of the configuration, retained input manifests and input contracts, creation of an authority, and
  the replacement of a drained configuration, which stages the next configuration beside the current
  one so that a crash at any point can be reconciled with the resource ledger.

  Directories are opaque: \<open>resolve_dir\<close> is \<open>Path(...).resolve()\<close>, \<open>dir_state\<close> what a strict resolution and
  \<open>is_dir\<close> give. Locks serialize the operations, so each runs alone.
\<close>

section \<open>Commands and configurations\<close>

definition command_contract :: "json \<Rightarrow> err + unit" where
  "command_contract cmd =
     (case cmd of
        JObj fs \<Rightarrow>
          if get fs ''kind'' = JStr upgrade_kind then validate_compiled_command cmd
          else
            ebind (raise_if (\<not> (case get fs ''argv'' of
                     JList argv \<Rightarrow> argv \<noteq> [] \<and> list_all (\<lambda>v. case v of JStr s \<Rightarrow> s \<noteq> [] \<and> CHR 0x00 \<notin> set s | _ \<Rightarrow> False) argv
                   | _ \<Rightarrow> False)) (ResourceError ''command requires a nonempty string argv'')) (\<lambda>_.
            ebind (raise_if (\<not> (case get_or fs ''cwd'' (JStr ''.'') of
                     JStr s \<Rightarrow> \<not> absolute s \<and> ''..'' \<notin> set (path_parts s)
                   | _ \<Rightarrow> False)) (ResourceError ''command cwd must stay inside its input workspace'')) (\<lambda>_.
            raise_if (\<not> (case get fs ''timeout_seconds'' of
                     JNull \<Rightarrow> True | JInt i \<Rightarrow> 0 < i | JReal r \<Rightarrow> 0 < r | _ \<Rightarrow> False))
              (ResourceError ''timeout must be a positive finite number or omitted'')))
      | _ \<Rightarrow> Inl (ResourceError ''command must be an object''))"

record places =
  resolve_dir :: "string \<Rightarrow> string"
  dir_state :: "string \<Rightarrow> bool option"

fun text_value :: "json \<Rightarrow> err + string" where
  "text_value (JStr s) = Inr s"
| "text_value _ = Inl TypeError"

fun iterate :: "json \<Rightarrow> err + json list" where
  "iterate v = spread v"

text \<open>\<open>commands + stage.get("cleanup", [])\<close>\<close>

definition stage_commands :: "json \<Rightarrow> err + json list" where
  "stage_commands stage =
     ebind (dict_of stage) (\<lambda>s.
     case get s ''commands'' of
       JList (c # cs) \<Rightarrow>
         (case get_or s ''cleanup'' (JList []) of JList ds \<Rightarrow> Inr ((c # cs) @ ds) | _ \<Rightarrow> Inl TypeError)
     | _ \<Rightarrow> Inl (ResourceError ''stage must contain commands''))"

definition check_all :: "('a \<Rightarrow> err + unit) \<Rightarrow> 'a list \<Rightarrow> err + unit" where
  "check_all f xs = ebind (emap f xs) (\<lambda>_. Inr ())"

definition validate_recipe :: "json \<Rightarrow> err + unit" where
  "validate_recipe recipe =
     ebind (dict_of recipe) (\<lambda>fs.
     if get fs ''kind'' = JStr upgrade_kind then ebind (normalize_upgrade recipe) (\<lambda>_. Inr ())
     else
       ebind (raise_if (\<not> (case get fs ''inputs'' of JList xs \<Rightarrow> xs \<noteq> [] | _ \<Rightarrow> False))
                (ResourceError ''recipe must declare explicit input paths'')) (\<lambda>_.
       ebind (subscript recipe ''stages'') (\<lambda>v. ebind (iterate v) (\<lambda>stages.
       check_all (\<lambda>stage. ebind (stage_commands stage) (check_all command_contract)) stages))))"

definition validate_project :: "places \<Rightarrow> string \<times> json \<Rightarrow> err + unit" where
  "validate_project P np =
     ebind (identifier_of (JStr (fst np))) (\<lambda>_.
     ebind (subscript (snd np) ''root'') (\<lambda>v. ebind (text_value v) (\<lambda>path.
     ebind (case dir_state P path of None \<Rightarrow> Inl (OsError path)
            | Some b \<Rightarrow> raise_if (\<not> b) (ResourceError ''project root must be a directory'')) (\<lambda>_.
     ebind (subscript (snd np) ''recipes'') (\<lambda>rs. ebind (dict_of rs) (\<lambda>recipes.
     check_all validate_recipe (map snd recipes)))))))"

definition validate_probe :: "json \<Rightarrow> err + unit" where
  "validate_probe resource =
     ebind (dict_of resource) (\<lambda>fs.
     if get fs ''release'' = JStr ''probe'' then
       ebind (subscript resource ''probe'') (\<lambda>probe.
       ebind (command_contract probe) (\<lambda>_.
       raise_if (get (obj_fields probe) ''timeout_seconds'' = JNull)
         (ResourceError ''quiescence probe requires an explicit timeout'')))
     else Inr ())"

definition validate_config :: "places \<Rightarrow> fields \<Rightarrow> err + unit" where
  "validate_config P config =
     (case get config ''projects'' of
        JObj (p # ps) \<Rightarrow>
          ebind (check_all (validate_project P) (p # ps)) (\<lambda>_.
          ebind (subscript (JObj config) ''resources'') (\<lambda>rs. ebind (dict_of rs) (\<lambda>resources.
          check_all validate_probe (map snd resources))))
      | _ \<Rightarrow> Inl (ResourceError ''register at least one project''))"

section \<open>Input manifests and contracts\<close>

text \<open>What the file system shows below one declared input: whether it escapes the project, whether it
  exists, and its files in order (the input itself when it is no directory).\<close>

record candidate =
  cd_key :: string
  cd_link :: bool
  cd_inside :: bool
  cd_file :: bool
  cd_sha256 :: string

record input_view =
  iv_inside :: bool
  iv_exists :: bool
  iv_candidates :: "candidate list"

definition add_candidate :: "candidate \<Rightarrow> (string \<times> string) list \<Rightarrow> err + (string \<times> string) list" where
  "add_candidate c files =
     ebind (raise_if (cd_link c \<or> \<not> cd_inside c) (ResourceError ''snapshot inputs must not contain symbolic links'')) (\<lambda>_.
     if \<not> cd_file c then Inr files
     else ebind (raise_if (''.orchestrator'' \<in> set (path_parts (cd_key c)))
                   (ResourceError ''do not include orchestration state in recipe inputs'')) (\<lambda>_.
          Inr (AList.update (cd_key c) (cd_sha256 c) files)))"

definition add_input :: "(string \<Rightarrow> input_view) \<Rightarrow> json \<Rightarrow> (string \<times> string) list \<Rightarrow> err + (string \<times> string) list" where
  "add_input view v files =
     (case v of
        JStr rel \<Rightarrow>
          if absolute rel then Inl (ResourceError ''input path must be relative'')
          else
            ebind (raise_if (\<not> iv_inside (view rel) \<or> ''..'' \<in> set (path_parts rel)) (ResourceError ''input path escapes project'')) (\<lambda>_.
            ebind (raise_if (\<not> iv_exists (view rel)) (ResourceError ''missing recipe input'')) (\<lambda>_.
            efold add_candidate (iv_candidates (view rel)) files))
      | _ \<Rightarrow> Inl (ResourceError ''input path must be relative''))"

definition input_manifest :: "(string \<Rightarrow> input_view) \<Rightarrow> json list \<Rightarrow> err + (string \<times> string) list" where
  "input_manifest view inputs =
     ebind (efold (add_input view) inputs []) (\<lambda>files.
     if files = [] then Inl (ResourceError ''recipe inputs contain no files'') else Inr files)"

definition manifest_entry :: "string \<times> json \<Rightarrow> err + string \<times> string" where
  "manifest_entry kv =
     ebind (raise_if (fst kv = [] \<or> 4096 < length (fst kv)) (ResourceError ''input manifest paths must be nonempty strings'')) (\<lambda>_.
     ebind (raise_if (\<not> safe_path (fst kv)) (ResourceError ''input manifest path must stay inside project inputs'')) (\<lambda>_.
     (case snd kv of
        JStr h \<Rightarrow> if hex_digest h then Inr (fst kv, h)
                 else Inl (ResourceError ''input manifest values must be lowercase SHA-256 hashes'')
      | _ \<Rightarrow> Inl (ResourceError ''input manifest values must be lowercase SHA-256 hashes''))))"

definition validate_input_manifest :: "json \<Rightarrow> err + (string \<times> string) list" where
  "validate_input_manifest v =
     (case v of
        JObj (e # es) \<Rightarrow> emap manifest_entry (e # es)
      | _ \<Rightarrow> Inl (ResourceError ''input contract requires a nonempty input manifest''))"

definition input_contract_body :: "json \<Rightarrow> json \<Rightarrow> json \<Rightarrow> json \<Rightarrow> json \<Rightarrow> err + fields" where
  "input_contract_body recipe recipe_digest request_id lineage inputs =
     ebind (identifier_of recipe) (\<lambda>_.
     ebind (identifier_of request_id) (\<lambda>_.
     ebind (if lineage = JNull then Inr [] else identifier_of lineage) (\<lambda>_.
     ebind (raise_if (\<not> (case recipe_digest of JStr h \<Rightarrow> hex_digest h | _ \<Rightarrow> False))
              (ResourceError ''recipe digest must be a lowercase SHA-256 hash'')) (\<lambda>_.
     ebind (validate_input_manifest inputs) (\<lambda>manifest.
     Inr [(''request_id'', request_id), (''recipe'', recipe), (''recipe_digest'', recipe_digest), (''lineage'', lineage),
          (''inputs'', manifest_json manifest)])))))"

definition contract_fields :: "string list" where
  "contract_fields = [''schema_version'', ''kind'', ''request_id'', ''recipe'', ''recipe_digest'', ''lineage'', ''inputs'', ''input_contract_digest'']"

definition contract_of :: "(json \<Rightarrow> string) \<Rightarrow> fields \<Rightarrow> fields" where
  "contract_of dig body =
     [(''schema_version'', JInt 1), (''kind'', JStr ''ORCHESTRATOR_RESOURCE_INPUT_CONTRACT'')] @ body
     @ [(''input_contract_digest'', JStr (dig (jcanon (JObj body))))]"

definition build_input_contract :: "(json \<Rightarrow> string) \<Rightarrow> json \<Rightarrow> json \<Rightarrow> json \<Rightarrow> json \<Rightarrow> json \<Rightarrow> err + fields" where
  "build_input_contract dig recipe recipe_digest request_id lineage inputs =
     ebind (input_contract_body recipe recipe_digest request_id lineage inputs) (\<lambda>body. Inr (contract_of dig body))"

definition validate_input_contract :: "(json \<Rightarrow> string) \<Rightarrow> json \<Rightarrow> err + fields" where
  "validate_input_contract dig v =
     (case v of
        JObj value \<Rightarrow>
          ebind (raise_if (\<not> exact_keys value contract_fields) (ResourceError ''unsupported resource input contract fields'')) (\<lambda>_.
          ebind (raise_if (\<not> json_eq (get value ''schema_version'') (JInt 1))
                   (ResourceError ''unsupported resource input contract schema version'')) (\<lambda>_.
          ebind (raise_if (get value ''kind'' \<noteq> JStr ''ORCHESTRATOR_RESOURCE_INPUT_CONTRACT'')
                   (ResourceError ''unsupported resource input contract kind'')) (\<lambda>_.
          ebind (input_contract_body (get value ''recipe'') (get value ''recipe_digest'') (get value ''request_id'')
                   (get value ''lineage'') (get value ''inputs'')) (\<lambda>body.
          ebind (raise_if (get value ''input_contract_digest'' \<noteq> JStr (dig (jcanon (JObj body))))
                   (ResourceError ''resource input contract digest does not match its content'')) (\<lambda>_.
          Inr (contract_of dig body))))))
      | _ \<Rightarrow> Inl (ResourceError ''unsupported resource input contract fields''))"

section \<open>Creating an authority\<close>

text \<open>\<open>json.loads(canonical(config))\<close>: the same dict with its keys sorted at every level.\<close>

definition canonical_fields :: "fields \<Rightarrow> fields" where
  "canonical_fields fs = obj_fields (jcanon (JObj fs))"

text \<open>What the authority's directory holds.\<close>

record store =
  config_file :: "fields option"
  staged_file :: "fields option"
  database :: "ledger option"

definition registry_digest :: "env \<Rightarrow> ledger \<Rightarrow> string" where
  "registry_digest \<epsilon> L = sha \<epsilon> (jcanon (registry_json (registry L)))"

definition set_root :: "places \<Rightarrow> json \<Rightarrow> err + json" where
  "set_root P project =
     ebind (dict_of project) (\<lambda>fs. ebind (subscript project ''root'') (\<lambda>v. ebind (text_value v) (\<lambda>path.
     Inr (JObj (AList.update ''root'' (JStr (resolve_dir P path)) fs)))))"

definition set_token :: "string \<Rightarrow> json \<Rightarrow> json" where
  "set_token tok project = JObj (AList.update ''token'' (JStr tok) (obj_fields project))"

definition update_item :: "string \<Rightarrow> json \<Rightarrow> fields \<Rightarrow> fields" where
  "update_item k v fs = AList.update k v fs"

definition initialize :: "env \<Rightarrow> places \<Rightarrow> fields \<Rightarrow> store \<Rightarrow> err + fields \<times> store" where
  "initialize \<epsilon> P config st =
     ebind (validate_config P config) (\<lambda>_.
     ebind (raise_if (config_file st \<noteq> None \<or> database st \<noteq> None)
              (ResourceError ''authority already exists; refusing to replace identity or ownership'')) (\<lambda>_.
     ebind (open_ledger \<epsilon> True None) (\<lambda>L0.
     ebind (subscript (JObj config) ''resources'') (\<lambda>raw.
     ebind (configure \<epsilon> raw L0) (\<lambda>(_, L1).
     let canon = canonical_fields config in
     ebind (dict_of (get canon ''projects'')) (\<lambda>projects.
     ebind (emap (\<lambda>(k, (name, p)). ebind (set_root P (set_token (secret \<epsilon> (secret_draws L1 + k)) p)) (\<lambda>q. Inr (name, q)))
              (zip [0..<length projects] projects)) (\<lambda>ps.
     let cfg = update_item ''projects'' (JObj ps)
                 (update_item ''resource_digest'' (JStr (registry_digest \<epsilon> L1))
                 (update_item ''revision'' (JInt 1)
                 (update_item ''authority'' (JStr (authority L1)) canon)));
         L2 = L1\<lparr>secret_draws := secret_draws L1 + length projects\<rparr>
     in Inr (cfg, st\<lparr>config_file := Some cfg, database := Some L2\<rparr>))))))))"

section \<open>Replacing a configuration\<close>

definition revision_of :: "fields \<Rightarrow> json" where
  "revision_of config = get_or config ''revision'' (JInt 1)"

text \<open>The registered projects keep their root and their token; new ones get a token of their own.\<close>

definition carry_project :: "places \<Rightarrow> (string \<times> json) \<Rightarrow> fields \<Rightarrow> err + fields" where
  "carry_project P np projects =
     (case map_of projects (fst np) of
        None \<Rightarrow> Inl (ResourceError ''configuration update cannot remove projects'')
      | Some repl \<Rightarrow>
          ebind (subscript repl ''root'') (\<lambda>v. ebind (text_value v) (\<lambda>path.
          ebind (subscript (snd np) ''root'') (\<lambda>w.
          ebind (raise_if (JStr (resolve_dir P path) \<noteq> w)
                   (ResourceError ''configuration update cannot change an existing project root'')) (\<lambda>_.
          ebind (subscript (snd np) ''token'') (\<lambda>tok.
          Inr (AList.update (fst np) (JObj (AList.update ''token'' tok (obj_fields repl))) projects)))))))"

text \<open>One new project: its resolved root, and the next secret as its token unless it is registered.\<close>

definition place_project :: "env \<Rightarrow> places \<Rightarrow> fields \<Rightarrow> string \<times> json \<Rightarrow> fields \<times> nat \<Rightarrow> err + fields \<times> nat" where
  "place_project \<epsilon> P registered np acc =
     ebind (set_root P (snd np)) (\<lambda>q.
     if fst np \<in> set (keys registered) then Inr (fst acc @ [(fst np, q)], snd acc)
     else Inr (fst acc @ [(fst np, set_token (secret \<epsilon> (snd acc)) q)], Suc (snd acc)))"

definition next_config :: "env \<Rightarrow> places \<Rightarrow> fields \<Rightarrow> fields \<Rightarrow> ledger \<Rightarrow> err + fields \<times> ledger" where
  "next_config \<epsilon> P config current L =
     ebind (subscript (JObj current) ''projects'') (\<lambda>rp. ebind (dict_of rp) (\<lambda>registered.
     let canon = canonical_fields config in
     ebind (subscript (JObj canon) ''projects'') (\<lambda>pp. ebind (dict_of pp) (\<lambda>projects.
     ebind (efold (carry_project P) registered projects) (\<lambda>carried.
     ebind (efold (place_project \<epsilon> P registered) carried ([], secret_draws L)) (\<lambda>(placed, draws).
     ebind (subscript (JObj canon) ''resources'') (\<lambda>raw.
     ebind (normalize_registry raw) (\<lambda>reg.
     ebind (subscript (JObj current) ''authority'') (\<lambda>auth.
     ebind (py_incr (revision_of current)) (\<lambda>rev.
     Inr (update_item ''resource_digest'' (JStr (sha \<epsilon> (jcanon (registry_json reg))))
           (update_item ''revision'' rev
           (update_item ''authority'' auth (update_item ''projects'' (JObj placed) canon))),
          L\<lparr>secret_draws := draws\<rparr>)))))))))))"

text \<open>The next configuration after every check of the current one.\<close>

definition prepare_update :: "env \<Rightarrow> places \<Rightarrow> fields \<Rightarrow> json \<Rightarrow> store \<Rightarrow> err + fields \<times> ledger" where
  "prepare_update \<epsilon> P config expected st =
     (case config_file st of
        None \<Rightarrow> Inl (OsError ''config.json'')
      | Some current \<Rightarrow>
          ebind (raise_if (\<not> json_eq (revision_of current) expected) (ResourceError ''configuration revision changed'')) (\<lambda>_.
          ebind (open_ledger \<epsilon> False (database st)) (\<lambda>L.
          ebind (raise_if (JStr (authority L) \<noteq> get current ''authority'')
                   (ResourceError ''authority identity mismatch; reconcile restored state'')) (\<lambda>_.
          ebind (raise_if (get current ''resource_digest'' \<noteq> JNull \<and> get current ''resource_digest'' \<noteq> JStr (registry_digest \<epsilon> L))
                   (ResourceError ''authority configuration does not match the resource ledger'')) (\<lambda>_.
          ebind (raise_if (active_stages L \<noteq> [])
                   (ResourceError ''configuration update requires a stopped, fully drained authority'')) (\<lambda>_.
          next_config \<epsilon> P config current L))))))"

text \<open>\<open>_reconcile_configuration_unlocked\<close>\<close>

definition reconcile_configuration :: "env \<Rightarrow> places \<Rightarrow> store \<Rightarrow> err + string \<times> store" where
  "reconcile_configuration \<epsilon> P st =
     (case staged_file st of
        None \<Rightarrow> Inr (''unchanged'', st)
      | Some cand \<Rightarrow>
          (case config_file st of
             None \<Rightarrow> Inl (OsError ''config.json'')
           | Some current \<Rightarrow>
               ebind (validate_config P cand) (\<lambda>_.
               ebind (if \<not> json_eq (get cand ''authority'') (get current ''authority'') then Inr False
                      else ebind (py_incr (revision_of current)) (\<lambda>rev. Inr (json_eq (get cand ''revision'') rev))) (\<lambda>next.
               ebind (raise_if (\<not> next) (ResourceError ''staged configuration is not a recognized next revision'')) (\<lambda>_.
               ebind (open_ledger \<epsilon> False (database st)) (\<lambda>L.
               if get cand ''resource_digest'' = JStr (registry_digest \<epsilon> L)
               then Inr (''committed'', st\<lparr>config_file := Some cand, staged_file := None\<rparr>)
               else if get current ''resource_digest'' = JStr (registry_digest \<epsilon> L)
               then Inr (''rolled_back'', st\<lparr>staged_file := None\<rparr>)
               else Inl (ResourceError ''staged configuration and resource ledger have unrelated revisions'')))))))"

fun is_revision :: "json \<Rightarrow> bool" where
  "is_revision (JInt n) = (1 \<le> n)"
| "is_revision _ = False"

text \<open>The writes of an update, in order: the staged file, the ledger, the replacement of the configuration
  (which consumes the staged file). \<open>replaced\<close> tells whether the file system lets the replacement
  happen; when it does not, the ledger gets its old registry back. The second component lists what is
  on disk after each write: a crash leaves one of these.\<close>

definition update_writes :: "env \<Rightarrow> bool \<Rightarrow> fields \<Rightarrow> ledger \<Rightarrow> store \<Rightarrow> (err + fields) \<times> store list" where
  "update_writes \<epsilon> replaced upd L st =
     (let st1 = st\<lparr>staged_file := Some upd, database := Some L\<rparr> in
      case configure \<epsilon> (get upd ''resources'') L of
        Inl e \<Rightarrow> (Inl e, [st1, st1\<lparr>staged_file := None\<rparr>])
      | Inr (_, L') \<Rightarrow>
          let st2 = st1\<lparr>database := Some L'\<rparr> in
          if replaced then (Inr upd, [st1, st2, st2\<lparr>config_file := Some upd, staged_file := None\<rparr>])
          else
            let L'' = (if json_eq (registry_json (registry L')) (registry_json (registry L)) then L'
                       else committed (configure \<epsilon> (registry_json (registry L))) L');
                st3 = st2\<lparr>database := Some L''\<rparr>
            in (Inl (OsError ''config.json''), [st1, st2, st3, st3\<lparr>staged_file := None\<rparr>]))"

definition update_configuration ::
    "env \<Rightarrow> places \<Rightarrow> bool \<Rightarrow> fields \<Rightarrow> json \<Rightarrow> store \<Rightarrow> (err + fields) \<times> store list" where
  "update_configuration \<epsilon> P replaced config expected st =
     (case ebind (validate_config P config) (\<lambda>_.
           ebind (raise_if (\<not> is_revision expected) (ResourceError ''expected revision must be a positive integer'')) (\<lambda>_.
           reconcile_configuration \<epsilon> P st)) of
        Inl e \<Rightarrow> (Inl e, [st])
      | Inr (_, st0) \<Rightarrow>
          (case prepare_update \<epsilon> P config expected st0 of
             Inl e \<Rightarrow> (Inl e, [st, st0])
           | Inr (upd, L) \<Rightarrow>
               let (r, writes) = update_writes \<epsilon> replaced upd L st0 in (r, [st, st0] @ writes)))"

section \<open>Contracts\<close>

lemma manifest_entry_iff:
  "manifest_entry (k, v) = Inr p \<longleftrightarrow> (\<exists>h. p = (k, h) \<and> v = JStr h \<and> k \<noteq> [] \<and> length k \<le> 4096 \<and> safe_path k \<and> hex_digest h)"
  by (cases v) (auto simp: manifest_entry_def err_simps not_less)

lemma emap_manifest_entry:
  "emap manifest_entry es = Inr m \<Longrightarrow> es = map (\<lambda>(p, h). (p, JStr h)) m \<and> emap manifest_entry (map (\<lambda>(p, h). (p, JStr h)) m) = Inr m"
proof (induction es arbitrary: m)
  case (Cons e es)
  obtain k v where e: "e = (k, v)" by (cases e)
  with Cons.prems obtain p m' where p: "manifest_entry (k, v) = Inr p" and m': "emap manifest_entry es = Inr m'" and m: "m = p # m'"
    by (auto simp: err_simps)
  from p obtain h where h: "p = (k, h)" "v = JStr h" by (auto simp: manifest_entry_iff)
  with Cons.IH [OF m'] e p m show ?case by (auto simp: err_simps)
qed simp

lemma validate_manifest_roundtrip:
  "validate_input_manifest v = Inr m \<Longrightarrow> v = manifest_json m \<and> validate_input_manifest (manifest_json m) = Inr m"
proof -
  assume run: "validate_input_manifest v = Inr m"
  then obtain e es where v: "v = JObj (e # es)" by (auto simp: validate_input_manifest_def split: json.splits list.splits)
  with run have "emap manifest_entry (e # es) = Inr m" by (simp add: validate_input_manifest_def)
  from emap_manifest_entry [OF this] v run show ?thesis by (simp add: manifest_json_def)
qed

lemma contract_body_fields:
  assumes "input_contract_body recipe rd rid lineage inputs = Inr body"
  shows "body = [(''request_id'', rid), (''recipe'', recipe), (''recipe_digest'', rd), (''lineage'', lineage), (''inputs'', inputs)]"
  using assms by (auto simp: input_contract_body_def ebind_Inr_iff dest: validate_manifest_roundtrip)

text \<open>a contract that was built is accepted when it is read undone, and gives the same contract.\<close>

theorem input_contract_roundtrip:
  assumes "build_input_contract dig recipe rd rid lineage inputs = Inr c"
  shows "validate_input_contract dig (JObj c) = Inr c"
proof -
  from assms obtain body where body: "input_contract_body recipe rd rid lineage inputs = Inr body" and c: "c = contract_of dig body"
    by (auto simp: build_input_contract_def ebind_Inr_iff)
  note f = contract_body_fields [OF body]
  have "exact_keys c contract_fields"
    by (simp add: c contract_of_def f exact_keys_def contract_fields_def)
  with body show ?thesis
    unfolding validate_input_contract_def json.case by (simp add: c contract_of_def f)
qed

text \<open>an accepted contract names its own content: its digest is that of the body it carries, so a change
  of the recipe, its digest, the request id, the lineage or an input hash that keeps the recorded
  digest is accepted only if the digest function gives both bodies the same value.\<close>

theorem input_contract_tamper_evident:
  assumes "validate_input_contract dig (JObj c) = Inr c'"
  shows "get c ''input_contract_digest'' = JStr (dig (jcanon (JObj
     [(k, get c k). k \<leftarrow> [''request_id'', ''recipe'', ''recipe_digest'', ''lineage'', ''inputs'']])))"
proof -
  from assms obtain body where body: "input_contract_body (get c ''recipe'') (get c ''recipe_digest'') (get c ''request_id'')
      (get c ''lineage'') (get c ''inputs'') = Inr body" and d: "get c ''input_contract_digest'' = JStr (dig (jcanon (JObj body)))"
    unfolding validate_input_contract_def json.case ebind_Inr_iff by auto
  with contract_body_fields [OF body] show ?thesis by simp
qed

definition demo_contract :: fields where
  "demo_contract = contract_of (\<lambda>_. ''d'') [(''request_id'', JStr ''r''), (''recipe'', JStr ''build''),
     (''recipe_digest'', JStr (replicate 64 CHR ''0'')), (''lineage'', JNull),
     (''inputs'', JObj [(''src/a'', JStr (replicate 64 CHR ''f''))])]"

lemma demo_contract_built: "build_input_contract (\<lambda>_. ''d'') (JStr ''build'') (JStr (replicate 64 CHR ''0'')) (JStr ''r'') JNull
    (JObj [(''src/a'', JStr (replicate 64 CHR ''f''))]) = Inr demo_contract"
  by code_simp

theorem input_contract_roundtrip_witness: "validate_input_contract (\<lambda>_. ''d'') (JObj demo_contract) = Inr demo_contract"
  by (rule input_contract_roundtrip [OF demo_contract_built])

theorem input_contract_tamper_evident_witness: "get demo_contract ''input_contract_digest'' = JStr ''d''"
proof -
  have "validate_input_contract (\<lambda>_. ''d'') (JObj demo_contract) = Inr demo_contract" by code_simp
  from input_contract_tamper_evident [OF this] show ?thesis by simp
qed

section \<open>Captured inputs\<close>

definition manifest_clean :: "(string \<times> string) list \<Rightarrow> bool" where
  "manifest_clean m \<longleftrightarrow> distinct (keys m) \<and> list_all (\<lambda>k. ''.orchestrator'' \<notin> set (path_parts k)) (keys m)"

lemma update_clean:
  "manifest_clean m \<Longrightarrow> ''.orchestrator'' \<notin> set (path_parts k) \<Longrightarrow> manifest_clean (AList.update k h m)"
  by (auto simp: manifest_clean_def distinct_keys_update list_all_iff keys_update)

lemma add_candidate_clean: "add_candidate c m = Inr m' \<Longrightarrow> manifest_clean m \<Longrightarrow> manifest_clean m'"
  by (auto simp: add_candidate_def err_simps update_clean split: if_splits)

lemma efold_invariant:
  "efold f xs s = Inr s' \<Longrightarrow> (\<And>x s s'. x \<in> set xs \<Longrightarrow> f x s = Inr s' \<Longrightarrow> P s \<Longrightarrow> P s') \<Longrightarrow> P s \<Longrightarrow> P s'"
proof (induction xs arbitrary: s)
  case (Cons x xs)
  from Cons.prems(1) obtain t where t: "f x s = Inr t" "efold f xs t = Inr s'" by (auto simp: ebind_Inr_iff)
  have "P t" by (rule Cons.prems(2) [OF _ t(1) Cons.prems(3)]) simp
  with Cons.IH [OF t(2)] Cons.prems(2) show ?case by (meson list.set_intros(2))
qed simp

lemma add_input_clean: "add_input view v m = Inr m' \<Longrightarrow> manifest_clean m \<Longrightarrow> manifest_clean m'"
  by (cases v) (auto simp: add_input_def err_simps split: if_splits elim!: efold_invariant intro: add_candidate_clean)

lemma input_manifest_clean:
  assumes "input_manifest view inputs = Inr m"
  shows "m \<noteq> [] \<and> manifest_clean m"
proof -
  from assms have run: "efold (add_input view) inputs [] = Inr m" "m \<noteq> []"
    by (auto simp: input_manifest_def err_simps split: if_splits)
  have "manifest_clean []" by (simp add: manifest_clean_def)
  with run efold_invariant [where P = manifest_clean, OF run(1)] add_input_clean show ?thesis by blast
qed

section \<open>Crash safety of a configuration update\<close>

lemma get_update_item [simp]: "get (update_item k v fs) k' = (if k = k' then v else get fs k')"
  by (simp add: update_item_def get_def)

lemma get_or_update_item [simp]: "get_or (update_item k v fs) k' d = (if k = k' then v else get_or fs k' d)"
  by (simp add: update_item_def get_or_def)

lemma configure_Inr:
  assumes "configure \<epsilon> raw L = Inr (u, L')"
  shows "normalize_registry raw = Inr (registry L') \<and> authority L' = authority L"
proof -
  have quiet: "ofor (\<lambda>s. obind (olift (g s)) (\<lambda>_. olift (h s))) xs L = Inr (y, L1) \<Longrightarrow> L1 = L"
    for g :: "stage \<Rightarrow> err + unit" and h :: "stage \<Rightarrow> err + unit" and xs y L1
    by (induction xs arbitrary: y L1) (fastforce simp: op_simps)+
  from assms show ?thesis by (auto simp: configure_def op_simps log_event_def now_def dest!: quiet)
qed

definition consistent :: "env \<Rightarrow> fields \<Rightarrow> ledger \<Rightarrow> bool" where
  "consistent \<epsilon> cfg L \<longleftrightarrow>
     get cfg ''resource_digest'' = JStr (registry_digest \<epsilon> L) \<and> get cfg ''authority'' = JStr (authority L)"

lemma subscript_get: "subscript (JObj fs) k = Inr v \<Longrightarrow> get fs k = v"
  by (auto simp: get_def split: option.splits)

lemma next_config_Inr:
  assumes "next_config \<epsilon> P config cur L = Inr (upd, L1)"
  shows "\<exists>reg n. normalize_registry (get upd ''resources'') = Inr reg \<and> get upd ''resource_digest'' = JStr (sha \<epsilon> (jcanon (registry_json reg)))
     \<and> get upd ''authority'' = get cur ''authority'' \<and> py_incr (revision_of cur) = Inr (get upd ''revision'') \<and> L1 = L\<lparr>secret_draws := n\<rparr>"
  using assms
  by (auto simp: next_config_def Let_def ebind_Inr_iff simp del: subscript.simps split: prod.splits dest!: subscript_get)

lemma prepare_update_Inr:
  assumes "prepare_update \<epsilon> P config expected st = Inr (upd, L1)"
  obtains cur L where "config_file st = Some cur" "database st = Some L" "json_eq (revision_of cur) expected"
    "get cur ''authority'' = JStr (authority L)" "active_stages L = []"
    "get cur ''resource_digest'' = JNull \<or> get cur ''resource_digest'' = JStr (registry_digest \<epsilon> L)"
    "next_config \<epsilon> P config cur L = Inr (upd, L1)"
  using assms
  by (auto simp: prepare_update_def open_ledger_def ebind_Inr_iff simp del: disj_not1 split: option.splits)

lemma registry_digest_draws [simp]: "registry_digest \<epsilon> (L\<lparr>secret_draws := n\<rparr>) = registry_digest \<epsilon> L"
  by (simp add: registry_digest_def)

lemma reconcile_staged:
  assumes "staged_file st = Some upd" "config_file st = Some cur" "database st = Some L" "validate_config P upd = Inr ()"
    "get upd ''authority'' = get cur ''authority''" "py_incr (revision_of cur) = Inr (get upd ''revision'')"
    "get upd ''resource_digest'' = JStr (registry_digest \<epsilon> L) \<or> get cur ''resource_digest'' = JStr (registry_digest \<epsilon> L)"
    "get cur ''authority'' = JStr (authority L)"
  shows "\<exists>how st' c. reconcile_configuration \<epsilon> P st = Inr (how, st') \<and> staged_file st' = None \<and> config_file st' = Some c
     \<and> c \<in> {cur, upd} \<and> database st' = Some L \<and> consistent \<epsilon> c L"
  using assms by (auto simp: reconcile_configuration_def open_ledger_def consistent_def)

lemma update_writes_disk:
  assumes cur: "config_file st = Some cur" "staged_file st = None" "get cur ''authority'' = JStr (authority L)"
      "get cur ''resource_digest'' = JStr (registry_digest \<epsilon> L)"
    and nxt: "next_config \<epsilon> P config cur L = Inr (upd, L1)"
    and norm: "normalize_registry (registry_json (registry L)) = Inr (registry L)"
    and st': "st' \<in> set (snd (update_writes \<epsilon> replaced upd L1 st))"
  shows "\<exists>L'. database st' = Some L' \<and> authority L' = authority L \<and>
     (staged_file st' = Some upd \<and> config_file st' = Some cur
        \<and> (get upd ''resource_digest'' = JStr (registry_digest \<epsilon> L') \<or> get cur ''resource_digest'' = JStr (registry_digest \<epsilon> L'))
      \<or> staged_file st' = None \<and> config_file st' = Some upd \<and> get upd ''resource_digest'' = JStr (registry_digest \<epsilon> L')
      \<or> staged_file st' = None \<and> config_file st' = Some cur \<and> (replaced \<longrightarrow> get cur ''resource_digest'' = JStr (registry_digest \<epsilon> L')))"
proof -
  from next_config_Inr [OF nxt] obtain reg n where reg: "normalize_registry (get upd ''resources'') = Inr reg"
    "get upd ''resource_digest'' = JStr (sha \<epsilon> (jcanon (registry_json reg)))" and L1: "L1 = L\<lparr>secret_draws := n\<rparr>" by blast
  show ?thesis
  proof (cases "configure \<epsilon> (get upd ''resources'') L1")
    case (Inl e)
    with st' cur L1 show ?thesis by (auto simp: update_writes_def Let_def)
  next
    case (Inr p)
    obtain u L' where p: "p = (u, L')" by (cases p)
    from configure_Inr [OF Inr [unfolded p]] reg have L': "registry L' = reg" "authority L' = authority L" by (simp_all add: L1)
    then have dig: "get upd ''resource_digest'' = JStr (registry_digest \<epsilon> L')" using reg by (simp add: registry_digest_def)
    let ?undone = "committed (configure \<epsilon> (registry_json (registry L1))) L'"
    have undone: "authority ?undone = authority L \<and> (get upd ''resource_digest'' = JStr (registry_digest \<epsilon> ?undone)
        \<or> get cur ''resource_digest'' = JStr (registry_digest \<epsilon> ?undone))"
    proof (cases "configure \<epsilon> (registry_json (registry L1)) L'")
      case (Inl e)
      with L' dig show ?thesis by (simp add: committed_def)
    next
      case (Inr q)
      obtain w L'' where "q = (w, L'')" by (cases q)
      with configure_Inr [of \<epsilon> "registry_json (registry L1)" L' w L''] Inr norm L' cur show ?thesis
        by (simp add: committed_def L1 registry_digest_def)
    qed
    from Inr p st' cur L' dig undone L1 show ?thesis
      by (auto simp: update_writes_def Let_def split: if_splits)
  qed
qed


text \<open>What an update keeps of the registered projects.\<close>

lemma carry_other: "carry_project P np ps = Inr ps' \<Longrightarrow> fst np \<noteq> n \<Longrightarrow> map_of ps' n = map_of ps n"
  by (auto simp: carry_project_def err_simps simp del: subscript.simps split: option.splits)

lemma carry_others: "efold (carry_project P) xs ps = Inr ps' \<Longrightarrow> n \<notin> set (keys xs) \<Longrightarrow> map_of ps' n = map_of ps n"
proof (induction xs arbitrary: ps)
  case (Cons x xs)
  then obtain ps1 where "carry_project P x ps = Inr ps1" "efold (carry_project P) xs ps1 = Inr ps'" by (auto simp: ebind_Inr_iff)
  with Cons carry_other [of P x ps ps1 n] show ?case by (cases x) auto
qed simp

lemma carry_token:
  assumes "carry_project P (n, p) ps = Inr ps'"
  shows "\<exists>q. map_of ps' n = Some q \<and> subscript p ''token'' = Inr (get (obj_fields q) ''token'')"
  using assms
  by (auto simp: carry_project_def err_simps get_def simp del: subscript.simps split: option.splits)

lemma carry_tokens:
  "efold (carry_project P) xs ps = Inr ps' \<Longrightarrow> distinct (keys xs) \<Longrightarrow> (n, p) \<in> set xs \<Longrightarrow>
   \<exists>q. map_of ps' n = Some q \<and> subscript p ''token'' = Inr (get (obj_fields q) ''token'')"
proof (induction xs arbitrary: ps)
  case (Cons x xs)
  then obtain ps1 where c: "carry_project P x ps = Inr ps1" and cs: "efold (carry_project P) xs ps1 = Inr ps'"
    by (auto simp: ebind_Inr_iff)
  show ?case
  proof (cases "x = (n, p)")
    case True
    with Cons.prems have "n \<notin> set (keys xs)" by simp
    with carry_others [OF cs] carry_token c True show ?thesis by fastforce
  next
    case False
    with Cons cs show ?thesis by (cases x) auto
  qed
qed simp

lemma set_root_token: "set_root P q = Inr q' \<Longrightarrow> get (obj_fields q') ''token'' = get (obj_fields q) ''token''"
  by (cases q) (auto simp: set_root_def ebind_Inr_iff get_def simp del: subscript.simps)

lemma place_tokens:
  "efold (place_project \<epsilon> P registered) xs acc = Inr (placed, k) \<Longrightarrow>
   (\<forall>e\<in>set (fst acc). e \<in> set placed) \<and>
   (\<forall>n q. (n, q) \<in> set xs \<longrightarrow> n \<in> set (keys registered) \<longrightarrow>
      (\<exists>q'. (n, q') \<in> set placed \<and> get (obj_fields q') ''token'' = get (obj_fields q) ''token''))"
proof (induction xs arbitrary: acc)
  case (Cons x xs)
  obtain n q where x: "x = (n, q)" by (cases x)
  from Cons.prems x obtain acc' where step: "place_project \<epsilon> P registered (n, q) acc = Inr acc'"
    and rest: "efold (place_project \<epsilon> P registered) xs acc' = Inr (placed, k)"
    by (auto simp: ebind_Inr_iff)
  from step obtain q' where q': "set_root P q = Inr q'"
    and acc': "acc' = (if n \<in> set (keys registered) then (fst acc @ [(n, q')], snd acc)
                       else (fst acc @ [(n, set_token (secret \<epsilon> (snd acc)) q')], Suc (snd acc)))"
    by (auto simp: place_project_def ebind_Inr_iff split: if_splits)
  from Cons.IH [OF rest] acc' set_root_token [OF q'] x show ?case by (auto split: if_splits)
qed simp

text \<open>a successful update raises the revision by one from the expected one, keeps the authority's identity,
  removes no project and keeps the credential of every registered project, and afterwards nothing is
  staged.\<close>

theorem update_keeps_identity:
  assumes cur: "config_file st = Some cur" "staged_file st = None"
    and run: "update_configuration \<epsilon> P replaced config expected st = (Inr upd, disks)"
    and registered: "get cur ''projects'' = JObj projects" "distinct (keys projects)"
  shows "json_eq (revision_of cur) expected \<and> py_incr (revision_of cur) = Inr (revision_of upd)
    \<and> get upd ''authority'' = get cur ''authority'' \<and> config_file (last disks) = Some upd \<and> staged_file (last disks) = None
    \<and> (\<forall>n p. (n, p) \<in> set projects \<longrightarrow>
         (\<exists>q. (n, q) \<in> set (obj_fields (get upd ''projects'')) \<and> subscript p ''token'' = Inr (get (obj_fields q) ''token'')))"
proof -
  have same: "reconcile_configuration \<epsilon> P st = Inr (''unchanged'', st)"
    using cur by (simp add: reconcile_configuration_def)
  from run same obtain L1 upd' where prep: "prepare_update \<epsilon> P config expected st = Inr (upd', L1)"
    and w: "fst (update_writes \<epsilon> replaced upd' L1 st) = Inr upd" "disks = [st, st] @ snd (update_writes \<epsilon> replaced upd' L1 st)"
    by (auto simp: update_configuration_def ebind_def split: sum.splits prod.splits)
  from w have upd: "upd' = upd" "config_file (last disks) = Some upd" "staged_file (last disks) = None"
    by (auto simp: update_writes_def Let_def split: sum.splits if_splits)
  from prep cur obtain L where rev: "json_eq (revision_of cur) expected" and nxt: "next_config \<epsilon> P config cur L = Inr (upd, L1)"
    by (auto simp: upd(1) elim!: prepare_update_Inr)
  from nxt registered obtain carried placed n0 ps rev' where
    carry: "efold (carry_project P) projects ps = Inr carried"
    and place: "efold (place_project \<epsilon> P projects) carried ([], secret_draws L) = Inr (placed, n0)"
    and rev': "py_incr (revision_of cur) = Inr rev'" "get_or upd ''revision'' (JInt 1) = rev'"
    and pl: "get upd ''projects'' = JObj placed"
    by (auto simp: next_config_def Let_def ebind_Inr_iff simp del: subscript.simps dest!: subscript_get)
  have "\<exists>q. (n, q) \<in> set placed \<and> subscript p ''token'' = Inr (get (obj_fields q) ''token'')" if np: "(n, p) \<in> set projects" for n p
  proof -
    from carry_tokens [OF carry registered(2) np] obtain q where q: "map_of carried n = Some q"
      "subscript p ''token'' = Inr (get (obj_fields q) ''token'')" by blast
    have "n \<in> set (keys projects)" using np by (force simp: keys_def)
    with place_tokens [OF place] map_of_SomeD [OF q(1)] q(2) show ?thesis by fastforce
  qed
  with rev rev' pl next_config_Inr [OF nxt] upd show ?thesis by (auto simp: revision_of_def)
qed

section \<open>A concrete update\<close>

definition demo_places :: places where
  "demo_places = \<lparr>resolve_dir = (\<lambda>s. s), dir_state = (\<lambda>_. Some True)\<rparr>"

definition demo_current :: fields where
  "demo_current = [(''authority'', JStr ''u''),
     (''projects'', JObj [(''p'', JObj [(''recipes'', JObj []), (''root'', JStr ''/w''), (''token'', JStr ''s'')])]),
     (''resource_digest'', JStr ''d''), (''resources'', demo_registry), (''revision'', JInt 1)]"

definition demo_store :: store where
  "demo_store = \<lparr>config_file = Some demo_current, staged_file = None, database = Some demo_configured\<rparr>"

definition demo_config :: fields where
  "demo_config = [(''projects'', JObj [(''p'', JObj [(''recipes'', JObj []), (''root'', JStr ''/w'')]),
       (''q'', JObj [(''recipes'', JObj []), (''root'', JStr ''/v'')])]), (''resources'', demo_registry)]"

definition demo_next :: "fields \<times> ledger" where
  "demo_next = projr (prepare_update demo_env demo_places demo_config (JInt 1) demo_store)"

definition demo_update :: "(err + fields) \<times> store list" where
  "demo_update = update_configuration demo_env demo_places True demo_config (JInt 1) demo_store"

lemma demo_update_facts:
  "prepare_update demo_env demo_places demo_config (JInt 1) demo_store = Inr demo_next"
  "validate_config demo_places (fst demo_next) = Inr ()"
  "fst demo_update = Inr (fst demo_next)" "length (snd demo_update) = 5"
  "staged_file (snd demo_update ! 2) = Some (fst demo_next)"
  "normalize_registry (registry_json demo_leaves) = Inr demo_leaves"
  by code_simp+


theorem update_keeps_identity_witness:
  "json_eq (revision_of demo_current) (JInt 1) \<and> py_incr (revision_of demo_current) = Inr (revision_of (fst demo_next))
    \<and> config_file (last (snd demo_update)) = Some (fst demo_next)"
proof -
  have run: "update_configuration demo_env demo_places True demo_config (JInt 1) demo_store = (Inr (fst demo_next), snd demo_update)"
    using demo_update_facts(3) by (simp add: demo_update_def prod_eq_iff)
  have projects: "get demo_current ''projects'' = JObj [(''p'', JObj [(''recipes'', JObj []), (''root'', JStr ''/w''), (''token'', JStr ''s'')])]"
    "config_file demo_store = Some demo_current" "staged_file demo_store = None"
    by (simp_all add: demo_current_def demo_store_def)
  show ?thesis
    using update_keeps_identity [OF projects(2,3) run projects(1)] by simp
qed

end
