(* ===== verification/Resource_Authority.thy ===== *)
theory Resource_Authority
  imports Resource_Config Resource_Metrics
begin

text \<open>
  The native authority (\<open>resource_service.Authority\<close>): authentication and dispatch of a project's calls,
  submission with its immutable input snapshot, the reconciliation of supervisors that disappeared,
  the launch of granted stages, the delivery of outcomes and the service's tick.

  The state is the ledger, the children the process started, the snapshot directories, and the files
  that delivery writes into the projects. Every ledger call is a transaction of its own: what it
  committed stays when a later step raises, so the operations that make several calls return an
  optional error beside the new state.
\<close>

section \<open>State and environment\<close>

datatype spawn_result =
    Log_Error string
  | Spawn_Error string
  | Spawned int bool

record authority_state =
  au_config :: fields
  au_ledger :: ledger
  au_children :: "string list"
  au_workspaces :: "(string \<times> (string \<times> string) list) list"
  au_results :: "(string \<times> string) list"
  au_events :: "string list"
  au_signals :: "string list"
  au_tick :: nat

text \<open>The machine: processes and files. \<open>Spawned pid ok\<close>: \<open>ok\<close> tells whether the child took its launch
  token. \<open>delivery_error step id attempt\<close> is the failure of one delivery step, if it fails.\<close>

record machine =
  m_host :: host
  m_spawn :: "nat \<Rightarrow> string \<Rightarrow> spawn_result"
  m_exited :: "nat \<Rightarrow> string \<Rightarrow> bool"
  m_is_dir :: "string \<Rightarrow> bool"
  m_inputs :: "string \<Rightarrow> string \<Rightarrow> input_view"
  m_capture_error :: "string \<Rightarrow> err option"
  m_removable :: "string \<Rightarrow> bool"
  m_delivery_error :: "string \<Rightarrow> string \<Rightarrow> nat \<Rightarrow> err option"

type_synonym 'a step = "authority_state \<Rightarrow> 'a \<times> authority_state"

text \<open>A transaction on the authority's ledger.\<close>

definition in_ledger :: "'a op \<Rightarrow> authority_state \<Rightarrow> (err + 'a) \<times> authority_state" where
  "in_ledger m A =
     (case m (au_ledger A) of Inl e \<Rightarrow> (Inl e, A) | Inr (x, L) \<Rightarrow> (Inr x, A\<lparr>au_ledger := L\<rparr>))"

section \<open>Supervisors that disappeared\<close>

definition uncertain_evidence :: "liveness \<Rightarrow> json" where
  "uncertain_evidence st = JObj [(''reason'', JStr ''supervisor_uncertain''),
     (''identity_state'', JStr (case st of Alive \<Rightarrow> ''alive'' | Gone \<Rightarrow> ''gone'' | Unknown \<Rightarrow> ''unknown''))]"

definition is_resource_error :: "err \<Rightarrow> bool" where
  "is_resource_error e = (case e of ResourceError _ \<Rightarrow> True | _ \<Rightarrow> False)"

text \<open>One stage of the loop of \<open>reconcile\<close>: a stage whose supervisor is not provably alive is finished as
  failed with nothing released. A completion that the runner committed meanwhile is accepted.\<close>

definition reconcile_stage :: "env \<Rightarrow> machine \<Rightarrow> stage \<Rightarrow> authority_state \<Rightarrow> err option \<times> authority_state" where
  "reconcile_stage \<epsilon> M s A =
     (if \<not> owning (st_state s) \<or> st_state s = Recovery_Required then (None, A)
      else if st_id s \<in> set (au_children A) \<and> st_state s = Granted then (None, A)
      else
        let (st, n) = identity_state (m_host M) (st_supervisor s) (au_tick A); A' = A\<lparr>au_tick := n\<rparr> in
        if is_state st = Alive then (None, A')
        else (case in_ledger (finish \<epsilon> (st_id s) (st_epoch s) Failed [] (uncertain_evidence (is_state st))) A' of
            (Inr _, A'') \<Rightarrow> (None, A'')
          | (Inl e, A'') \<Rightarrow>
              if is_resource_error e then
                (case find_stage (st_id s) (stage_rows (au_ledger A'')) of
                   None \<Rightarrow> (Some (ResourceError ''unknown stage''), A'')
                 | Some t \<Rightarrow> (if owning (st_state t) then Some e else None, A''))
              else (Some e, A'')))"

fun until_error :: "('a \<Rightarrow> authority_state \<Rightarrow> err option \<times> authority_state) \<Rightarrow> 'a list \<Rightarrow> authority_state \<Rightarrow> err option \<times> authority_state" where
  "until_error f [] A = (None, A)"
| "until_error f (x # xs) A =
     (case f x A of (Some e, A') \<Rightarrow> (Some e, A') | (None, A') \<Rightarrow> until_error f xs A')"

definition and_then :: "(authority_state \<Rightarrow> err option \<times> authority_state) \<Rightarrow>
    (authority_state \<Rightarrow> err option \<times> authority_state) \<Rightarrow> authority_state \<Rightarrow> err option \<times> authority_state" where
  "and_then f g A = (case f A of (Some e, A') \<Rightarrow> (Some e, A') | (None, A') \<Rightarrow> g A')"

definition reconcile :: "env \<Rightarrow> machine \<Rightarrow> authority_state \<Rightarrow> err option \<times> authority_state" where
  "reconcile \<epsilon> M A = until_error (reconcile_stage \<epsilon> M) (active_stages (au_ledger A)) A"

section \<open>Launching a granted stage\<close>

definition add_child :: "string \<Rightarrow> string list \<Rightarrow> string list" where
  "add_child i xs = (if i \<in> set xs then xs else xs @ [i])"

definition launch :: "env \<Rightarrow> machine \<Rightarrow> stage \<Rightarrow> authority_state \<Rightarrow> err option \<times> authority_state" where
  "launch \<epsilon> M s A =
     (case m_spawn M (au_tick A) (st_id s) of
        Log_Error e \<Rightarrow> (Some (OsError e), A\<lparr>au_tick := Suc (au_tick A)\<rparr>)
      | Spawn_Error e \<Rightarrow>
          (case in_ledger (finish \<epsilon> (st_id s) (st_epoch s) Failed (keys (st_allocation s))
                  (JObj [(''not_started'', JStr e)])) (A\<lparr>au_tick := Suc (au_tick A)\<rparr>) of
             (Inl er, A') \<Rightarrow> (Some er, A') | (Inr _, A') \<Rightarrow> (None, A'))
      | Spawned pid takes \<Rightarrow>
          let A1 = A\<lparr>au_tick := Suc (Suc (au_tick A)), au_children := add_child (st_id s) (au_children A)\<rparr> in
          (case process_identity (m_host M) (Suc (au_tick A)) (JInt pid) of
             None \<Rightarrow> (Some (ResourceError ''supervisor identity unavailable''), A1)
           | Some ident \<Rightarrow>
               (case in_ledger (attach \<epsilon> (st_id s) (st_epoch s) (JObj ident)) A1 of
                  (Inl e, A2) \<Rightarrow> (Some e, A2)
                | (Inr _, A2) \<Rightarrow> (if takes then None else Some (OsError ''stdin''), A2))))"

definition launch_evidence :: "string \<Rightarrow> json" where
  "launch_evidence e = JObj [(''reason'', JStr ''launch_uncertain''), (''error'', JStr e)]"

fun error_text :: "err \<Rightarrow> string" where
  "error_text (ResourceError m) = m"
| "error_text (OrchestratorError m) = m"
| "error_text (LeaseError m) = m"
| "error_text (WaitError m) = m"
| "error_text (WorkstreamError m) = m"
| "error_text (BindingError m) = m"
| "error_text (OsError m) = m"
| "error_text (KeyError m) = CHR 0x27 # m @ [CHR 0x27]"
| "error_text _ = []"

definition launch_or_quarantine :: "env \<Rightarrow> machine \<Rightarrow> stage \<Rightarrow> authority_state \<Rightarrow> err option \<times> authority_state" where
  "launch_or_quarantine \<epsilon> M s A =
     (case launch \<epsilon> M s A of
        (None, A') \<Rightarrow> (None, A')
      | (Some e, A') \<Rightarrow>
          if (case e of OsError _ \<Rightarrow> True | ResourceError _ \<Rightarrow> True | _ \<Rightarrow> False) then
            (case in_ledger (finish \<epsilon> (st_id s) (st_epoch s) Failed [] (launch_evidence (error_text e))) A' of
               (Inl e', A'') \<Rightarrow> (Some e', A'') | (Inr _, A'') \<Rightarrow> (None, A''))
          else (Some e, A'))"

section \<open>Delivery\<close>

definition config_projects :: "authority_state \<Rightarrow> fields" where
  "config_projects A = obj_fields (get (au_config A) ''projects'')"

text \<open>The registered root of a project: \<open>self.config["projects"][project]["root"]\<close> outside the guarded part.\<close>

definition project_root :: "authority_state \<Rightarrow> string \<Rightarrow> err + string" where
  "project_root A project =
     ebind (subscript (JObj (config_projects A)) project) (\<lambda>p. ebind (subscript p ''root'') text_value)"


definition result_name :: "outcome_body \<Rightarrow> string" where
  "result_name b = (if oc_status b = ''action_required'' then ''recovery-required-'' @ oc_outcome_id b @ ''.json'' else ''result.json'')"

definition wants_wake :: "outcome_body \<Rightarrow> bool" where
  "wants_wake b \<longleftrightarrow>
     (let sub = obj_fields (oc_subscriber b); policy = get sub ''wake_policy'' in
      truthy (get_or sub ''wake'' (JBool False)) \<or> policy = JStr ''always''
      \<or> policy = JStr ''on-failure'' \<and> oc_status b \<noteq> ''passed'')"

definition mark_delivered :: "string \<Rightarrow> ledger \<Rightarrow> ledger" where
  "mark_delivered i L = L\<lparr>outbox := map (\<lambda>r. if ob_id r = i then r\<lparr>ob_delivered := True\<rparr> else r) (outbox L)\<rparr>"

text \<open>\<open>min(60, 2 ** min(attempts, 6))\<close>\<close>

definition backoff :: "nat \<Rightarrow> int" where
  "backoff attempts = min 60 (2 ^ min attempts 6)"

definition mark_retry :: "string \<Rightarrow> nat \<Rightarrow> int \<Rightarrow> string \<Rightarrow> ledger \<Rightarrow> ledger" where
  "mark_retry i attempts t msg L =
     L\<lparr>outbox := map (\<lambda>r. if ob_id r = i then r\<lparr>ob_attempts := attempts, ob_next_attempt := t + backoff attempts,
                                  ob_last_error := Some msg\<rparr> else r) (outbox L)\<rparr>"

text \<open>The writes of one delivery, each with its own failure. A result file that is there is kept; the event
  is written once under the outbox id, and a signal that a crash lost is written later.\<close>

definition delivery_step ::
    "machine \<Rightarrow> string \<Rightarrow> outbox_row \<Rightarrow> (authority_state \<Rightarrow> authority_state) \<Rightarrow> authority_state \<Rightarrow> err option \<times> authority_state" where
  "delivery_step M what row change A =
     (case m_delivery_error M what (ob_id row) (ob_attempts row) of Some e \<Rightarrow> (Some e, A) | None \<Rightarrow> (None, change A))"

definition result_key :: "outbox_row \<Rightarrow> string \<times> string" where
  "result_key row = (oc_request (ob_body row), result_name (ob_body row))"

definition write_result :: "machine \<Rightarrow> outbox_row \<Rightarrow> authority_state \<Rightarrow> err option \<times> authority_state" where
  "write_result M row A =
     (if result_key row \<in> set (au_results A) then (None, A)
      else delivery_step M ''result'' row (\<lambda>B. B\<lparr>au_results := au_results B @ [result_key row]\<rparr>) A)"

definition write_check :: "machine \<Rightarrow> outbox_row \<Rightarrow> authority_state \<Rightarrow> err option \<times> authority_state" where
  "write_check M row A =
     (if truthy (get (obj_fields (oc_subscriber (ob_body row))) ''check_id'')
      then delivery_step M ''check'' row (\<lambda>B. B) A else (None, A))"

definition write_signal :: "machine \<Rightarrow> outbox_row \<Rightarrow> authority_state \<Rightarrow> err option \<times> authority_state" where
  "write_signal M row = delivery_step M ''signal'' row (\<lambda>B. B\<lparr>au_signals := au_signals B @ [ob_id row]\<rparr>)"

definition write_event :: "machine \<Rightarrow> outbox_row \<Rightarrow> authority_state \<Rightarrow> err option \<times> authority_state" where
  "write_event M row A =
     (if ob_id row \<notin> set (au_events A) then
        and_then (delivery_step M ''event'' row (\<lambda>B. B\<lparr>au_events := au_events B @ [ob_id row]\<rparr>))
          (if wants_wake (ob_body row) then write_signal M row else (\<lambda>B. (None, B))) A
      else if wants_wake (ob_body row) \<and> ob_id row \<notin> set (au_signals A) then write_signal M row A
      else (None, A))"

definition deliver_writes :: "machine \<Rightarrow> outbox_row \<Rightarrow> authority_state \<Rightarrow> err option \<times> authority_state" where
  "deliver_writes M row =
     and_then (delivery_step M ''evidence'' row (\<lambda>B. B))
       (and_then (write_result M row) (and_then (write_check M row) (write_event M row)))"

definition retriable :: "err \<Rightarrow> bool" where
  "retriable e =
     (case e of OsError _ \<Rightarrow> True | ResourceError _ \<Rightarrow> True | OrchestratorError _ \<Rightarrow> True | ValueError \<Rightarrow> True
      | TypeError \<Rightarrow> True | KeyError _ \<Rightarrow> True | _ \<Rightarrow> False)"

definition set_ledger :: "ledger \<Rightarrow> authority_state \<Rightarrow> authority_state" where
  "set_ledger L A = A\<lparr>au_ledger := L\<rparr>"

text \<open>One row of \<open>deliver\<close>. The row was read before the loop; the ledger is the current one.\<close>

definition deliver_row :: "env \<Rightarrow> machine \<Rightarrow> outbox_row \<Rightarrow> authority_state \<Rightarrow> err option \<times> authority_state" where
  "deliver_row \<epsilon> M row A =
     (let b = ob_body row; L = au_ledger A in
      case find_request (oc_request b) (requests L) of
        None \<Rightarrow> (Some (ResourceError ''unknown resource request''), A)
      | Some rq \<Rightarrow>
          if \<not> list_ex (json_eq (oc_subscriber b)) (rq_subscribers rq)
          then (None, set_ledger (mark_delivered (ob_id row) L) A)
          else
            (case (if oc_stages b \<noteq> [] then Inr () else
                     ebind (snapshot_of (oc_project b) (Some (oc_request b)) L) (\<lambda>_. Inr ())) of
               Inl e \<Rightarrow> (Some e, A)
             | Inr _ \<Rightarrow>
                 if oc_status b = ''action_required'' \<and>
                    \<not> list_ex (\<lambda>s. st_state s = Recovery_Required) (stages_of (oc_request b) L)
                 then (None, set_ledger (mark_delivered (ob_id row) L) A)
                 else (case project_root A (oc_project b) of Inl e \<Rightarrow> (Some e, A) | Inr _ \<Rightarrow>
                   (case deliver_writes M row A of
                      (None, A') \<Rightarrow> (None, set_ledger (mark_delivered (ob_id row) (au_ledger A')) A')
                    | (Some e, A') \<Rightarrow>
                        if retriable e then
                          (case obind (log_event \<epsilon> (ob_id row) (Delivery_Failed_Event (error_text e))) (\<lambda>_. now \<epsilon>) (au_ledger A') of
                             Inl e' \<Rightarrow> (Some e', A')
                           | Inr (t, L') \<Rightarrow>
                               (None, set_ledger (mark_retry (ob_id row) (Suc (ob_attempts row)) t (error_text e) L') A'))
                        else (Some e, A')))))"

definition deliver_outcomes :: "env \<Rightarrow> machine \<Rightarrow> authority_state \<Rightarrow> err option \<times> authority_state" where
  "deliver_outcomes \<epsilon> M A =
     (case now \<epsilon> (au_ledger A) of
        Inl e \<Rightarrow> (Some e, A)
      | Inr (t, L) \<Rightarrow>
          until_error (deliver_row \<epsilon> M)
            (filter (\<lambda>r. \<not> ob_delivered r \<and> ob_next_attempt r \<le> t) (outbox L)) (set_ledger L A))"

section \<open>The tick\<close>

definition unavailable_projects :: "machine \<Rightarrow> authority_state \<Rightarrow> string list" where
  "unavailable_projects M A =
     map fst (filter (\<lambda>(n, p). \<not> (case get (obj_fields p) ''root'' of JStr r \<Rightarrow> m_is_dir M r | _ \<Rightarrow> False)) (config_projects A))"

text \<open>Children whose stage no longer owns resources and whose process has exited are forgotten.\<close>

definition reap :: "machine \<Rightarrow> string \<Rightarrow> authority_state \<Rightarrow> err option \<times> authority_state" where
  "reap M i A =
     (case find_stage i (stage_rows (au_ledger A)) of
        None \<Rightarrow> (Some (ResourceError ''unknown stage''), A)
      | Some s \<Rightarrow>
          if \<not> owning (st_state s) \<and> m_exited M (au_tick A) i
          then (None, A\<lparr>au_children := filter (\<lambda>j. j \<noteq> i) (au_children A)\<rparr>) else (None, A))"

definition schedule_and_launch :: "env \<Rightarrow> machine \<Rightarrow> authority_state \<Rightarrow> err option \<times> authority_state" where
  "schedule_and_launch \<epsilon> M A =
     (case in_ledger (schedule \<epsilon> (unavailable_projects M A)) A of
        (Inl e, A') \<Rightarrow> (Some e, A')
      | (Inr granted, A') \<Rightarrow> until_error (launch_or_quarantine \<epsilon> M) granted A')"

definition tick :: "env \<Rightarrow> machine \<Rightarrow> bool \<Rightarrow> authority_state \<Rightarrow> err option \<times> authority_state" where
  "tick \<epsilon> M deliver_results =
     and_then (reconcile \<epsilon> M)
       (and_then (schedule_and_launch \<epsilon> M)
          (and_then (\<lambda>A. until_error (reap M) (au_children A) A)
             (if deliver_results then deliver_outcomes \<epsilon> M else (\<lambda>A. (None, A)))))"

section \<open>Calls of a project\<close>

definition authenticate :: "authority_state \<Rightarrow> string \<Rightarrow> string \<Rightarrow> err + fields" where
  "authenticate A project token =
     (case map_of (config_projects A) project of
        None \<Rightarrow> Inl (ResourceError ''unregistered project or invalid credential'')
      | Some p \<Rightarrow>
          ebind (if truthy p then ebind (subscript p ''token'') (\<lambda>t. ebind (text_value t) (\<lambda>tok. compare_digest tok token))
                 else Inr False) (\<lambda>ok.
          if ok then dict_of p else Inl (ResourceError ''unregistered project or invalid credential'')))"

datatype reply =
    Recipe_Reply json string
  | Submit_Reply string string bool
  | Snapshot_Reply snapshot
  | Metrics_Reply metrics
  | Context_Reply string allocation "(string \<times> string) list"

text \<open>The part of a stage's secrets that a purpose asks for.\<close>

definition expected_token :: "json \<Rightarrow> stage \<Rightarrow> string" where
  "expected_token purpose s =
     (if purpose = JStr ''work'' then launch_token_of s
      else if purpose = JStr ''maintenance'' then (case st_maintenance_token s of None \<Rightarrow> [] | Some t \<Rightarrow> t)
      else [])"

definition token_valid :: "string \<Rightarrow> json \<Rightarrow> err + bool" where
  "token_valid expected supplied =
     (case supplied of
        JStr t \<Rightarrow> if expected \<noteq> [] \<and> t \<noteq> [] then compare_digest expected t else Inr False
      | _ \<Rightarrow> Inr False)"

definition execution_context :: "string \<Rightarrow> string option \<Rightarrow> fields \<Rightarrow> ledger \<Rightarrow> err + reply" where
  "execution_context project request payload L =
     ebind (subscript (JObj payload) ''stage'') (\<lambda>v. ebind (text_value v) (\<lambda>sid.
     (case find_stage sid (stage_rows L) of
        None \<Rightarrow> Inl (ResourceError ''unknown stage'')
      | Some s \<Rightarrow>
          let purpose = get_or payload ''purpose'' (JStr ''work'') in
          ebind (token_valid (expected_token purpose s) (get payload ''token'')) (\<lambda>valid.
          ebind (if st_project s \<noteq> project \<or> Some (st_request s) \<noteq> request \<or> st_state s \<noteq> Running
                     \<or> \<not> json_eq (JInt (int (st_epoch s))) (get payload ''epoch'') then Inr True
                 else if \<not> hashable purpose then Inl TypeError
                 else Inr (purpose \<notin> {JStr ''work'', JStr ''maintenance''}
                           \<or> purpose = JStr ''work'' \<and> st_cancel_requested s \<or> \<not> valid)) (\<lambda>revoked.
          ebind (raise_if revoked (ResourceError ''resource execution context is revoked'')) (\<lambda>_.
          Inr (Context_Reply (authority L) (st_allocation s) (st_incarnations s))))))))"

fun opt_text :: "json \<Rightarrow> err + string option" where
  "opt_text JNull = Inr None"
| "opt_text (JStr s) = Inr (Some s)"
| "opt_text _ = Inl TypeError"

definition given_request :: "string option \<Rightarrow> string" where
  "given_request request = (case request of None \<Rightarrow> [] | Some r \<Rightarrow> r)"

section \<open>Submission\<close>

definition fingerprint :: "env \<Rightarrow> json \<Rightarrow> (string \<times> string) list \<Rightarrow> json \<Rightarrow> string" where
  "fingerprint \<epsilon> recipe manifest lineage =
     sha \<epsilon> (jcanon (JObj [(''recipe'', recipe), (''inputs'', manifest_json manifest), (''lineage'', lineage)]))"

definition contract_digest :: "env \<Rightarrow> fields \<Rightarrow> string" where
  "contract_digest \<epsilon> plan = sha \<epsilon> (jcanon (JObj plan))"

definition replay_submission :: "env \<Rightarrow> string \<Rightarrow> string \<Rightarrow> json option \<Rightarrow> string \<Rightarrow> reply op" where
  "replay_submission \<epsilon> rid fp subscriber conflict =
     obind (get_request rid) (\<lambda>saved.
     obind (olift (subscript (JObj (rq_plan saved)) ''contract_digest'')) (\<lambda>recorded.
     obind (olift (raise_if (recorded \<noteq> JStr fp) (ResourceError conflict))) (\<lambda>_.
     obind (case subscriber of
              Some s \<Rightarrow> if list_ex (json_eq s) (rq_subscribers saved) then oreturn ()
                        else subscribe \<epsilon> rid (contract_digest \<epsilon> (rq_plan saved)) s False
            | None \<Rightarrow> oreturn ()) (\<lambda>_.
     oreturn (Submit_Reply rid (contract_digest \<epsilon> (rq_plan saved)) True)))))"

definition snapshot_referenced :: "string \<Rightarrow> string \<Rightarrow> string \<Rightarrow> ledger \<Rightarrow> bool" where
  "snapshot_referenced project external workspace L =
     (case find_external project external (requests L) of
        None \<Rightarrow> False
      | Some r \<Rightarrow> (case get (rq_plan r) ''workspace'' of JStr w \<Rightarrow> w = workspace | _ \<Rightarrow> True))"

definition drop_workspace :: "machine \<Rightarrow> string \<Rightarrow> authority_state \<Rightarrow> authority_state" where
  "drop_workspace M w A =
     (if m_removable M w then A\<lparr>au_workspaces := filter (\<lambda>x. fst x \<noteq> w) (au_workspaces A)\<rparr> else A)"

text \<open>What a submission needs to know before it captures its inputs.\<close>

record submission =
  sb_recipe :: fields
  sb_external :: string
  sb_inputs :: "(string \<times> string) list"
  sb_lineage :: json
  sb_subscriber :: "json option"
  sb_root :: string

definition check_submission :: "env \<Rightarrow> authority_state \<Rightarrow> string \<Rightarrow> fields \<Rightarrow> err + submission" where
  "check_submission \<epsilon> A project payload =
     ebind (subscript (JObj (config_projects A)) project) (\<lambda>registered.
     ebind (subscript registered ''recipes'') (\<lambda>rs. ebind (dict_of rs) (\<lambda>recipes.
     ebind (subscript (JObj payload) ''recipe'') (\<lambda>rn. ebind (text_value rn) (\<lambda>name.
     (case map_of recipes name of
        None \<Rightarrow> Inl (ResourceError ''recipe changed or is not registered'')
      | Some recipe \<Rightarrow>
          ebind (subscript (JObj payload) ''recipe_digest'') (\<lambda>rd.
          ebind (raise_if (recipe = JNull \<or> JStr (sha \<epsilon> (jcanon recipe)) \<noteq> rd)
                   (ResourceError ''recipe changed or is not registered'')) (\<lambda>_.
          ebind (subscript (JObj payload) ''id'') (\<lambda>idv. ebind (identifier_of idv) (\<lambda>external.
          ebind (subscript (JObj payload) ''inputs'') (\<lambda>inp. ebind (validate_input_manifest inp) (\<lambda>declared.
          ebind (if get payload ''lineage'' = JNull then Inr [] else identifier_of (get payload ''lineage'')) (\<lambda>_.
          ebind (if get payload ''subscriber'' = JNull then Inr ()
                 else validate_subscriber (isoformat \<epsilon>) (get payload ''subscriber'')) (\<lambda>_.
          ebind (dict_of recipe) (\<lambda>rfs.
          ebind (subscript registered ''root'') (\<lambda>rt. ebind (text_value rt) (\<lambda>place.
          Inr \<lparr>sb_recipe = rfs, sb_external = external, sb_inputs = declared, sb_lineage = get payload ''lineage'',
               sb_subscriber = (if get payload ''subscriber'' = JNull then None else Some (get payload ''subscriber'')),
               sb_root = place\<rparr>)))))))))))))))))"

definition plan_of :: "env \<Rightarrow> submission \<Rightarrow> (string \<times> string) list \<Rightarrow> string \<Rightarrow> err + fields" where
  "plan_of \<epsilon> sb actual workspace =
     ebind (compile_recipe (sb_recipe sb)) (\<lambda>stages.
     Inr [(''stages'', stages),
          (''contract_digest'', JStr (fingerprint \<epsilon> (JObj (sb_recipe sb)) (sb_inputs sb) (sb_lineage sb))),
          (''input_manifest'', manifest_json actual), (''workspace'', JStr workspace),
          (''recipe_digest'', JStr (sha \<epsilon> (jcanon (JObj (sb_recipe sb))))), (''lineage'', sb_lineage sb)])"

text \<open>The inputs as they are now, checked against the declared ones.\<close>

definition observed_inputs :: "machine \<Rightarrow> submission \<Rightarrow> err + (string \<times> string) list" where
  "observed_inputs M sb =
     ebind (subscript (JObj (sb_recipe sb)) ''inputs'') (\<lambda>v. ebind (spread v) (\<lambda>inputs.
     ebind (input_manifest (m_inputs M (sb_root sb)) inputs) (\<lambda>actual.
     ebind (raise_if (\<not> json_eq (manifest_json actual) (manifest_json (sb_inputs sb)))
              (ResourceError ''declared input snapshot differs from registered project'')) (\<lambda>_.
     Inr actual))))"

text \<open>The second transaction: a concurrent submission of the same id may have won.\<close>

definition commit_submission :: "env \<Rightarrow> string \<Rightarrow> submission \<Rightarrow> fields \<Rightarrow> reply op" where
  "commit_submission \<epsilon> project sb plan =
     obind (oget (\<lambda>L. find_external project (sb_external sb) (requests L))) (\<lambda>row.
     case row of
       Some r \<Rightarrow> replay_submission \<epsilon> (rq_id r) (fingerprint \<epsilon> (JObj (sb_recipe sb)) (sb_inputs sb) (sb_lineage sb))
                   (sb_subscriber sb) ''concurrent request ID conflict''
     | None \<Rightarrow> obind (submit \<epsilon> (JStr project) (JStr (sb_external sb)) plan (sb_subscriber sb)) (\<lambda>rid.
               oreturn (Submit_Reply rid (contract_digest \<epsilon> plan) False)))"

definition is_replay :: "reply \<Rightarrow> bool" where
  "is_replay r = (case r of Submit_Reply _ _ b \<Rightarrow> b | _ \<Rightarrow> False)"

text \<open>\<open>Authority.submit\<close>. Between the first look at the ledger and the second transaction other clients
  may commit transactions: \<open>meanwhile\<close> is what they do to the ledger.\<close>

definition submit_request ::
    "env \<Rightarrow> machine \<Rightarrow> (ledger \<Rightarrow> ledger) \<Rightarrow> string \<Rightarrow> fields \<Rightarrow> authority_state \<Rightarrow> (err + reply) \<times> authority_state" where
  "submit_request \<epsilon> M meanwhile project payload A =
     (case check_submission \<epsilon> A project payload of
        Inl e \<Rightarrow> (Inl e, A)
      | Inr sb \<Rightarrow>
          (case find_external project (sb_external sb) (requests (au_ledger A)) of
             Some r \<Rightarrow> in_ledger (replay_submission \<epsilon> (rq_id r)
                 (fingerprint \<epsilon> (JObj (sb_recipe sb)) (sb_inputs sb) (sb_lineage sb)) (sb_subscriber sb)
                 ''request ID already has different immutable inputs'') A
           | None \<Rightarrow>
               (case observed_inputs M sb of
                  Inl e \<Rightarrow> (Inl e, A)
                | Inr actual \<Rightarrow>
                    let workspace = uuid4 \<epsilon> (uuid_draws (au_ledger A));
                        A1 = A\<lparr>au_ledger := (au_ledger A)\<lparr>uuid_draws := Suc (uuid_draws (au_ledger A))\<rparr>\<rparr> in
                    (case m_capture_error M workspace of
                       Some e \<Rightarrow> (Inl e, A1)
                     | None \<Rightarrow>
                         let A2 = A1\<lparr>au_workspaces := au_workspaces A1 @ [(workspace, actual)]\<rparr> in
                         (case plan_of \<epsilon> sb actual workspace of
                            Inl e \<Rightarrow> (Inl e, A2)
                          | Inr plan \<Rightarrow>
                              let A3 = A2\<lparr>au_ledger := meanwhile (au_ledger A2)\<rparr> in
                              (case in_ledger (commit_submission \<epsilon> project sb plan) A3 of
                                 (Inl e, A4) \<Rightarrow>
                                   (Inl e, if snapshot_referenced project (sb_external sb) workspace (au_ledger A4) then A4
                                           else drop_workspace M workspace A4)
                               | (Inr r, A4) \<Rightarrow>
                                   if is_replay r then
                                     (if m_removable M workspace then (Inr r, drop_workspace M workspace A4)
                                      else (Inl (ResourceError ''could not remove an unreferenced input snapshot''), A4))
                                   else (Inr r, A4)))))))"

section \<open>Dispatch\<close>

definition call_recipe :: "env \<Rightarrow> authority_state \<Rightarrow> string \<Rightarrow> fields \<Rightarrow> err + reply" where
  "call_recipe \<epsilon> A project payload =
     ebind (subscript (JObj (config_projects A)) project) (\<lambda>registered.
     ebind (subscript registered ''recipes'') (\<lambda>rs. ebind (dict_of rs) (\<lambda>recipes.
     ebind (subscript (JObj payload) ''recipe'') (\<lambda>rn. ebind (text_value rn) (\<lambda>name.
     (case map_of recipes name of
        None \<Rightarrow> Inl (ResourceError ''recipe is not registered'')
      | Some recipe \<Rightarrow>
          if recipe = JNull then Inl (ResourceError ''recipe is not registered'')
          else ebind (subscript recipe ''inputs'') (\<lambda>inputs. Inr (Recipe_Reply inputs (sha \<epsilon> (jcanon recipe))))))))))"

definition snapshot_reply :: "string \<Rightarrow> string option \<Rightarrow> reply op" where
  "snapshot_reply project request =
     obind (oget id) (\<lambda>L. obind (olift (snapshot_of project request L)) (\<lambda>s. oreturn (Snapshot_Reply s)))"

definition subscribe_call :: "env \<Rightarrow> string \<Rightarrow> fields \<Rightarrow> bool \<Rightarrow> unit op" where
  "subscribe_call \<epsilon> rid payload remove =
     obind (olift (subscript (JObj payload) ''contract_digest'')) (\<lambda>d.
     obind (olift (subscript (JObj payload) ''subscriber'')) (\<lambda>s.
     subscribe \<epsilon> rid (case d of JStr c \<Rightarrow> c | _ \<Rightarrow> []) s remove))"

text \<open>The actions on one request, after the check that it is the project's.\<close>

definition call_request :: "env \<Rightarrow> string \<Rightarrow> string \<Rightarrow> fields \<Rightarrow> reply op" where
  "call_request \<epsilon> project action payload =
     obind (olift (opt_text (get payload ''request''))) (\<lambda>request.
     obind (if given_request request = [] then oreturn ()
            else obind (get_request (given_request request)) (\<lambda>r.
              olift (raise_if (rq_project r \<noteq> project) (ResourceError ''request belongs to another project'')))) (\<lambda>_.
     if action = ''status'' then snapshot_reply project request
     else if action = ''metrics'' then
       obind (now \<epsilon>) (\<lambda>t. obind (oget id) (\<lambda>L. obind (olift (report t project L)) (\<lambda>m. oreturn (Metrics_Reply m))))
     else if action = ''context'' then
       obind (oget id) (\<lambda>L. olift (execution_context project request payload L))
     else if action = ''cancel'' then
       obind (cancel \<epsilon> (given_request request)) (\<lambda>_. snapshot_reply project request)
     else if action \<in> {''subscribe'', ''unsubscribe''} then
       obind (subscribe_call \<epsilon> (given_request request) payload (action = ''unsubscribe'')) (\<lambda>_. snapshot_reply project request)
     else olift (Inl (ResourceError ''unsupported project action''))))"

definition call :: "env \<Rightarrow> machine \<Rightarrow> (ledger \<Rightarrow> ledger) \<Rightarrow> string \<Rightarrow> string \<Rightarrow> fields \<Rightarrow> authority_state \<Rightarrow> (err + reply) \<times> authority_state" where
  "call \<epsilon> M meanwhile project action payload A =
     (if action = ''recipe'' then (call_recipe \<epsilon> A project payload, A)
      else if action = ''submit'' then submit_request \<epsilon> M meanwhile project payload A
      else in_ledger (call_request \<epsilon> project action payload) A)"

end
