(* ===== verification/Authority_Properties.thy ===== *)
theory Authority_Properties
  imports Resource_Authority Resource_Properties
begin

text \<open>
  What the native authority guarantees. One locale, \<open>service_relation\<close>, carries a reflexive and transitive
  relation between the states before and after through the service's loops; it is interpreted on the
  ledger's life-cycle steps, on the rows a reconciliation keeps and on the files a delivery writes.
\<close>

section \<open>Relations that the service keeps\<close>

text \<open>A reflexive and transitive relation between the states before and after: what each step keeps, the
  loops and the sequences of the service keep.\<close>

locale service_relation =
  fixes R :: "authority_state \<Rightarrow> authority_state \<Rightarrow> bool"
  assumes refl: "R A A"
    and trans: "R A B \<Longrightarrow> R B C \<Longrightarrow> R A C"
begin

lemma until_error: "(\<And>x B. x \<in> set xs \<Longrightarrow> R B (snd (f x B))) \<Longrightarrow> R A (snd (until_error f xs A))"
proof (induction xs arbitrary: A)
  case (Cons x xs)
  have "R A (snd (f x A))" using Cons.prems by simp
  moreover have "R B (snd (until_error f xs B))" for B using Cons by simp
  ultimately show ?case by (auto split: prod.splits option.splits intro: trans)
qed (simp add: refl)

lemma and_then: "R A (snd (f A)) \<Longrightarrow> (\<And>B. R B (snd (g B))) \<Longrightarrow> R A (snd (and_then f g A))"
  unfolding and_then_def by (auto split: prod.splits option.splits) (metis snd_conv trans)

lemma in_ledger:
  assumes "\<And>x L. m (au_ledger A) = Inr (x, L) \<Longrightarrow> R A (A\<lparr>au_ledger := L\<rparr>)"
  shows "R A (snd (in_ledger m A))"
  using assms unfolding in_ledger_def by (auto simp: refl split: sum.splits)

end

text \<open>The ledger moves by atomic life-cycle steps.\<close>

definition ledger_moves :: "env \<Rightarrow> authority_state \<Rightarrow> authority_state \<Rightarrow> bool" where
  "ledger_moves \<epsilon> A B \<longleftrightarrow> (fresh_ids \<epsilon> \<longrightarrow> ledger_ok \<epsilon> (au_ledger A) \<longrightarrow> steps \<epsilon> (au_ledger A) (au_ledger B))"

interpretation moves: service_relation "ledger_moves \<epsilon>" for \<epsilon>
  by unfold_locales (auto simp: ledger_moves_def intro: steps_trans dest: steps_ok [OF _ fresh_inj])

lemma finish_moves: "ledger_moves \<epsilon> A (snd (in_ledger (finish \<epsilon> i n oc freed v) A))"
  by (rule moves.in_ledger) (auto simp: ledger_moves_def intro: finish_steps)

lemma same_ledger_moves: "au_ledger B = au_ledger A \<Longrightarrow> ledger_moves \<epsilon> A B"
  by (simp add: ledger_moves_def)

lemma reconcile_stage_moves: "ledger_moves \<epsilon> A (snd (reconcile_stage \<epsilon> M s A))"
proof -
  obtain st n where i: "identity_state (m_host M) (st_supervisor s) (au_tick A) = (st, n)" by fastforce
  let ?f = "in_ledger (finish \<epsilon> (st_id s) (st_epoch s) Failed [] (uncertain_evidence (is_state st))) (A\<lparr>au_tick := n\<rparr>)"
  have "ledger_moves \<epsilon> A (snd ?f)"
    using finish_moves [of \<epsilon> "A\<lparr>au_tick := n\<rparr>"] by (simp add: ledger_moves_def)
  then show ?thesis
    unfolding reconcile_stage_def i Let_def
    by (auto simp: same_ledger_moves moves.refl split: prod.splits sum.splits option.splits)
qed

lemma reconcile_moves: "ledger_moves \<epsilon> A (snd (reconcile \<epsilon> M A))"
  unfolding reconcile_def by (rule moves.until_error) (rule reconcile_stage_moves)


lemma launch_moves: "ledger_moves \<epsilon> A (snd (launch \<epsilon> M s A))"
proof -
  have f: "ledger_moves \<epsilon> A (snd (in_ledger (finish \<epsilon> i n oc fr v) (A\<lparr>au_tick := k\<rparr>)))" for i n oc fr v k
    using finish_moves [of \<epsilon> "A\<lparr>au_tick := k\<rparr>"] by (simp add: ledger_moves_def)
  have a: "ledger_moves \<epsilon> A (snd (in_ledger (attach \<epsilon> i n v) (A\<lparr>au_tick := k, au_children := cs\<rparr>)))" for i n v k cs
    by (auto simp: in_ledger_def ledger_moves_def intro: attach_steps split: sum.splits)
  have drop: "ledger_moves \<epsilon> A (snd (case p of (Inl e, B) \<Rightarrow> (Some e, B) | (Inr _, B) \<Rightarrow> (g, B)))"
    if "ledger_moves \<epsilon> A (snd p)" for p :: "(err + unit) \<times> authority_state" and g
    using that by (cases p) (simp split: sum.split)
  show ?thesis
  proof (cases "m_spawn M (au_tick A) (st_id s)")
    case (Spawned pid takes)
    show ?thesis
    proof (cases "process_identity (m_host M) (Suc (au_tick A)) (JInt pid)")
      case (Some ident)
      then show ?thesis unfolding launch_def Let_def Spawned spawn_result.case Some option.case by (intro drop a)
    qed (simp add: launch_def Spawned same_ledger_moves)
  next
    case (Spawn_Error e)
    then show ?thesis unfolding launch_def Spawn_Error spawn_result.case by (intro drop f)
  qed (simp add: launch_def same_ledger_moves)
qed

lemma launch_or_quarantine_moves: "ledger_moves \<epsilon> A (snd (launch_or_quarantine \<epsilon> M s A))"
proof -
  obtain r B where l: "launch \<epsilon> M s A = (r, B)" by fastforce
  have b: "ledger_moves \<epsilon> A B" using launch_moves [of \<epsilon> A M s] by (simp add: l)
  moreover have "ledger_moves \<epsilon> B (snd (in_ledger (finish \<epsilon> i n oc fr v) B))" for i n oc fr v by (rule finish_moves)
  ultimately have q: "ledger_moves \<epsilon> A (snd (in_ledger (finish \<epsilon> i n oc fr v) B))" for i n oc fr v by (rule moves.trans)
  show ?thesis
  proof (cases r)
    case (Some e)
    obtain r' C where f: "in_ledger (finish \<epsilon> (st_id s) (st_epoch s) Failed [] (launch_evidence (error_text e))) B = (r', C)"
      by fastforce
    with q have "ledger_moves \<epsilon> A C" by (metis snd_conv)
    with b show ?thesis unfolding launch_or_quarantine_def l Some prod.case option.case f by (simp split: sum.split)
  qed (simp add: launch_or_quarantine_def l b)
qed

lemma schedule_and_launch_moves: "ledger_moves \<epsilon> A (snd (schedule_and_launch \<epsilon> M A))"
proof -
  obtain r B where s: "in_ledger (schedule \<epsilon> (unavailable_projects M A)) A = (r, B)" by fastforce
  have "ledger_moves \<epsilon> A (snd (in_ledger (schedule \<epsilon> (unavailable_projects M A)) A))"
    by (rule moves.in_ledger) (auto simp: ledger_moves_def intro: schedule_steps)
  then have m: "ledger_moves \<epsilon> A B" by (simp add: s)
  have "ledger_moves \<epsilon> B (snd (until_error (launch_or_quarantine \<epsilon> M) gs B))" for gs
    by (rule moves.until_error) (rule launch_or_quarantine_moves)
  with m show ?thesis unfolding schedule_and_launch_def s by (cases r) (auto intro: moves.trans)
qed

lemma reap_moves: "ledger_moves \<epsilon> A (snd (reap M i A))"
  unfolding reap_def by (auto simp: same_ledger_moves split: option.splits)

interpretation same_ledger: service_relation "\<lambda>A B. au_ledger B = au_ledger A"
  by unfold_locales simp_all

lemma delivery_step_keeps: "(\<And>B. f (change B) = f B) \<Longrightarrow> f (snd (delivery_step M what row change A)) = f A"
  unfolding delivery_step_def by (simp split: option.split)

lemma deliver_writes_ledger: "au_ledger (snd (deliver_writes M row A)) = au_ledger A"
  unfolding deliver_writes_def write_result_def write_check_def write_event_def write_signal_def
  by (intro same_ledger.and_then) (auto intro!: same_ledger.and_then delivery_step_keeps)

lemma mark_moves: "frame L (mark_delivered i L)" "frame L (mark_retry i n t m L)"
  by (simp_all add: frame_def mark_delivered_def mark_retry_def request_log_def)

lemma moves_frame: "frame (au_ledger A) L \<Longrightarrow> au_ledger B = L \<Longrightarrow> ledger_moves \<epsilon> A B"
  by (simp add: ledger_moves_def frame_steps)

definition withdrawn :: "outbox_row \<Rightarrow> ledger \<Rightarrow> bool" where
  "withdrawn row L \<longleftrightarrow>
     (case find_request (oc_request (ob_body row)) (requests L) of
        None \<Rightarrow> False | Some rq \<Rightarrow> \<not> list_ex (json_eq (oc_subscriber (ob_body row))) (rq_subscribers rq))
     \<or> oc_status (ob_body row) = ''action_required'' \<and>
       \<not> list_ex (\<lambda>s. st_state s = Recovery_Required) (stages_of (oc_request (ob_body row)) L)"

lemma deliver_row_cases:
  assumes run: "deliver_row \<epsilon> M row A = (r, B)"
  obtains (refused) e where "r = Some e" "B = A"
  | (withdrawn) "r = None" "withdrawn row (au_ledger A)" "B = set_ledger (mark_delivered (ob_id row) (au_ledger A)) A"
  | (delivered) A' where "r = None" "deliver_writes M row A = (None, A')" "B = set_ledger (mark_delivered (ob_id row) (au_ledger A)) A'"
  | (failed) e e' A' where "deliver_writes M row A = (Some e, A')" "r = Some e'" "B = A'"
  | (retried) e A' t L' where "r = None" "deliver_writes M row A = (Some e, A')" "retriable e"
      "obind (log_event \<epsilon> (ob_id row) (Delivery_Failed_Event (error_text e))) (\<lambda>_. now \<epsilon>) (au_ledger A) = Inr (t, L')"
      "B = set_ledger (mark_retry (ob_id row) (Suc (ob_attempts row)) t (error_text e) L') A'"
proof -
  let ?b = "ob_body row" and ?L = "au_ledger A"
  obtain w A' where w: "deliver_writes M row A = (w, A')" by fastforce
  then have l: "au_ledger A' = ?L" using deliver_writes_ledger [of M row A] by simp
  show thesis
  proof (cases "find_request (oc_request ?b) (requests ?L)")
    case None
    then show thesis using run refused by (auto simp: deliver_row_def)
  next
    case (Some rq)
    note run' = run [unfolded deliver_row_def Let_def Some option.case w prod.case]
    consider "withdrawn row ?L" "r = None" "B = set_ledger (mark_delivered (ob_id row) ?L) A"
      | e where "r = Some e" "B = A"
      | "(case w of None \<Rightarrow> (None, set_ledger (mark_delivered (ob_id row) (au_ledger A')) A')
                    | Some e \<Rightarrow> if retriable e then
                          (case obind (log_event \<epsilon> (ob_id row) (Delivery_Failed_Event (error_text e))) (\<lambda>_. now \<epsilon>) (au_ledger A') of
                             Inl e' \<Rightarrow> (Some e', A')
                           | Inr (t, L') \<Rightarrow>
                               (None, set_ledger (mark_retry (ob_id row) (Suc (ob_attempts row)) t (error_text e) L') A'))
                        else (Some e, A')) = (r, B)"
    proof (cases "list_ex (json_eq (oc_subscriber ?b)) (rq_subscribers rq)")
      case False
      then show ?thesis using run' that(1) by (simp add: withdrawn_def Some)
    next
      case True
      note run2 = run' [unfolded eqTrueI [OF True] not_True_eq_False if_False]
      show ?thesis
      proof (cases "if oc_stages ?b \<noteq> [] then Inr () else
                     ebind (snapshot_of (oc_project ?b) (Some (oc_request ?b)) ?L) (\<lambda>_. Inr ())")
        case (Inl e)
        show ?thesis using run2 [unfolded Inl sum.case] that(2) by auto
      next
        case (Inr u)
        note run3 = run2 [unfolded Inr sum.case]
        show ?thesis
        proof (cases "oc_status ?b = ''action_required'' \<and>
            \<not> list_ex (\<lambda>s. st_state s = Recovery_Required) (stages_of (oc_request ?b) ?L)")
          case True
          then show ?thesis using run3 that(1) unfolding withdrawn_def by simp
        next
          case False
          note run4 = run3 [unfolded eq_False [THEN iffD2, OF False] if_False]
          show ?thesis
          proof (cases "project_root A (oc_project ?b)")
            case (Inl e)
            then show ?thesis using run4 that(2) [of e] by auto
          next
            case (Inr v)
            then show ?thesis using run4 that(3) by simp
          qed
        qed
      qed
    qed
    then show thesis
    proof cases
      case 3
      with l w show thesis
        using delivered failed retried by (cases w) (auto split: if_splits sum.splits)
    qed (use refused withdrawn in blast)+
  qed
qed

lemma deliver_row_moves: "ledger_moves \<epsilon> A (snd (deliver_row \<epsilon> M row A))"
proof -
  obtain r B where run: "deliver_row \<epsilon> M row A = (r, B)" by fastforce
  then have "ledger_moves \<epsilon> A B"
  proof (cases rule: deliver_row_cases)
    case (failed e e' A')
    then show ?thesis using deliver_writes_ledger [of M row A] by (simp add: same_ledger_moves)
  next
    case (retried e A' t L')
    then have "frame (au_ledger A) L'" by (auto simp: obind_Inr dest!: log_event_frame now_frame intro: frame_trans)
    with retried show ?thesis by (simp add: set_ledger_def moves_frame [OF frame_trans [OF _ mark_moves(2)]])
  qed (simp_all add: set_ledger_def moves.refl moves_frame [OF mark_moves(1)] moves_frame [OF mark_moves(1) [of "au_ledger A" "ob_id row"]])
  then show ?thesis by (simp add: run)
qed

lemma deliver_outcomes_moves: "ledger_moves \<epsilon> A (snd (deliver_outcomes \<epsilon> M A))"
proof (cases "now \<epsilon> (au_ledger A)")
  case (Inr p)
  obtain t L where p: "p = (t, L)" by fastforce
  have m: "ledger_moves \<epsilon> A (set_ledger L A)"
    using Inr p by (auto intro!: moves_frame now_frame simp: set_ledger_def)
  show ?thesis
    unfolding deliver_outcomes_def Inr p sum.case prod.case
    by (rule moves.trans [OF m]) (rule moves.until_error, rule deliver_row_moves)
qed (simp add: deliver_outcomes_def moves.refl)

lemma tick_moves: "ledger_moves \<epsilon> A (snd (tick \<epsilon> M d A))"
  unfolding tick_def
  by (intro moves.and_then reconcile_moves schedule_and_launch_moves moves.until_error reap_moves)
     (auto simp: deliver_outcomes_moves moves.refl)

section \<open>Reconciliation never releases\<close>

definition row_kept :: "stage \<Rightarrow> stage \<Rightarrow> bool" where
  "row_kept s s' \<longleftrightarrow> st_allocation s' = st_allocation s \<and>
     (st_state s' = st_state s \<or>
      owning (st_state s) \<and> st_state s' = (if st_allocation s = [] then Failed else Recovery_Required))"

definition rows_kept :: "authority_state \<Rightarrow> authority_state \<Rightarrow> bool" where
  "rows_kept A B \<longleftrightarrow> au_children B = au_children A \<and>
     (\<forall>i s. find_stage i (stage_rows (au_ledger A)) = Some s \<longrightarrow>
        (\<exists>s'. find_stage i (stage_rows (au_ledger B)) = Some s' \<and> row_kept s s'))"

lemma row_kept_trans: "row_kept s s' \<Longrightarrow> row_kept s' s'' \<Longrightarrow> row_kept s s''"
  by (auto simp: row_kept_def split: if_splits)

interpretation kept: service_relation rows_kept
proof unfold_locales
  show "rows_kept A A" for A by (auto simp: rows_kept_def row_kept_def)
  show "rows_kept A C" if "rows_kept A B" "rows_kept B C" for A B C
    using that unfolding rows_kept_def by (metis row_kept_trans)
qed

lemma finish_kept:
  assumes "finish \<epsilon> i n Failed [] v (au_ledger A) = Inr (u, L)"
  shows "rows_kept A (A\<lparr>au_ledger := L\<rparr>)"
  using assms
proof (rule finish_row)
  fix s s' assume s: "find_stage i (stage_rows (au_ledger A)) = Some s" "owning (st_state s)"
    "stage_rows L = upsert_stage s' (stage_rows (au_ledger A))" "st_id s' = i"
    "st_allocation s' = filter (\<lambda>kv. fst kv \<notin> set []) (st_allocation s)"
    "st_state s' = (if st_allocation s' = [] then Failed else Recovery_Required)"
  then have "row_kept s s'" by (auto simp: row_kept_def)
  with s show ?thesis unfolding rows_kept_def by (auto simp: row_kept_def)
qed

lemma reconcile_stage_cases:
  assumes run: "reconcile_stage \<epsilon> M s A = (r, B)"
  obtains (skipped) "r = None" "B = A"
      "\<not> owning (st_state s) \<or> st_state s = Recovery_Required \<or> st_id s \<in> set (au_children A) \<and> st_state s = Granted"
  | (alive) n where "r = None" "B = A\<lparr>au_tick := n\<rparr>" "is_state (fst (identity_state (m_host M) (st_supervisor s) (au_tick A))) = Alive"
  | (finished) n v u L where "r = None" "finish \<epsilon> (st_id s) (st_epoch s) Failed [] v (au_ledger A) = Inr (u, L)"
      "B = A\<lparr>au_tick := n, au_ledger := L\<rparr>"
  | (settled) n t where "r = None" "B = A\<lparr>au_tick := n\<rparr>" "find_stage (st_id s) (stage_rows (au_ledger A)) = Some t"
      "\<not> owning (st_state t)"
  | (raised) n e where "r = Some e" "B = A\<lparr>au_tick := n\<rparr>"
proof -
  obtain st n where i: "identity_state (m_host M) (st_supervisor s) (au_tick A) = (st, n)" by fastforce
  let ?v = "uncertain_evidence (is_state st)"
  let ?skip = "\<not> owning (st_state s) \<or> st_state s = Recovery_Required \<or> st_id s \<in> set (au_children A) \<and> st_state s = Granted"
  note run = run [unfolded reconcile_stage_def i Let_def prod.case in_ledger_def]
  consider ?skip | "\<not> ?skip" "is_state st = Alive" | "\<not> ?skip" "is_state st \<noteq> Alive" by blast
  then show thesis
  proof cases
    case 1
    then have "r = None \<and> B = A" using run by (auto split: if_splits)
    then show thesis using skipped 1 by blast
  next
    case 2
    then have "r = None \<and> B = A\<lparr>au_tick := n\<rparr>" using run by (auto split: if_splits)
    then show thesis using alive [of n] 2 by (simp add: i)
  next
    case 3
    show thesis
    proof (cases "finish \<epsilon> (st_id s) (st_epoch s) Failed [] ?v (au_ledger A)")
      case (Inr p)
      obtain u L where p: "p = (u, L)" by (cases p)
      show thesis using run 3 Inr p by (intro finished [of ?v u L n]) auto
    next
      case (Inl e)
      show thesis
      proof (cases "is_resource_error e \<and> (\<exists>t. find_stage (st_id s) (stage_rows (au_ledger A)) = Some t \<and> \<not> owning (st_state t))")
        case True
        then obtain t where "is_resource_error e" "find_stage (st_id s) (stage_rows (au_ledger A)) = Some t" "\<not> owning (st_state t)"
          by blast
        then show thesis using run 3 Inl by (intro settled [of n t]) auto
      next
        case False
        then have "\<exists>e'. r = Some e' \<and> B = A\<lparr>au_tick := n\<rparr>"
          using run 3 Inl by (auto split: if_splits option.splits)
        then show thesis using raised by blast
      qed
    qed
  qed
qed

lemma reconcile_stage_kept: "rows_kept A (snd (reconcile_stage \<epsilon> M s A))"
proof -
  obtain r B where run: "reconcile_stage \<epsilon> M s A = (r, B)" by fastforce
  have tick: "rows_kept A (A\<lparr>au_tick := n\<rparr>)" for n by (auto simp: rows_kept_def row_kept_def)
  from run have "rows_kept A B"
  proof (cases rule: reconcile_stage_cases)
    case (finished n v u L)
    with finish_kept [of \<epsilon> _ _ _ A] show ?thesis by (fastforce simp: rows_kept_def)
  qed (simp_all add: kept.refl tick)
  then show ?thesis by (simp add: run)
qed

text \<open>C18: Reconciling the supervisors of the running stages never releases a resource, whatever the machine
  answers, whether or not it fails on the way: every stage keeps exactly its allocation, and the only state
  change is that an owning stage is quarantined for recovery (or failed, when it owns nothing).\<close>

theorem reconcile_never_releases:
  assumes "find_stage i (stage_rows (au_ledger A)) = Some s"
  shows "\<exists>s'. find_stage i (stage_rows (au_ledger (snd (reconcile \<epsilon> M A)))) = Some s' \<and>
     st_allocation s' = st_allocation s \<and>
     (st_state s' = st_state s \<or>
      owning (st_state s) \<and> st_state s' = (if st_allocation s = [] then Failed else Recovery_Required))"
proof -
  have "rows_kept A (snd (reconcile \<epsilon> M A))"
    unfolding reconcile_def by (rule kept.until_error) (rule reconcile_stage_kept)
  with assms show ?thesis unfolding rows_kept_def row_kept_def by blast
qed

lemma until_error_split:
  assumes "until_error f xs A = (None, C)" "x \<in> set xs"
  shows "\<exists>ys zs B B'. until_error f ys A = (None, B) \<and> f x B = (None, B') \<and> until_error f zs B' = (None, C)"
  using assms
proof (induction xs arbitrary: A)
  case (Cons y xs)
  from Cons.prems(1) obtain B where y: "f y A = (None, B)" and r: "until_error f xs B = (None, C)"
    by (auto split: prod.splits option.splits)
  show ?case
  proof (cases "x = y")
    case True
    then show ?thesis using y r by (intro exI [of _ "[]"] exI [of _ xs] exI) auto
  next
    case False
    with Cons.prems(2) Cons.IH [OF r] obtain ys zs D E where
      "until_error f ys B = (None, D)" "f x D = (None, E)" "until_error f zs E = (None, C)" by auto
    with y show ?thesis by (intro exI [of _ "y # ys"] exI [of _ zs] exI) auto
  qed
qed simp


lemma row_kept_owning: "row_kept s s' \<Longrightarrow> owning (st_state s) \<Longrightarrow> \<not> owning (st_state s') \<Longrightarrow>
    st_state s' = (if st_allocation s = [] then Failed else Recovery_Required)"
  by (auto simp: row_kept_def)

lemma row_kept_final:
  "row_kept s s' \<Longrightarrow> st_state s = (if st_allocation s = [] then Failed else Recovery_Required) \<Longrightarrow>
   st_state s' = (if st_allocation s = [] then Failed else Recovery_Required)"
  by (auto simp: row_kept_def split: if_splits)

lemma dead_stage_finished:
  assumes run: "reconcile_stage \<epsilon> M s A = (None, B)"
    and own: "owning (st_state s)" "st_state s \<noteq> Recovery_Required" "st_id s \<notin> set (au_children A) \<or> st_state s \<noteq> Granted"
    and dead: "\<And>n. is_state (fst (identity_state (m_host M) (st_supervisor s) n)) \<noteq> Alive"
    and row: "find_stage (st_id s) (stage_rows (au_ledger A)) = Some t" and kept: "row_kept s t"
  shows "\<exists>t'. find_stage (st_id s) (stage_rows (au_ledger B)) = Some t' \<and>
     st_state t' = (if st_allocation s = [] then Failed else Recovery_Required)"
  using run
proof (cases rule: reconcile_stage_cases)
  case (finished n v u L)
  from finished(2) show ?thesis
  proof (rule finish_row)
    fix q q' assume "find_stage (st_id s) (stage_rows (au_ledger A)) = Some q"
      "stage_rows L = upsert_stage q' (stage_rows (au_ledger A))" "st_id q' = st_id s"
      "st_allocation q' = filter (\<lambda>kv. fst kv \<notin> set []) (st_allocation q)"
      "st_state q' = (if st_allocation q' = [] then Failed else Recovery_Required)"
    with row kept finished(3) show ?thesis by (auto simp: row_kept_def)
  qed
next
  case (settled n t')
  with row row_kept_owning [OF kept own(1)] show ?thesis by simp
next
  case (alive n)
  with dead show ?thesis by blast
qed (use own in auto)

text \<open>C19: A reconciliation that succeeds leaves no stage running under a supervisor that is gone: a stage
  that owned resources when the pass began, whose supervisor is never found alive and which is not a child
  being launched, is quarantined for recovery with its whole allocation (or failed when it owned nothing).\<close>

theorem dead_supervisor_is_quarantined:
  assumes run: "reconcile \<epsilon> M A = (None, B)"
    and s: "find_stage i (stage_rows (au_ledger A)) = Some s"
    and own: "owning (st_state s)" "st_state s \<noteq> Recovery_Required" "i \<notin> set (au_children A) \<or> st_state s \<noteq> Granted"
    and dead: "\<And>n. is_state (fst (identity_state (m_host M) (st_supervisor s) n)) \<noteq> Alive"
  shows "\<exists>s'. find_stage i (stage_rows (au_ledger B)) = Some s' \<and> st_allocation s' = st_allocation s \<and>
     st_state s' = (if st_allocation s = [] then Failed else Recovery_Required)"
proof -
  note i = find_stageD [OF s]
  have "s \<in> set (active_stages (au_ledger A))" using i own by (auto simp: active_stages_set dest: terminal_not_owning)
  from until_error_split [OF run [unfolded reconcile_def] this] obtain ys zs C D where
    before: "until_error (reconcile_stage \<epsilon> M) ys A = (None, C)"
    and here: "reconcile_stage \<epsilon> M s C = (None, D)"
    and after: "until_error (reconcile_stage \<epsilon> M) zs D = (None, B)" by blast
  have kept: "rows_kept X (snd (until_error (reconcile_stage \<epsilon> M) us X))" for X us
    by (rule kept.until_error) (rule reconcile_stage_kept)
  from kept [of A ys] before have AC: "rows_kept A C" by simp
  then obtain t where t: "find_stage i (stage_rows (au_ledger C)) = Some t" "row_kept s t" using s
    unfolding rows_kept_def by blast
  have "st_id s \<notin> set (au_children C) \<or> st_state s \<noteq> Granted" using own(3) AC i by (simp add: rows_kept_def)
  note idle = this
  have "find_stage (st_id s) (stage_rows (au_ledger C)) = Some t" using t(1) i by simp
  from dead_stage_finished [OF here own(1,2) idle dead this t(2)] obtain t' where
    t': "find_stage (st_id s) (stage_rows (au_ledger D)) = Some t'"
      "st_state t' = (if st_allocation s = [] then Failed else Recovery_Required)" by blast
  note t' = t' [unfolded conjunct2 [OF i]]
  from reconcile_stage_kept [of C \<epsilon> M s] here have "rows_kept C D" by simp
  with t t'(1) have alloc: "st_allocation t' = st_allocation s" unfolding rows_kept_def row_kept_def by (metis option.inject)
  from kept [of D zs] after have "rows_kept D B" by simp
  with t' obtain s' where s': "find_stage i (stage_rows (au_ledger B)) = Some s'" "row_kept t' s'"
    unfolding rows_kept_def by blast
  have "st_state t' = (if st_allocation t' = [] then Failed else Recovery_Required)" by (simp add: t'(2) alloc)
  from row_kept_final [OF s'(2) this] s' alloc show ?thesis by (simp add: row_kept_def)
qed

section \<open>Launching\<close>

lemma attach_row:
  assumes "attach \<epsilon> i n v L = Inr (u, L')"
  obtains s s' where "find_stage i (stage_rows L) = Some s" "stage_rows L' = upsert_stage s' (stage_rows L)" "st_id s' = i"
    "st_state s' = Launching" "st_allocation s' = st_allocation s" "st_state s = Granted"
proof -
  from assms obtain s r where s: "find_stage i (stage_rows L) = Some s" "st_state s = Granted"
    and save: "save \<epsilon> (s\<lparr>st_state := Launching, st_supervisor := v\<rparr>) L = Inr (r, L')"
    by (auto simp: attach_def run_simps)
  from save obtain L1 where "stamped (s\<lparr>st_state := Launching, st_supervisor := v\<rparr>) r"
    "L' = L1\<lparr>stage_rows := upsert_stage r (stage_rows L)\<rparr>" by (rule save_Inr)
  with s stamped_fields [OF this(1)] find_stageD [OF s(1)] show thesis by (intro that [of s r]) auto
qed

text \<open>Where a launch can leave the stage it launches.\<close>

fun spawn_failed :: "spawn_result \<Rightarrow> bool" where
  "spawn_failed (Spawn_Error _) = True"
| "spawn_failed _ = False"

definition launched_row :: "bool \<Rightarrow> stage \<Rightarrow> stage \<Rightarrow> bool" where
  "launched_row none_started s s' \<longleftrightarrow>
     st_allocation s' = st_allocation s \<and>
       (st_state s' = Launching \<or> st_state s' = (if st_allocation s = [] then Failed else Recovery_Required))
     \<or> none_started \<and> st_state s' = Failed \<and> st_allocation s' = []"

lemma finish_whole:
  assumes "finish \<epsilon> i n Failed (keys (st_allocation s)) v L = Inr (u, L')" "find_stage i (stage_rows L) = Some s"
  shows "\<exists>s'. find_stage i (stage_rows L') = Some s' \<and> st_state s' = Failed \<and> st_allocation s' = []"
  using assms(1)
proof (rule finish_row)
  fix q q' assume q: "find_stage i (stage_rows L) = Some q" "stage_rows L' = upsert_stage q' (stage_rows L)" "st_id q' = i"
    "st_allocation q' = filter (\<lambda>kv. fst kv \<notin> set (keys (st_allocation s))) (st_allocation q)"
    "st_state q' = (if st_allocation q' = [] then Failed else Recovery_Required)"
  then have "st_allocation q' = []" using assms(2) by (auto simp: filter_empty_conv keys_def)
  with q show ?thesis by simp
qed

lemma quarantine_row:
  assumes "finish \<epsilon> i n Failed [] v L = Inr (u, L')" "find_stage i (stage_rows L) = Some s"
  shows "\<exists>s'. find_stage i (stage_rows L') = Some s' \<and> st_allocation s' = st_allocation s \<and>
     st_state s' = (if st_allocation s = [] then Failed else Recovery_Required)"
  using assms(1)
proof (rule finish_row)
  fix q q' assume q: "find_stage i (stage_rows L) = Some q" "stage_rows L' = upsert_stage q' (stage_rows L)" "st_id q' = i"
    "st_allocation q' = filter (\<lambda>kv. fst kv \<notin> set []) (st_allocation q)"
    "st_state q' = (if st_allocation q' = [] then Failed else Recovery_Required)"
  with assms(2) show ?thesis by simp
qed

lemma launch_cases:
  assumes run: "launch \<epsilon> M s A = (r, B)" and i: "st_id s = i"
  obtains (not_started) e u L where "m_spawn M (au_tick A) i = Spawn_Error e" "r = None" "au_ledger B = L"
      "finish \<epsilon> i (st_epoch s) Failed (keys (st_allocation s)) (JObj [(''not_started'', JStr e)]) (au_ledger A) = Inr (u, L)"
  | (not_attached) e where "r = Some e" "au_ledger B = au_ledger A"
  | (attached) v u L pid t where "m_spawn M (au_tick A) i = Spawned pid t" "attach \<epsilon> i (st_epoch s) v (au_ledger A) = Inr (u, L)" "au_ledger B = L"
proof (cases "m_spawn M (au_tick A) i")
  case (Log_Error e)
  then show thesis using run not_attached by (auto simp: launch_def i)
next
  case (Spawn_Error e)
  show thesis
  proof (cases "finish \<epsilon> i (st_epoch s) Failed (keys (st_allocation s)) (JObj [(''not_started'', JStr e)]) (au_ledger A)")
    case (Inl er)
    then show thesis using run not_attached Spawn_Error by (auto simp: launch_def i in_ledger_def)
  next
    case (Inr p)
    then show thesis using run not_started [OF Spawn_Error] Spawn_Error by (cases p) (auto simp: launch_def i in_ledger_def)
  qed
next
  case (Spawned pid t)
  show thesis
  proof (cases "process_identity (m_host M) (Suc (au_tick A)) (JInt pid)")
    case None
    then show thesis using run not_attached Spawned by (auto simp: launch_def i)
  next
    case (Some ident)
    show thesis
    proof (cases "attach \<epsilon> i (st_epoch s) (JObj ident) (au_ledger A)")
      case (Inl er)
      then show thesis using run not_attached Spawned Some by (auto simp: launch_def i in_ledger_def Let_def)
    next
      case (Inr p)
      then show thesis using run attached [OF Spawned] Spawned Some by (cases p) (auto simp: launch_def i in_ledger_def Let_def)
    qed
  qed
qed


text \<open>C20: Launching a granted stage either puts it into the launching state or quarantines it, keeping its
  allocation in both cases; its resources are released only when no process was started at all.\<close>

theorem launch_keeps_or_quarantines:
  assumes run: "launch_or_quarantine \<epsilon> M s A = (None, B)" and s: "find_stage i (stage_rows (au_ledger A)) = Some s"
  shows "\<exists>s'. find_stage i (stage_rows (au_ledger B)) = Some s' \<and>
     (st_allocation s' = st_allocation s \<and>
        (st_state s' = Launching \<or> st_state s' = (if st_allocation s = [] then Failed else Recovery_Required))
      \<or> spawn_failed (m_spawn M (au_tick A) i) \<and> st_state s' = Failed \<and> st_allocation s' = [])"
proof -
  note i = find_stageD [OF s]
  obtain r C where l: "launch \<epsilon> M s A = (r, C)" by fastforce
  have quarantine: "\<exists>v u L. finish \<epsilon> i (st_epoch s) Failed [] v (au_ledger C) = Inr (u, L) \<and> au_ledger B = L" if "r = Some e" for e
    using run l i that unfolding launch_or_quarantine_def in_ledger_def
    by (auto split: if_splits sum.splits prod.splits)
  have same: "B = C" if "r = None" using run l that unfolding launch_or_quarantine_def by simp
  have "\<exists>s'. find_stage i (stage_rows (au_ledger B)) = Some s' \<and> launched_row (spawn_failed (m_spawn M (au_tick A) i)) s s'"
    using l conjunct2 [OF i]
  proof (cases rule: launch_cases)
    case (not_started e u L)
    with finish_whole [OF not_started(4) s] same show ?thesis by (auto simp: launched_row_def)
  next
    case (not_attached e)
    from quarantine [OF not_attached(1)] obtain v u L where
      f: "finish \<epsilon> i (st_epoch s) Failed [] v (au_ledger A) = Inr (u, L)" and B: "au_ledger B = L"
      unfolding not_attached(2) by blast
    from quarantine_row [OF f s] show ?thesis unfolding B launched_row_def by blast
  next
    case (attached v u L pid t)
    from attached(2) obtain s' where s': "find_stage i (stage_rows L) = Some s'" "st_state s' = Launching"
      "st_allocation s' = st_allocation s"
    proof (rule attach_row)
      fix q q' assume "find_stage i (stage_rows (au_ledger A)) = Some q" "stage_rows L = upsert_stage q' (stage_rows (au_ledger A))"
        "st_id q' = i" "st_state q' = Launching" "st_allocation q' = st_allocation q"
      with s show thesis by (intro that [of q']) simp_all
    qed
    show ?thesis
    proof (cases r)
      case None
      with same s' attached(3) show ?thesis by (auto simp: launched_row_def)
    next
      case (Some e)
      from quarantine [OF Some] obtain v' u' L' where
        f: "finish \<epsilon> i (st_epoch s) Failed [] v' L = Inr (u', L')" and B: "au_ledger B = L'"
        unfolding attached(3) by blast
      from quarantine_row [OF f s'(1)] s'(3) show ?thesis unfolding B launched_row_def by auto
    qed
  qed
  then show ?thesis unfolding launched_row_def by blast
qed

section \<open>Delivery\<close>

definition files_ok :: "authority_state \<Rightarrow> bool" where
  "files_ok A \<longleftrightarrow> distinct (au_results A) \<and> distinct (au_events A) \<and> distinct (au_signals A) \<and>
     set (au_signals A) \<subseteq> set (au_events A)"

definition files_grow :: "authority_state \<Rightarrow> authority_state \<Rightarrow> bool" where
  "files_grow A B \<longleftrightarrow> (files_ok A \<longrightarrow> files_ok B) \<and> set (au_results A) \<subseteq> set (au_results B) \<and>
     set (au_events A) \<subseteq> set (au_events B) \<and> set (au_signals A) \<subseteq> set (au_signals B)"

interpretation files: service_relation files_grow
  by unfold_locales (auto simp: files_grow_def)

lemma same_files: "au_results B = au_results A \<Longrightarrow> au_events B = au_events A \<Longrightarrow> au_signals B = au_signals A \<Longrightarrow> files_grow A B"
  by (simp add: files_grow_def files_ok_def)

lemma delivery_step_cases:
  obtains (ok) "delivery_step M w row f A = (None, f A)" "m_delivery_error M w (ob_id row) (ob_attempts row) = None"
  | (error) e where "delivery_step M w row f A = (Some e, A)" "m_delivery_error M w (ob_id row) (ob_attempts row) = Some e"
  by (cases "m_delivery_error M w (ob_id row) (ob_attempts row)") (auto simp: delivery_step_def)

lemma delivery_step_files: "(files_grow A (f A)) \<Longrightarrow> files_grow A (snd (delivery_step M w row f A))"
  by (cases rule: delivery_step_cases [of M w row f A]) (auto simp: files.refl)

lemma write_result_files: "files_grow A (snd (write_result M row A))"
  unfolding write_result_def
  by (auto simp: files.refl intro!: delivery_step_files) (auto simp: files_grow_def files_ok_def)

lemma write_check_files: "files_grow A (snd (write_check M row A))"
  unfolding write_check_def by (auto simp: files.refl intro!: delivery_step_files)

lemma write_event_files: "files_grow A (snd (write_event M row A))"
proof (cases "ob_id row \<in> set (au_events A)")
  case True
  then show ?thesis unfolding write_event_def write_signal_def
    by (auto simp: files.refl intro!: delivery_step_files) (auto simp: files_grow_def files_ok_def)
next
  case False
  let ?f = "\<lambda>B. B\<lparr>au_events := au_events B @ [ob_id row]\<rparr>"
  let ?g = "\<lambda>B. B\<lparr>au_signals := au_signals B @ [ob_id row]\<rparr>"
  have f: "files_grow A (?f A)" and g: "files_grow A (?g (?f A))"
    using False by (auto simp: files_grow_def files_ok_def)
  have w: "write_event M row A = and_then (delivery_step M ''event'' row ?f)
          (if wants_wake (ob_body row) then write_signal M row else (\<lambda>B. (None, B))) A"
    using False by (simp add: write_event_def)
  show ?thesis
  proof (cases rule: delivery_step_cases [of M "''event''" row ?f A])
    case ok
    show ?thesis
      by (cases rule: delivery_step_cases [of M "''signal''" row ?g "?f A"])
         (simp_all only: w and_then_def ok(1) write_signal_def prod.case option.case, use f g in \<open>auto simp: write_signal_def\<close>)
  next
    case (error e)
    then show ?thesis by (simp add: w and_then_def files.refl)
  qed
qed

lemma deliver_writes_files: "files_grow A (snd (deliver_writes M row A))"
  unfolding deliver_writes_def
  by (intro files.and_then delivery_step_files write_result_files write_check_files write_event_files files.refl)

lemma deliver_row_files: "files_grow A (snd (deliver_row \<epsilon> M row A))"
proof -
  obtain r B where run: "deliver_row \<epsilon> M row A = (r, B)" by fastforce
  have w: "files_grow A C" if "deliver_writes M row A = (q, C)" for q C
    using deliver_writes_files [of A M row] that by simp
  have l: "files_grow A (set_ledger L C)" if "files_grow A C" for L C
    using that by (simp add: files_grow_def files_ok_def set_ledger_def)
  from run have "files_grow A B"
    by (cases rule: deliver_row_cases) (auto intro: l w files.refl)
  then show ?thesis by (simp add: run)
qed

lemma deliver_outcomes_files: "files_grow A (snd (deliver_outcomes \<epsilon> M A))"
proof (cases "now \<epsilon> (au_ledger A)")
  case (Inr p)
  obtain t L where p: "p = (t, L)" by fastforce
  have "files_grow A (set_ledger L A)" by (simp add: same_files set_ledger_def)
  then show ?thesis unfolding deliver_outcomes_def Inr p sum.case prod.case
    by (rule files.trans) (rule files.until_error, rule deliver_row_files)
qed (simp add: deliver_outcomes_def files.refl)

text \<open>Delivery writes every outcome at most once. Starting from distinct files and signals that all have
  their event, a delivery pass - whatever fails on the way, and however often it is repeated - keeps them so
  and deletes nothing.\<close>

theorem delivery_writes_once:
  assumes "distinct (au_results A)" "distinct (au_events A)" "distinct (au_signals A)"
    and "set (au_signals A) \<subseteq> set (au_events A)"
    and "B = snd (deliver_outcomes \<epsilon> M A)"
  shows "distinct (au_results B) \<and> distinct (au_events B) \<and> distinct (au_signals B) \<and>
     set (au_signals B) \<subseteq> set (au_events B) \<and>
     set (au_results A) \<subseteq> set (au_results B) \<and> set (au_events A) \<subseteq> set (au_events B) \<and> set (au_signals A) \<subseteq> set (au_signals B)"
  using deliver_outcomes_files [of A \<epsilon> M] assms unfolding files_grow_def files_ok_def by simp

lemma deliver_writes_done:
  assumes "deliver_writes M row A = (None, B)"
  shows "result_key row \<in> set (au_results B) \<and> ob_id row \<in> set (au_events B) \<and>
     (wants_wake (ob_body row) \<longrightarrow> ob_id row \<in> set (au_signals B))"
proof -
  from assms obtain C D E where "write_result M row C = (None, D)" and "write_check M row D = (None, E)"
    and ev: "write_event M row E = (None, B)"
    unfolding deliver_writes_def and_then_def by (auto split: prod.splits option.splits)
  then have "result_key row \<in> set (au_results D)"
    unfolding write_result_def delivery_step_def by (auto split: if_splits option.splits)
  moreover have "files_grow D E" "files_grow E B"
    using write_check_files [of D M row] write_event_files [of E M row] \<open>write_check M row D = _\<close> ev by simp_all
  ultimately have "result_key row \<in> set (au_results B)" by (auto simp: files_grow_def)
  moreover have "ob_id row \<in> set (au_events B) \<and> (wants_wake (ob_body row) \<longrightarrow> ob_id row \<in> set (au_signals B))"
    using ev unfolding write_event_def write_signal_def delivery_step_def and_then_def
    by (auto split: if_splits option.splits prod.splits)
  ultimately show ?thesis by blast
qed

text \<open>Delivery changes nothing in the ledger but the marks of the outbox rows.\<close>

definition row_marked :: "outbox_row \<Rightarrow> outbox_row \<Rightarrow> bool" where
  "row_marked r r' \<longleftrightarrow> ob_id r' = ob_id r \<and> ob_body r' = ob_body r \<and> (ob_delivered r \<longrightarrow> ob_delivered r')"

lemma row_marked_trans: "row_marked r r' \<Longrightarrow> row_marked r' r'' \<Longrightarrow> row_marked r r''"
  by (simp add: row_marked_def)

definition outbox_marked :: "authority_state \<Rightarrow> authority_state \<Rightarrow> bool" where
  "outbox_marked A B \<longleftrightarrow> requests (au_ledger B) = requests (au_ledger A) \<and> stage_rows (au_ledger B) = stage_rows (au_ledger A) \<and>
     list_all2 row_marked (outbox (au_ledger A)) (outbox (au_ledger B))"

interpretation marked: service_relation outbox_marked
proof unfold_locales
  show "outbox_marked A A" for A by (simp add: outbox_marked_def row_marked_def list.rel_refl)
  show "outbox_marked A C" if "outbox_marked A B" "outbox_marked B C" for A B C
    using that list_all2_trans [of row_marked row_marked row_marked "outbox (au_ledger A)" "outbox (au_ledger B)" "outbox (au_ledger C)",
        OF row_marked_trans]
    by (simp add: outbox_marked_def)
qed

lemma marked_map:
  "outbox L = map f (outbox (au_ledger A)) \<Longrightarrow> (\<And>r. row_marked r (f r)) \<Longrightarrow> requests L = requests (au_ledger A) \<Longrightarrow>
   stage_rows L = stage_rows (au_ledger A) \<Longrightarrow> outbox_marked A (set_ledger L B)"
  by (simp add: outbox_marked_def set_ledger_def list_all2_map2 list.rel_refl)

lemma log_now:
  "obind (log_event \<epsilon> i k) (\<lambda>_. now \<epsilon>) L = Inr (t, L') \<Longrightarrow>
   requests L' = requests L \<and> stage_rows L' = stage_rows L \<and> outbox L' = outbox L"
  by (auto simp: log_event_def now_def obind_def omodify_def)

lemma deliver_row_marked: "outbox_marked A (snd (deliver_row \<epsilon> M row A))"
proof -
  obtain r B where run: "deliver_row \<epsilon> M row A = (r, B)" by fastforce
  note delivered_map = marked_map [where f = "\<lambda>r. if ob_id r = ob_id row then r\<lparr>ob_delivered := True\<rparr> else r"]
  from run have "outbox_marked A B"
  proof (cases rule: deliver_row_cases)
    case (retried e A' t L')
    from log_now [OF retried(4)] show ?thesis unfolding retried(5)
      by (intro marked_map [where f = "\<lambda>r. if ob_id r = ob_id row then r\<lparr>ob_attempts := Suc (ob_attempts row),
            ob_next_attempt := t + backoff (Suc (ob_attempts row)), ob_last_error := Some (error_text e)\<rparr> else r"])
         (auto simp: mark_retry_def row_marked_def)
  next
    case (failed e e' A')
    then show ?thesis using deliver_writes_ledger [of M row A] marked.refl [of A] by (simp add: outbox_marked_def)
  qed (auto intro!: delivered_map marked.refl simp: mark_delivered_def row_marked_def)
  then show ?thesis by (simp add: run)
qed

lemma withdrawn_marked: "outbox_marked A B \<Longrightarrow> withdrawn row (au_ledger B) = withdrawn row (au_ledger A)"
  unfolding outbox_marked_def withdrawn_def stages_query_def by simp

lemma marked_row:
  "outbox_marked A B \<Longrightarrow> r \<in> set (outbox (au_ledger A)) \<Longrightarrow> \<exists>r'\<in>set (outbox (au_ledger B)). row_marked r r'"
  unfolding outbox_marked_def by (metis list_all2_conv_all_nth in_set_conv_nth)

lemma deliver_writes_clean:
  "(\<And>w. m_delivery_error M w (ob_id row) (ob_attempts row) = None) \<Longrightarrow> fst (deliver_writes M row A) = None"
  unfolding deliver_writes_def write_result_def write_check_def write_event_def write_signal_def delivery_step_def and_then_def
  by simp

lemma deliver_row_done:
  assumes run: "deliver_row \<epsilon> M row C = (None, D)" and row: "r \<in> set (outbox (au_ledger C))" "ob_id r = ob_id row"
    and ok: "\<And>w. m_delivery_error M w (ob_id row) (ob_attempts row) = None"
  shows "(\<exists>r'\<in>set (outbox (au_ledger D)). ob_id r' = ob_id row \<and> ob_delivered r') \<and>
     (withdrawn row (au_ledger C) \<or> result_key row \<in> set (au_results D) \<and> ob_id row \<in> set (au_events D) \<and>
        (wants_wake (ob_body row) \<longrightarrow> ob_id row \<in> set (au_signals D)))"
proof -
  have marks: "\<exists>r'\<in>set (outbox (mark_delivered (ob_id row) (au_ledger C))). ob_id r' = ob_id row \<and> ob_delivered r'"
    using row by (intro bexI [of _ "r\<lparr>ob_delivered := True\<rparr>"]) (auto simp: mark_delivered_def image_iff intro!: bexI [of _ r])
  from run show ?thesis
  proof (cases rule: deliver_row_cases)
    case (delivered A')
    from deliver_writes_done [OF delivered(2)] marks show ?thesis by (simp add: delivered(3) set_ledger_def)
  next
    case (retried e A' t L')
    then show ?thesis using deliver_writes_clean [of M row C] ok by simp
  qed (use marks in \<open>simp_all add: set_ledger_def\<close>)
qed

text \<open>C22: An outcome that is due is delivered by every pass that completes in which no delivery step of it
  fails: it is marked as delivered, and either its subscriber is gone (or its advisory is superseded), or its
  result and its event have been written, and its wake-up signal when the subscriber wants one.\<close>

theorem due_outcome_is_delivered:
  assumes run: "deliver_outcomes \<epsilon> M A = (None, B)"
    and row: "row \<in> set (outbox (au_ledger A))" "\<not> ob_delivered row" "ob_next_attempt row \<le> clock \<epsilon> (clock_reads (au_ledger A))"
    and ok: "\<And>w. m_delivery_error M w (ob_id row) (ob_attempts row) = None"
  shows "(\<exists>r'\<in>set (outbox (au_ledger B)). ob_id r' = ob_id row \<and> ob_delivered r') \<and>
     (withdrawn row (au_ledger A) \<or> result_key row \<in> set (au_results B) \<and> ob_id row \<in> set (au_events B) \<and>
        (if wants_wake (ob_body row) then ob_id row \<in> set (au_signals B) else True))"
proof -
  let ?L = "(au_ledger A)\<lparr>clock_reads := Suc (clock_reads (au_ledger A))\<rparr>"
  let ?due = "filter (\<lambda>r. \<not> ob_delivered r \<and> ob_next_attempt r \<le> clock \<epsilon> (clock_reads (au_ledger A))) (outbox ?L)"
  have loop: "until_error (deliver_row \<epsilon> M) ?due (set_ledger ?L A) = (None, B)"
    using run by (simp add: deliver_outcomes_def now_def)
  have "row \<in> set ?due" using row by simp
  from until_error_split [OF loop this] obtain ys zs C D where
    before: "until_error (deliver_row \<epsilon> M) ys (set_ledger ?L A) = (None, C)"
    and here: "deliver_row \<epsilon> M row C = (None, D)"
    and after: "until_error (deliver_row \<epsilon> M) zs D = (None, B)" by blast
  have marked: "outbox_marked X (snd (until_error (deliver_row \<epsilon> M) us X))" for X us
    by (rule marked.until_error) (rule deliver_row_marked)
  have "outbox_marked A (set_ledger ?L A)" using marked.refl [of A] by (simp add: outbox_marked_def set_ledger_def)
  from marked.trans [OF this] marked [of "set_ledger ?L A" ys] before have AC: "outbox_marked A C" by simp
  then obtain r where r: "r \<in> set (outbox (au_ledger C))" "ob_id r = ob_id row"
    using marked_row [OF _ row(1)] by (auto simp: row_marked_def)
  note D = deliver_row_done [OF here r ok]
  have DB: "outbox_marked D B" "files_grow D B"
    using marked [of D zs] files.until_error [where A = D and xs = zs and f = "deliver_row \<epsilon> M", OF deliver_row_files] after by simp_all
  from D obtain r' where "r' \<in> set (outbox (au_ledger D))" "ob_id r' = ob_id row" "ob_delivered r'" by blast
  with marked_row [OF DB(1)] have "\<exists>r''\<in>set (outbox (au_ledger B)). ob_id r'' = ob_id row \<and> ob_delivered r''"
    by (metis row_marked_def)
  with D DB(2) withdrawn_marked [OF AC, of row] show ?thesis by (auto simp: files_grow_def)
qed

lemma backoff_bounds: "2 \<le> backoff (Suc n)" "backoff n \<le> 60"
proof -
  have "(2::int) ^ 1 \<le> 2 ^ min (Suc n) 6" by (rule power_increasing) auto
  then show "2 \<le> backoff (Suc n)" by (simp add: backoff_def)
qed (simp add: backoff_def)

text \<open>A delivery that fails with one of the handled errors is scheduled again, between two and sixty seconds
  after the failure, with its attempt counted; no other row, request or stage changes.\<close>

theorem failed_delivery_is_rescheduled:
  assumes run: "deliver_row \<epsilon> M row A = (None, B)" and fails: "fst (deliver_writes M row A) = Some e"
    and live: "\<not> withdrawn row (au_ledger A)"
  shows "\<exists>t d. 2 \<le> d \<and> d \<le> 60 \<and>
     outbox (au_ledger B) = map (\<lambda>r. if ob_id r = ob_id row
         then r\<lparr>ob_attempts := Suc (ob_attempts row), ob_next_attempt := t + d, ob_last_error := Some (error_text e)\<rparr> else r)
       (outbox (au_ledger A)) \<and>
     requests (au_ledger B) = requests (au_ledger A) \<and> stage_rows (au_ledger B) = stage_rows (au_ledger A)"
  using run
proof (cases rule: deliver_row_cases)
  case (retried e' A' t L')
  with fails have e: "e' = e" by simp
  from log_now [OF retried(4)] backoff_bounds [of "ob_attempts row"] backoff_bounds(2) [of "Suc (ob_attempts row)"]
  show ?thesis unfolding retried(5) e
    by (intro exI [of _ t] exI [of _ "backoff (Suc (ob_attempts row))"]) (simp add: mark_retry_def set_ledger_def)
qed (use fails live in auto)

section \<open>The tick\<close>

text \<open>C17: A tick of the service - reconciliation, scheduling, launches, reaping and delivery, with every failure
  the machine can produce, and whether or not the tick itself ends in an error - moves the ledger only by the
  atomic life-cycle steps and keeps its invariant. So everything that holds of every reachable ledger holds
  while the service runs.\<close>

theorem tick_refines_steps:
  assumes fresh: "fresh_ids \<epsilon>" and ok: "ledger_ok \<epsilon> (au_ledger A)"
  shows "steps \<epsilon> (au_ledger A) (au_ledger (snd (tick \<epsilon> M d A))) \<and> ledger_ok \<epsilon> (au_ledger (snd (tick \<epsilon> M d A)))"
proof -
  have s: "steps \<epsilon> (au_ledger A) (au_ledger (snd (tick \<epsilon> M d A)))"
    using tick_moves [of \<epsilon> A M d] assms by (simp add: ledger_moves_def)
  with steps_ok [OF s fresh_inj [OF fresh] ok] show ?thesis by blast
qed

section \<open>Execution contexts\<close>

text \<open>An execution context is only handed out for a running stage of the caller's own project and request, at
  its current epoch, against the stage's own secret: the launch token for work, as long as no cancellation has
  been requested, or the maintenance token for maintenance.\<close>

theorem context_requires_running_token:
  assumes "execution_context project request payload L = Inr reply"
  shows "\<exists>sid s tok. get payload ''stage'' = JStr sid \<and> find_stage sid (stage_rows L) = Some s \<and>
     st_project s = project \<and> request = Some (st_request s) \<and> st_state s = Running \<and>
     json_eq (JInt (int (st_epoch s))) (get payload ''epoch'') \<and>
     get payload ''token'' = JStr tok \<and> tok \<noteq> [] \<and>
     (if get_or payload ''purpose'' (JStr ''work'') = JStr ''work''
      then st_launch_token s = Some tok \<and> st_cancel_requested s = False
      else get payload ''purpose'' = JStr ''maintenance'' \<and> st_maintenance_token s = Some tok) \<and>
     reply = Context_Reply (authority L) (st_allocation s) (st_incarnations s)"
proof -
  let ?p = "get_or payload ''purpose'' (JStr ''work'')"
  from assms obtain v sid where v: "subscript (JObj payload) ''stage'' = Inr v" "text_value v = Inr sid"
    and r: "(case find_stage sid (stage_rows L) of
        None \<Rightarrow> Inl (ResourceError ''unknown stage'')
      | Some s \<Rightarrow>
          ebind (token_valid (expected_token ?p s) (get payload ''token'')) (\<lambda>valid.
          ebind (if st_project s \<noteq> project \<or> Some (st_request s) \<noteq> request \<or> st_state s \<noteq> Running
                     \<or> \<not> json_eq (JInt (int (st_epoch s))) (get payload ''epoch'') then Inr True
                 else if \<not> hashable ?p then Inl TypeError
                 else Inr (?p \<notin> {JStr ''work'', JStr ''maintenance''}
                           \<or> ?p = JStr ''work'' \<and> st_cancel_requested s \<or> \<not> valid)) (\<lambda>revoked.
          ebind (raise_if revoked (ResourceError ''resource execution context is revoked'')) (\<lambda>_.
          Inr (Context_Reply (authority L) (st_allocation s) (st_incarnations s)))))) = Inr reply"
    unfolding execution_context_def Let_def ebind_Inr_iff by blast
  have stage: "get payload ''stage'' = JStr sid"
    using v subscript_get [of payload "''stage''" v] by (cases v) auto
  obtain s where s: "find_stage sid (stage_rows L) = Some s" using r by (cases "find_stage sid (stage_rows L)") auto
  from r [unfolded s option.case] obtain valid where
    valid: "token_valid (expected_token ?p s) (get payload ''token'') = Inr valid" and ok: valid
    and own: "st_project s = project" "Some (st_request s) = request" "st_state s = Running"
      "json_eq (JInt (int (st_epoch s))) (get payload ''epoch'')"
    and p: "?p = JStr ''work'' \<or> ?p = JStr ''maintenance''" "?p = JStr ''work'' \<longrightarrow> \<not> st_cancel_requested s"
    and reply: "reply = Context_Reply (authority L) (st_allocation s) (st_incarnations s)"
    by (auto simp: ebind_Inr_iff raise_if_def split: if_splits)
  from valid ok obtain tok where tok: "get payload ''token'' = JStr tok" "tok \<noteq> []" "expected_token ?p s = tok"
    unfolding token_valid_def compare_digest_def by (auto split: json.splits if_splits)
  have secret: "if ?p = JStr ''work'' then st_launch_token s = Some tok
      else get payload ''purpose'' = JStr ''maintenance'' \<and> st_maintenance_token s = Some tok"
    using tok p unfolding expected_token_def launch_token_of_def get_or_def get_def
    by (auto split: option.splits if_splits)
  show ?thesis
    using stage s own tok p(2) secret reply by (intro exI [of _ sid] exI [of _ s] exI [of _ tok]) auto
qed

section \<open>Submission and its snapshot\<close>

lemma in_ledger_workspaces: "in_ledger m A = (r, B) \<Longrightarrow> au_workspaces B = au_workspaces A"
  unfolding in_ledger_def by (auto split: sum.splits)

lemma submit_request_cases:
  assumes run: "submit_request \<epsilon> M w project payload A = (r, B)"
  obtains (early) "au_workspaces B = au_workspaces A" "\<And>rid d. r \<noteq> Inr (Submit_Reply rid d False)"
  | (uncompiled) sb e where "check_submission \<epsilon> A project payload = Inr sb" "compile_recipe (sb_recipe sb) = Inl e" "r = Inl e"
  | (captured) sb actual ws plan A3 q A4 where
      "check_submission \<epsilon> A project payload = Inr sb" "observed_inputs M sb = Inr actual"
      "ws = uuid4 \<epsilon> (uuid_draws (au_ledger A))" "plan_of \<epsilon> sb actual ws = Inr plan"
      "A3 = A\<lparr>au_workspaces := au_workspaces A @ [(ws, actual)],
              au_ledger := w ((au_ledger A)\<lparr>uuid_draws := Suc (uuid_draws (au_ledger A))\<rparr>)\<rparr>"
      "in_ledger (commit_submission \<epsilon> project sb plan) A3 = (q, A4)"
      "r = (if (\<exists>x. q = Inr x \<and> is_replay x) \<and> \<not> m_removable M ws
            then Inl (ResourceError ''could not remove an unreferenced input snapshot'') else q)"
      "B = (case q of
              Inl e \<Rightarrow> if snapshot_referenced project (sb_external sb) ws (au_ledger A4) then A4 else drop_workspace M ws A4
            | Inr x \<Rightarrow> if is_replay x \<and> m_removable M ws then drop_workspace M ws A4 else A4)"
proof (cases "check_submission \<epsilon> A project payload")
  case (Inl e)
  then show thesis using run early by (auto simp: submit_request_def)
next
  case sb: (Inr sb)
  note run = run [unfolded submit_request_def sb sum.case]
  show thesis
  proof (cases "find_external project (sb_external sb) (requests (au_ledger A))")
    case (Some rq)
    let ?m = "replay_submission \<epsilon> (rq_id rq) (fingerprint \<epsilon> (JObj (sb_recipe sb)) (sb_inputs sb) (sb_lineage sb)) (sb_subscriber sb)
                 ''request ID already has different immutable inputs''"
    have "in_ledger ?m A = (r, B)" using run by (simp add: Some)
    moreover from this have "r \<noteq> Inr (Submit_Reply rid d False)" for rid d
      unfolding in_ledger_def replay_submission_def by (auto simp: run_simps split: sum.splits prod.splits)
    ultimately show thesis using early in_ledger_workspaces by metis
  next
    case None
    note run = run [unfolded None option.case]
    show thesis
    proof (cases "observed_inputs M sb")
      case (Inl e)
      then show thesis using run early by auto
    next
      case (Inr actual)
      let ?ws = "uuid4 \<epsilon> (uuid_draws (au_ledger A))"
      note run = run [unfolded Inr sum.case Let_def]
      show thesis
      proof (cases "m_capture_error M ?ws")
        case (Some e)
        then show thesis using run early by auto
      next
        case None
        note run = run [unfolded None option.case]
        show thesis
        proof (cases "plan_of \<epsilon> sb actual ?ws")
          case (Inl e)
          then have "compile_recipe (sb_recipe sb) = Inl e"
            unfolding plan_of_def by (cases "compile_recipe (sb_recipe sb)") auto
          then show thesis using uncompiled sb run Inl by auto
        next
          case plan: (Inr plan)
          let ?A3 = "A\<lparr>au_workspaces := au_workspaces A @ [(?ws, actual)],
              au_ledger := w ((au_ledger A)\<lparr>uuid_draws := Suc (uuid_draws (au_ledger A))\<rparr>)\<rparr>"
          obtain q A4 where q: "in_ledger (commit_submission \<epsilon> project sb plan) ?A3 = (q, A4)" by fastforce
          have "r = (if (\<exists>x. q = Inr x \<and> is_replay x) \<and> \<not> m_removable M ?ws
              then Inl (ResourceError ''could not remove an unreferenced input snapshot'') else q) \<and>
            B = (case q of
              Inl e \<Rightarrow> if snapshot_referenced project (sb_external sb) ?ws (au_ledger A4) then A4 else drop_workspace M ?ws A4
            | Inr x \<Rightarrow> if is_replay x \<and> m_removable M ?ws then drop_workspace M ?ws A4 else A4)"
            using run q by (cases q) (auto simp: plan split: if_splits)
          then show thesis
            by (intro captured [OF sb Inr refl plan refl q]) auto
        qed
      qed
    qed
  qed
qed


lemma find_external_in: "find_external p e rs = Some r \<Longrightarrow> r \<in> set rs"
  unfolding find_external_def by (auto simp: find_Some_iff)

lemma submitted_request:
  assumes fresh: "fresh_ids \<epsilon>" and ok: "ledger_ok \<epsilon> L" and new: "find_external p e (requests L) = None"
    and run: "submit \<epsilon> (JStr p) (JStr e) plan sub L = Inr (rid, L')"
  shows "\<exists>rq\<in>set (requests L'). rq_id rq = rid \<and> rq_project rq = p \<and> rq_plan rq = plan"
proof -
  from run new obtain ds names where "create_request \<epsilon> p e plan sub ds names L = Inr (rid, L')"
    unfolding submit_def obind_Inr olift_Inr oget_Inr by (auto simp: op_simps simp del: identifier_of.simps)
  from create_request_steps [OF fresh_inj [OF fresh] ok new this] have
    "(rid, p, e, plan) \<in> set (request_log L')" by auto
  then show ?thesis by (auto simp: request_log_def request_key_def)
qed

lemma plan_of_fields:
  "plan_of \<epsilon> sb actual ws = Inr plan \<Longrightarrow>
   get plan ''workspace'' = JStr ws \<and> get plan ''input_manifest'' = manifest_json actual"
  by (auto simp: plan_of_def ebind_Inr_iff)

lemma commit_submission_cases:
  assumes run: "in_ledger (commit_submission \<epsilon> project sb plan) A = (q, B)" and fresh: "fresh_ids \<epsilon>" and ok: "ledger_ok \<epsilon> (au_ledger A)"
  obtains (failed) e where "q = Inl e" "B = A"
  | (replayed) x where "q = Inr x" "is_replay x"
  | (accepted) rid rq where "q = Inr (Submit_Reply rid (contract_digest \<epsilon> plan) False)" "rq \<in> set (requests (au_ledger B))"
      "rq_id rq = rid" "rq_project rq = project" "rq_plan rq = plan"
proof (cases "commit_submission \<epsilon> project sb plan (au_ledger A)")
  case (Inl e)
  then show thesis using run failed by (auto simp: in_ledger_def)
next
  case (Inr xL)
  obtain x L where xL: "xL = (x, L)" by fastforce
  have q: "q = Inr x" "au_ledger B = L" using run by (auto simp: in_ledger_def Inr xL)
  note commit = Inr [unfolded xL commit_submission_def]
  show thesis
  proof (cases "find_external project (sb_external sb) (requests (au_ledger A))")
    case (Some r)
    with commit have "is_replay x" by (auto simp: run_simps replay_submission_def is_replay_def)
    with q show thesis using replayed by blast
  next
    case None
    with commit obtain rid where
      s: "submit \<epsilon> (JStr project) (JStr (sb_external sb)) plan (sb_subscriber sb) (au_ledger A) = Inr (rid, L)"
      and x: "x = Submit_Reply rid (contract_digest \<epsilon> plan) False"
      by (auto simp: run_simps)
    from submitted_request [OF fresh ok None s] q x show thesis using accepted by blast
  qed
qed

lemma meanwhile_ok:
  assumes fresh: "fresh_ids \<epsilon>" and ok: "ledger_ok \<epsilon> L" and others: "\<And>L. steps \<epsilon> L (w L)"
  shows "ledger_ok \<epsilon> (w (L\<lparr>uuid_draws := Suc (uuid_draws L)\<rparr>))"
proof -
  have "frame L (L\<lparr>uuid_draws := Suc (uuid_draws L)\<rparr>)" by (simp add: frame_def request_log_def)
  from steps_ok [OF steps_trans [OF frame_steps [OF this] others] fresh_inj [OF fresh] ok] show ?thesis .
qed

text \<open>An accepted submission refers to the snapshot that was captured for it: the ledger holds a request of
  the caller's project under the returned id and contract digest, and its plan names a snapshot directory
  that exists and holds exactly the files of the plan's input manifest.\<close>

theorem accepted_submission_has_snapshot:
  assumes fresh: "fresh_ids \<epsilon>" and ok: "ledger_ok \<epsilon> (au_ledger A)" and others: "\<And>L. steps \<epsilon> L (w L)"
    and run: "submit_request \<epsilon> M w project payload A = (Inr (Submit_Reply rid d False), B)"
  shows "\<exists>rq ws files. rq \<in> set (requests (au_ledger B)) \<and> rq_id rq = rid \<and> rq_project rq = project \<and>
     d = contract_digest \<epsilon> (rq_plan rq) \<and> get (rq_plan rq) ''workspace'' = JStr ws \<and>
     get (rq_plan rq) ''input_manifest'' = manifest_json files \<and> (ws, files) \<in> set (au_workspaces B)"
  using run
proof (cases rule: submit_request_cases)
  case (captured sb actual ws plan A3 q A4)
  have "ledger_ok \<epsilon> (au_ledger A3)" using meanwhile_ok [OF fresh ok others] by (simp add: captured(5))
  from captured(6) fresh this show ?thesis
  proof (cases rule: commit_submission_cases)
    case (accepted rid' rq)
    have "au_workspaces A4 = au_workspaces A @ [(ws, actual)]"
      using in_ledger_workspaces [OF captured(6)] by (simp add: captured(5))
    with accepted captured(7,8) plan_of_fields [OF captured(4)] show ?thesis
      by (intro exI [of _ rq] exI [of _ ws] exI [of _ actual]) (auto simp: is_replay_def)
  qed (use captured(7) in \<open>auto simp: is_replay_def split: if_splits\<close>)
qed auto


section \<open>A concrete service\<close>

definition demo_digest :: string where
  "demo_digest = replicate 64 CHR ''0''"

definition demo_view :: input_view where
  "demo_view = \<lparr>iv_inside = True, iv_exists = True, iv_candidates =
     [\<lparr>cd_key = ''a'', cd_link = False, cd_inside = True, cd_file = True, cd_sha256 = demo_digest\<rparr>]\<rparr>"

definition demo_machine :: "spawn_result \<Rightarrow> string \<Rightarrow> machine" where
  "demo_machine sp bad = \<lparr>m_host = demo_host, m_spawn = (\<lambda>_ _. sp), m_exited = (\<lambda>_ _. True), m_is_dir = (\<lambda>_. True),
     m_inputs = (\<lambda>_ _. demo_view), m_capture_error = (\<lambda>_. None), m_removable = (\<lambda>_. True),
     m_delivery_error = (\<lambda>w _ _. if bad \<noteq> [] \<and> w = bad then Some (OsError ''disk'') else None)\<rparr>"

definition demo_recipe_json :: json where
  "demo_recipe_json = JObj [(''inputs'', JList [JStr ''a'']), (''stages'', JList demo_stages)]"

definition demo_service :: "ledger \<Rightarrow> authority_state" where
  "demo_service L = \<lparr>au_config = [(''projects'', JObj [(''p'', JObj [(''root'', JStr ''/w''), (''token'', JStr ''s''),
       (''recipes'', JObj [(''r'', demo_recipe_json)])])])],
     au_ledger = L, au_children = [], au_workspaces = [], au_results = [], au_events = [], au_signals = [], au_tick = 0\<rparr>"

theorem reconcile_never_releases_witness:
  "\<exists>s'. find_stage ''uuu'' (stage_rows (au_ledger (snd (reconcile demo_env (demo_machine (Log_Error []) []) (demo_service demo_running))))) = Some s'
     \<and> keys (st_allocation s') = [''gpu'']"
proof -
  from demo_running_row obtain s where s: "find_stage ''uuu'' (stage_rows (au_ledger (demo_service demo_running))) = Some s"
    "keys (st_allocation s) = [''gpu'']" by (auto simp: demo_service_def)
  from reconcile_never_releases [OF s(1), of demo_env "demo_machine (Log_Error []) []"] s(2) show ?thesis by auto
qed

lemma demo_running_stage:
  "\<exists>s. find_stage ''uuu'' (stage_rows demo_running) = Some s \<and> st_state s = Running \<and> st_supervisor s = demo_identity \<and>
     st_epoch s = 1 \<and> st_launch_token s = Some ''s'' \<and> st_project s = ''p'' \<and> st_request s = ''uu'' \<and> \<not> st_cancel_requested s \<and>
     keys (st_allocation s) = [''gpu'']"
  by (simp add: demo_running_def demo_launching_def committed_def attach_def admit_def launch_token_of_def compare_digest_def
     get_stage_def save_def demo_granted_def demo_env_def run_eval keys_def cong: obind_weak_cong)

lemma demo_dead: "is_state (fst (identity_state demo_host demo_identity n)) \<noteq> Alive"
  by (simp add: identity_state_def demo_identity_def demo_host_def unknown_state_def get_def)

lemma demo_reconcile:
  "\<exists>B. reconcile demo_env (demo_machine (Log_Error []) []) (demo_service demo_running) = (None, B)"
  by (simp add: reconcile_def reconcile_stage_def demo_service_def demo_machine_def in_ledger_def identity_state_def demo_host_def
     demo_identity_def unknown_state_def get_def uncertain_evidence_def
     demo_running_def demo_launching_def committed_def attach_def admit_def launch_token_of_def compare_digest_def
     get_stage_def save_def demo_granted_def demo_env_def run_eval finish_eval demo_leaves_def
     cong: obind_weak_cong ebind_weak_cong)

theorem dead_supervisor_is_quarantined_witness:
  "\<exists>B s'. reconcile demo_env (demo_machine (Log_Error []) []) (demo_service demo_running) = (None, B) \<and>
     find_stage ''uuu'' (stage_rows (au_ledger B)) = Some s' \<and> keys (st_allocation s') = [''gpu''] \<and> st_state s' = Recovery_Required"
proof -
  from demo_reconcile obtain B where B: "reconcile demo_env (demo_machine (Log_Error []) []) (demo_service demo_running) = (None, B)" ..
  from demo_running_stage obtain s where s: "find_stage ''uuu'' (stage_rows (au_ledger (demo_service demo_running))) = Some s"
    "st_state s = Running" "st_supervisor s = demo_identity" "keys (st_allocation s) = [''gpu'']" by (auto simp: demo_service_def)
  have ne: "st_allocation s \<noteq> []" using s(4) by (auto simp: keys_def)
  from dead_supervisor_is_quarantined [OF B s(1)] s ne demo_dead B show ?thesis by (auto simp: demo_machine_def demo_service_def)
qed

lemma demo_pid: "process_identity demo_host 1 (JInt 7) \<noteq> None"
  by code_simp

lemma demo_attach_any: "\<exists>L. attach demo_env ''uuu'' 1 v demo_granted = Inr ((), L)"
  by (simp add: attach_def get_stage_def save_def demo_granted_def demo_env_def run_eval cong: obind_weak_cong)

lemma demo_launch:
  "\<exists>B. launch_or_quarantine demo_env (demo_machine (Spawned 7 True) []) (hd (stage_rows demo_granted)) (demo_service demo_granted) = (None, B)"
proof -
  from demo_pid obtain ident where i: "process_identity demo_host (Suc 0) (JInt 7) = Some ident" by auto
  from demo_attach_any obtain L where a: "attach demo_env ''uuu'' 1 (JObj ident) demo_granted = Inr ((), L)" by blast
  have s: "st_id (hd (stage_rows demo_granted)) = ''uuu''" "st_epoch (hd (stage_rows demo_granted)) = 1"
    by (simp_all add: demo_granted_def)
  have "\<exists>B. launch demo_env (demo_machine (Spawned 7 True) []) (hd (stage_rows demo_granted)) (demo_service demo_granted) = (None, B)"
    by (simp add: launch_def s Let_def demo_machine_def demo_service_def i in_ledger_def a [unfolded One_nat_def])
  then show ?thesis by (auto simp: launch_or_quarantine_def)
qed

theorem launch_keeps_or_quarantines_witness:
  "\<exists>B s'. launch_or_quarantine demo_env (demo_machine (Spawned 7 True) []) (hd (stage_rows demo_granted)) (demo_service demo_granted) = (None, B) \<and>
     find_stage ''uuu'' (stage_rows (au_ledger B)) = Some s' \<and> keys (st_allocation s') = [''gpu'']"
proof -
  have s: "find_stage ''uuu'' (stage_rows (au_ledger (demo_service demo_granted))) = Some (hd (stage_rows demo_granted))"
    "keys (st_allocation (hd (stage_rows demo_granted))) = [''gpu'']"
    by (simp_all add: demo_service_def demo_granted_def keys_def)
  from demo_launch obtain B where
    B: "launch_or_quarantine demo_env (demo_machine (Spawned 7 True) []) (hd (stage_rows demo_granted)) (demo_service demo_granted) = (None, B)" ..
  from launch_keeps_or_quarantines [OF B s(1)] s(2) B show ?thesis by (auto simp: demo_machine_def)
qed

theorem tick_refines_steps_witness:
  "ledger_ok demo_env (au_ledger (demo_service demo_running)) \<and>
   steps demo_env (au_ledger (demo_service demo_running)) (au_ledger (snd (tick demo_env (demo_machine (Log_Error []) []) True (demo_service demo_running))))"
proof -
  have "ledger_ok demo_env (au_ledger (demo_service demo_running))"
    using reachable_ok [OF demo_fresh demo_running_reachable] by (simp add: demo_service_def)
  with tick_refines_steps [OF demo_fresh this] show ?thesis by blast
qed

definition demo_context_payload :: fields where
  "demo_context_payload = [(''stage'', JStr ''uuu''), (''epoch'', JInt 1), (''token'', JStr ''s'')]"

theorem context_requires_running_token_witness:
  "\<exists>reply s. execution_context ''p'' (Some ''uu'') demo_context_payload demo_running = Inr reply \<and>
     find_stage ''uuu'' (stage_rows demo_running) = Some s \<and> st_state s = Running \<and> st_launch_token s = Some ''s''"
proof -
  from demo_running_stage obtain s where s: "find_stage ''uuu'' (stage_rows demo_running) = Some s" "st_state s = Running"
    "st_epoch s = 1" "st_launch_token s = Some ''s''" "st_project s = ''p''" "st_request s = ''uu''" "\<not> st_cancel_requested s" by auto
  have "execution_context ''p'' (Some ''uu'') demo_context_payload demo_running
      = Inr (Context_Reply (authority demo_running) (st_allocation s) (st_incarnations s))"
    by (simp add: execution_context_def demo_context_payload_def s get_def get_or_def token_valid_def expected_token_def
        launch_token_of_def compare_digest_def)
  from context_requires_running_token [OF this] this s show ?thesis by (auto simp: demo_context_payload_def get_def get_or_def)
qed

definition demo_subscriber :: json where
  "demo_subscriber = JObj [(''id'', JStr ''w''), (''wake'', JBool True)]"

definition demo_row :: outbox_row where
  "demo_row = \<lparr>ob_id = ''o'', ob_request = ''uu'', ob_body = \<lparr>oc_request = ''uu'', oc_project = ''p'', oc_external = ''e'',
     oc_status = ''failed'', oc_outcome_id = ''d'', oc_subscriber = demo_subscriber, oc_generation = 1,
     oc_stages = stage_rows demo_submitted\<rparr>, ob_delivered = False, ob_attempts = 0, ob_next_attempt = 0, ob_last_error = None\<rparr>"

definition demo_pending :: authority_state where
  "demo_pending = demo_service ((initial_ledger demo_env)\<lparr>outbox := [demo_row],
     requests := [\<lparr>rq_id = ''uu'', rq_project = ''p'', rq_external = ''e'', rq_plan = demo_plan, rq_subscribers = [demo_subscriber], rq_created_at = 1\<rparr>]\<rparr>)"

theorem delivery_writes_once_witness:
  "distinct (au_events (snd (deliver_outcomes demo_env (demo_machine (Log_Error []) ''signal'') demo_pending)))"
  using delivery_writes_once [of demo_pending, OF _ _ _ _ refl] by (simp add: demo_pending_def demo_service_def)

lemma demo_deliverable:
  "find_request ''uu'' (requests (au_ledger demo_pending)) \<noteq> None" "project_root demo_pending ''p'' = Inr ''/w''"
  "\<not> withdrawn demo_row (au_ledger demo_pending)"
  by (simp_all add: demo_pending_def demo_service_def find_request_def project_root_def config_projects_def get_def demo_row_def withdrawn_def
     demo_subscriber_def)

lemma demo_delivery:
  "\<exists>B. deliver_outcomes demo_env (demo_machine (Log_Error []) []) demo_pending = (None, B)"
  by (simp add: deliver_outcomes_def deliver_row_def now_def demo_pending_def demo_service_def demo_row_def find_request_def set_ledger_def
     initial_ledger_def demo_env_def demo_machine_def deliver_writes_def and_then_def delivery_step_def write_result_def write_check_def
     write_event_def write_signal_def project_root_def config_projects_def get_def demo_submitted_def Let_def)

theorem due_outcome_is_delivered_witness:
  "\<exists>B. deliver_outcomes demo_env (demo_machine (Log_Error []) []) demo_pending = (None, B) \<and>
     (\<exists>r'\<in>set (outbox (au_ledger B)). ob_id r' = ''o'' \<and> ob_delivered r') \<and> ''o'' \<in> set (au_signals B)"
proof -
  from demo_delivery obtain B where B: "deliver_outcomes demo_env (demo_machine (Log_Error []) []) demo_pending = (None, B)" ..
  have row: "demo_row \<in> set (outbox (au_ledger demo_pending))" "\<not> ob_delivered demo_row"
    "ob_next_attempt demo_row \<le> clock demo_env (clock_reads (au_ledger demo_pending))" "ob_id demo_row = ''o''" "wants_wake (ob_body demo_row)"
    by (simp_all add: demo_pending_def demo_service_def demo_row_def demo_env_def wants_wake_def demo_subscriber_def get_def get_or_def Let_def)
  from due_outcome_is_delivered [OF B row(1-3)] demo_deliverable(3) row(4,5) B show ?thesis by (auto simp: demo_machine_def)
qed

lemma demo_failing_row:
  "fst (deliver_writes (demo_machine (Log_Error []) ''event'') demo_row demo_pending) = Some (OsError ''disk'')"
  "\<exists>B. deliver_row demo_env (demo_machine (Log_Error []) ''event'') demo_row demo_pending = (None, B)"
  by (simp_all add: deliver_row_def now_def log_event_def obind_def omodify_def demo_pending_def demo_service_def demo_row_def find_request_def set_ledger_def
     initial_ledger_def demo_env_def demo_machine_def deliver_writes_def and_then_def delivery_step_def write_result_def write_check_def
     write_event_def write_signal_def project_root_def config_projects_def get_def demo_submitted_def retriable_def demo_subscriber_def Let_def)

theorem failed_delivery_is_rescheduled_witness:
  "\<exists>B d. deliver_row demo_env (demo_machine (Log_Error []) ''event'') demo_row demo_pending = (None, B) \<and>
     (2::int) \<le> d \<and> d \<le> 60 \<and> length (outbox (au_ledger B)) = 1 \<and> ob_attempts (hd (outbox (au_ledger B))) = 1"
proof -
  from demo_failing_row(2) obtain B where B: "deliver_row demo_env (demo_machine (Log_Error []) ''event'') demo_row demo_pending = (None, B)" ..
  from failed_delivery_is_rescheduled [OF B demo_failing_row(1) demo_deliverable(3)] B show ?thesis
    by (auto simp: demo_pending_def demo_service_def demo_row_def)
qed

text \<open>A submission to the concrete service.\<close>

definition demo_payload :: fields where
  "demo_payload = [(''recipe'', JStr ''r''), (''recipe_digest'', JStr ''d''), (''id'', JStr ''e''),
     (''inputs'', JObj [(''a'', JStr demo_digest)])]"

definition demo_submission :: submission where
  "demo_submission = \<lparr>sb_recipe = obj_fields demo_recipe_json, sb_external = ''e'', sb_inputs = [(''a'', demo_digest)],
     sb_lineage = JNull, sb_subscriber = None, sb_root = ''/w''\<rparr>"

definition demo_new_plan :: fields where
  "demo_new_plan = [(''stages'', JList demo_stages), (''contract_digest'', JStr ''d''),
     (''input_manifest'', manifest_json [(''a'', demo_digest)]), (''workspace'', JStr ''uu''),
     (''recipe_digest'', JStr ''d''), (''lineage'', JNull)]"

lemma demo_checked:
  "check_submission demo_env (demo_service demo_configured) ''p'' demo_payload = Inr demo_submission"
  "observed_inputs (demo_machine (Log_Error []) []) demo_submission = Inr [(''a'', demo_digest)]"
  "plan_of demo_env demo_submission [(''a'', demo_digest)] ''uu'' = Inr demo_new_plan"
  "plan_stages demo_new_plan = Inr (demo_stages, [''a'', ''b''])"
  "uuid4 demo_env (uuid_draws demo_configured) = ''uu''"
  by (code_simp, code_simp, code_simp, code_simp) (simp add: demo_env_def demo_configured_def)

lemma demo_new_submit:
  "\<exists>L. submit demo_env (JStr ''p'') (JStr ''e'') demo_new_plan None (demo_configured\<lparr>uuid_draws := 2\<rparr>) = Inr (''uuu'', L)"
  by (simp add: submit_def create_request_def demo_checked(4) find_external_def demo_checks demo_configured_def
      demo_env_def insert_request_def find_request_def demo_stages_def add_stage_def save_def new_stage_def stage_keys_def run_eval
      numeral_2_eq_2 cong: obind_weak_cong)

lemma demo_submit_request:
  "\<exists>B. submit_request demo_env (demo_machine (Log_Error []) []) id ''p'' demo_payload (demo_service demo_configured)
     = (Inr (Submit_Reply ''uuu'' ''d'' False), B) \<and> (''uu'', [(''a'', demo_digest)]) \<in> set (au_workspaces B)"
proof -
  from demo_new_submit obtain L where
    L: "submit demo_env (JStr ''p'') (JStr ''e'') demo_new_plan None (demo_configured\<lparr>uuid_draws := 2\<rparr>) = Inr (''uuu'', L)" ..
  have n: "find_external ''p'' ''e'' (requests demo_configured) = None" "uuid_draws demo_configured = 1"
    by (simp_all add: demo_configured_def find_external_def)
  have d: "contract_digest demo_env demo_new_plan = ''d''" by (simp add: contract_digest_def demo_env_def)
  have c: "commit_submission demo_env ''p'' demo_submission demo_new_plan (demo_configured\<lparr>uuid_draws := 2\<rparr>)
      = Inr (Submit_Reply ''uuu'' ''d'' False, L)"
    using L n d by (simp add: commit_submission_def demo_submission_def obind_def oget_def oreturn_def find_external_def demo_configured_def)
  have A: "au_ledger (demo_service demo_configured) = demo_configured" "au_workspaces (demo_service demo_configured) = []"
    by (simp_all add: demo_service_def)
  have u: "uuid4 demo_env (Suc 0) = ''uu''" using demo_checked(5) n by simp
  have m: "m_capture_error (demo_machine sp bad) x = None" for sp bad x by (simp add: demo_machine_def)
  have e: "sb_external demo_submission = ''e''" by (simp add: demo_submission_def)
  show ?thesis
    unfolding submit_request_def demo_checked(1) sum.case A(1) e n(1) option.case demo_checked(2) Let_def m demo_checked(5) demo_checked(3)
    by (simp add: A n c [unfolded numeral_2_eq_2] in_ledger_def is_replay_def numeral_2_eq_2)
qed


theorem accepted_submission_has_snapshot_witness:
  "\<exists>B rq ws. submit_request demo_env (demo_machine (Log_Error []) []) id ''p'' demo_payload (demo_service demo_configured)
       = (Inr (Submit_Reply ''uuu'' ''d'' False), B) \<and> rq \<in> set (requests (au_ledger B)) \<and> rq_id rq = ''uuu'' \<and>
     get (rq_plan rq) ''workspace'' = JStr ws \<and> ws \<in> fst ` set (au_workspaces B)"
proof -
  from demo_submit_request obtain B where
    B: "submit_request demo_env (demo_machine (Log_Error []) []) id ''p'' demo_payload (demo_service demo_configured)
     = (Inr (Submit_Reply ''uuu'' ''d'' False), B)" by blast
  have ok: "ledger_ok demo_env (au_ledger (demo_service demo_configured))"
    using reachable_ok [OF demo_fresh demo_configured_reachable] by (simp add: demo_service_def)
  have others: "steps demo_env L (id L)" for L by simp
  from accepted_submission_has_snapshot [OF demo_fresh ok others B] B show ?thesis by force
qed


end
