(* ===== verification/Resource_Runner.thy ===== *)
theory Resource_Runner
  imports Resource_Config
begin

text \<open>
  The native supervisor of one stage (\<open>resource_runner.py\<close>): it admits its launch token, runs the
  stage's commands and cleanup commands in the captured workspace, probes the resources that need
  it, and completes the stage with what it may release.

  The supervisor shares the ledger with the service and its clients. Each of its ledger accesses is
  a transaction of its own, before which other processes may have committed transactions
  (\<open>rn_others\<close>). Processes, clocks and files answer through \<open>runner_host\<close>, indexed by a tick that
  counts the observations. A polling loop that never ends is \<open>None\<close>.
\<close>

section \<open>Environment and state\<close>

datatype spawn_try = Missing_Program string | Spawn_Failure string | Child int

record runner_host =
  rn_host :: host
  rn_pid :: int
  rn_others :: "nat \<Rightarrow> ledger \<Rightarrow> ledger"
  rn_config :: fields
  rn_windows :: bool
  rn_spawn :: "nat \<Rightarrow> spawn_try"
  rn_group :: "nat \<Rightarrow> int option"
  rn_exited :: "nat \<Rightarrow> bool"
  rn_clock :: "nat \<Rightarrow> rat"
  rn_stopped :: "nat \<Rightarrow> bool"
  rn_group_state :: "nat \<Rightarrow> liveness"
  rn_exit_code :: "nat \<Rightarrow> json"
  rn_input :: "nat \<Rightarrow> string \<Rightarrow> (bool \<times> string) option"
  rn_files :: "nat \<Rightarrow> string \<Rightarrow> file_info option"
  rn_cwd_inside :: "string \<Rightarrow> bool"
  rn_result :: "nat \<Rightarrow> result_read"
  rn_write :: "nat \<Rightarrow> err + unit"
  rn_evidence :: "nat \<Rightarrow> err + string \<times> string"

text \<open>\<open>rs_spawned\<close> records every attempt to start a process: the command's index (-1 for a probe) and
  whether it ran with the maintenance capability.\<close>

record run_state =
  rs_ledger :: ledger
  rs_tick :: nat
  rs_spawned :: "(int \<times> bool) list"

type_synonym 'a act = "run_state \<Rightarrow> ((err + 'a) \<times> run_state) option"

definition areturn :: "'a \<Rightarrow> 'a act" where
  "areturn x = (\<lambda>s. Some (Inr x, s))"

definition alift :: "err + 'a \<Rightarrow> 'a act" where
  "alift m = (\<lambda>s. Some (m, s))"

definition abind :: "'a act \<Rightarrow> ('a \<Rightarrow> 'b act) \<Rightarrow> 'b act" where
  "abind m f = (\<lambda>s. case m s of
      None \<Rightarrow> None
    | Some (Inl e, s') \<Rightarrow> Some (Inl e, s')
    | Some (Inr x, s') \<Rightarrow> f x s')"

text \<open>\<open>except\<close>: the state stays as the failure left it.\<close>

definition acatch :: "'a act \<Rightarrow> (err \<Rightarrow> 'a act option) \<Rightarrow> 'a act" where
  "acatch m h = (\<lambda>s. case m s of
      None \<Rightarrow> None
    | Some (Inr x, s') \<Rightarrow> Some (Inr x, s')
    | Some (Inl e, s') \<Rightarrow> (case h e of None \<Rightarrow> Some (Inl e, s') | Some k \<Rightarrow> k s'))"

definition observe :: "(nat \<Rightarrow> 'a) \<Rightarrow> 'a act" where
  "observe f = (\<lambda>s. Some (Inr (f (rs_tick s)), s\<lparr>rs_tick := Suc (rs_tick s)\<rparr>))"

definition transact :: "runner_host \<Rightarrow> 'a op \<Rightarrow> 'a act" where
  "transact R m = (\<lambda>s.
     let L = rn_others R (rs_tick s) (rs_ledger s); s' = s\<lparr>rs_tick := Suc (rs_tick s), rs_ledger := L\<rparr> in
     case m L of Inl e \<Rightarrow> Some (Inl e, s') | Inr (x, L') \<Rightarrow> Some (Inr x, s'\<lparr>rs_ledger := L'\<rparr>))"

section \<open>One command\<close>

definition phase_capability :: "stage \<Rightarrow> bool \<Rightarrow> err + string" where
  "phase_capability s maintenance =
     (case (if maintenance then st_maintenance_token s else st_launch_token s) of
        Some (c # cs) \<Rightarrow> Inr (c # cs)
      | _ \<Rightarrow> Inl (ResourceError ''capability is unavailable''))"

record command_result =
  cr_index :: int
  cr_exit :: json
  cr_reason :: string
  cr_quiescent :: bool
  cr_typed :: json

definition result_json :: "command_result \<Rightarrow> json" where
  "result_json r = JObj [(''index'', JInt (cr_index r)), (''exit_code'', cr_exit r), (''reason'', JStr (cr_reason r)),
     (''process_quiescent'', JBool (cr_quiescent r)), (''typed_evidence'', cr_typed r)]"

text \<open>The checks before a process exists: the typed input of a release-upgrade command or the argument
  vector of a plain one, the working directory, the registered project and the capability.\<close>

definition typed_input :: "runner_host \<Rightarrow> env \<Rightarrow> stage \<Rightarrow> fields \<Rightarrow> fields option act" where
  "typed_input R \<epsilon> s command =
     (if get command ''kind'' \<noteq> JStr upgrade_kind then
        abind (alift (subscript (JObj command) ''argv'')) (\<lambda>v. abind (alift (spread v)) (\<lambda>args.
        if list_all is_str args then areturn None else alift (Inl AttributeError)))
      else
        abind (transact R (get_request (st_request s))) (\<lambda>rq.
        abind (alift (subscript (JObj (rq_plan rq)) ''input_manifest'')) (\<lambda>mv. abind (alift (dict_of mv)) (\<lambda>manifest.
        abind (transact R (oget authority)) (\<lambda>auth.
        abind (alift (subscript (JObj (rq_plan rq)) ''recipe_digest'')) (\<lambda>rd. abind (alift (text_value rd)) (\<lambda>recipe_digest.
        abind (observe (rn_files R)) (\<lambda>files.
        abind (alift (build_upgrade_input (sha \<epsilon>) files
                 (map (\<lambda>(p, h). (p, case h of JStr t \<Rightarrow> t | _ \<Rightarrow> [])) manifest)
                 \<lparr>ur_authority = auth, ur_request = st_request s, ur_stage = st_id s, ur_epoch = int (st_epoch s),
                   ur_recipe_digest = recipe_digest\<rparr> command)) (\<lambda>inp.
        abind (observe (rn_write R)) (\<lambda>w. abind (alift w) (\<lambda>_.
        areturn (Some inp))))))))))))"

definition prepare_command :: "runner_host \<Rightarrow> env \<Rightarrow> stage \<Rightarrow> fields \<Rightarrow> bool \<Rightarrow> fields option act" where
  "prepare_command R \<epsilon> s command cleanup =
     abind (typed_input R \<epsilon> s command) (\<lambda>typed.
     abind (alift (text_value (get_or command ''cwd'' (JStr ''.'')))) (\<lambda>cwd.
     abind (alift (raise_if (\<not> rn_cwd_inside R cwd) (ResourceError ''command cwd escaped captured workspace''))) (\<lambda>_.
     abind (alift (subscript (JObj (rn_config R)) ''projects'')) (\<lambda>ps.
     abind (alift (subscript ps (st_project s))) (\<lambda>p. abind (alift (subscript p ''root'')) (\<lambda>_.
     abind (transact R (oget authority)) (\<lambda>_.
     abind (alift (phase_capability s cleanup)) (\<lambda>_.
     areturn typed))))))))"

definition overdue :: "json \<Rightarrow> rat \<Rightarrow> rat \<Rightarrow> err + bool" where
  "overdue timeout start t =
     (case timeout of
        JInt i \<Rightarrow> Inr (of_int i \<le> t - start)
      | JReal r \<Rightarrow> Inr (r \<le> t - start)
      | JBool b \<Rightarrow> Inr ((if b then 1 else 0) \<le> t - start)
      | _ \<Rightarrow> Inl TypeError)"

text \<open>The polling loop: why it ended.\<close>

fun supervise :: "nat \<Rightarrow> runner_host \<Rightarrow> string \<Rightarrow> bool \<Rightarrow> json \<Rightarrow> rat \<Rightarrow> string act" where
  "supervise 0 R sid cleanup timeout start s = None"
| "supervise (Suc fuel) R sid cleanup timeout start s =
     abind (observe (rn_exited R)) (\<lambda>exited.
     if exited then areturn ''completed''
     else abind (transact R (get_stage sid)) (\<lambda>row.
       if st_state row \<noteq> Running \<or> st_cancel_requested row \<and> \<not> cleanup then areturn ''cancelled''
       else if timeout = JNull then supervise fuel R sid cleanup timeout start
       else abind (observe (rn_clock R)) (\<lambda>t. abind (alift (overdue timeout start t)) (\<lambda>late.
         if late then areturn ''timed_out'' else supervise fuel R sid cleanup timeout start)))) s"

text \<open>From a started process to its end; \<open>terminate_worker\<close> runs whatever the loop did.\<close>

definition watched :: "nat \<Rightarrow> runner_host \<Rightarrow> env \<Rightarrow> stage \<Rightarrow> fields \<Rightarrow> int \<Rightarrow> bool \<Rightarrow> int \<Rightarrow> rat \<Rightarrow> string act" where
  "watched fuel R \<epsilon> s command index cleanup pid start =
     abind (observe (rn_group R)) (\<lambda>group.
     abind (observe (\<lambda>n. process_identity (rn_host R) n (JInt pid))) (\<lambda>ident.
     (case (group, ident) of
        (Some g, Some i) \<Rightarrow>
          abind (transact R (annotate \<epsilon> (st_id s) (st_epoch s)
                   [(''command_identity'', JObj i), (''command_group'', JInt g), (''command_index'', JInt index)])) (\<lambda>_.
          supervise fuel R (st_id s) cleanup (get command ''timeout_seconds'') start)
      | _ \<Rightarrow> alift (Inl (ResourceError ''command containment identity unavailable'')))))"

definition afinally :: "'a act \<Rightarrow> 'b act \<Rightarrow> ('a \<times> 'b) act" where
  "afinally m k = (\<lambda>s. case m s of
      None \<Rightarrow> None
    | Some (r, s') \<Rightarrow> (case k s' of
        None \<Rightarrow> None
      | Some (Inl e, s'') \<Rightarrow> Some (Inl e, s'')
      | Some (Inr y, s'') \<Rightarrow> Some (case r of Inl e \<Rightarrow> Inl e | Inr x \<Rightarrow> Inr (x, y), s'')))"

definition typed_outcome :: "result_read \<Rightarrow> fields \<Rightarrow> string \<Rightarrow> err + string \<times> json" where
  "typed_outcome content inp reason =
     (case read_upgrade_result (1024 * 1024) content inp of
        Inr (w, h, n, status) \<Rightarrow>
          Inr (if status \<noteq> JStr ''passed'' \<and> reason = ''completed'' then ''typed_result_failed'' else reason,
               JObj [(''sha256'', JStr h), (''size_bytes'', JInt (int n)), (''status'', status)])
      | Inl (ResourceError m) \<Rightarrow>
          Inr (if reason = ''completed'' then ''invalid_typed_result'' else reason,
               JObj [(''status'', JStr ''invalid''), (''error'', JStr m)])
      | Inl e \<Rightarrow> Inl e)"

fun attribute_dict :: "json \<Rightarrow> err + fields" where
  "attribute_dict (JObj fs) = Inr fs"
| "attribute_dict _ = Inl AttributeError"

definition spawning :: "int \<Rightarrow> bool \<Rightarrow> unit act" where
  "spawning index cleanup = (\<lambda>s. Some (Inr (), s\<lparr>rs_spawned := rs_spawned s @ [(index, cleanup)]\<rparr>))"

definition run_command :: "nat \<Rightarrow> runner_host \<Rightarrow> env \<Rightarrow> stage \<Rightarrow> json \<Rightarrow> int \<Rightarrow> bool \<Rightarrow> command_result act" where
  "run_command fuel R \<epsilon> s command_json index cleanup =
     abind (alift (attribute_dict command_json)) (\<lambda>command.
     abind (prepare_command R \<epsilon> s command cleanup) (\<lambda>typed.
     abind (observe (rn_clock R)) (\<lambda>start.
     abind (observe (rn_write R)) (\<lambda>w. abind (alift w) (\<lambda>_.
     abind (spawning index cleanup) (\<lambda>_.
     abind (observe (rn_spawn R)) (\<lambda>sp.
     (case sp of
        Missing_Program e \<Rightarrow>
          areturn \<lparr>cr_index = index, cr_exit = JNull, cr_reason = ''not_started'', cr_quiescent = True, cr_typed = JNull\<rparr>
      | Spawn_Failure e \<Rightarrow> alift (Inl (OsError e))
      | Child pid \<Rightarrow>
          abind (afinally (watched fuel R \<epsilon> s command index cleanup pid start) (observe (rn_stopped R))) (\<lambda>(reason, stopped).
          abind (if rn_windows R then areturn stopped
                 else abind (observe (rn_group_state R)) (\<lambda>g. areturn (stopped \<and> g = Gone))) (\<lambda>quiescent.
          abind (observe (rn_exit_code R)) (\<lambda>code.
          (case typed of
             None \<Rightarrow> areturn \<lparr>cr_index = index, cr_exit = code, cr_reason = reason, cr_quiescent = quiescent, cr_typed = JNull\<rparr>
           | Some inp \<Rightarrow>
               abind (observe (rn_result R)) (\<lambda>content.
               abind (alift (typed_outcome content inp reason)) (\<lambda>(reason', ev).
               areturn \<lparr>cr_index = index, cr_exit = code, cr_reason = reason', cr_quiescent = quiescent, cr_typed = ev\<rparr>))))))))))))))"


section \<open>The stage\<close>

text \<open>What the body of \<open>execute\<close> has established so far; an exception keeps it.\<close>

record progress =
  pr_outcome :: stage_state
  pr_quiescent :: bool
  pr_started :: bool
  pr_results :: "command_result list"

definition initial_progress :: progress where
  "initial_progress = \<lparr>pr_outcome = Passed, pr_quiescent = True, pr_started = False, pr_results = []\<rparr>"

definition began :: "progress \<Rightarrow> progress" where
  "began p = p\<lparr>pr_started := True\<rparr>"

definition recorded :: "command_result \<Rightarrow> progress \<Rightarrow> progress" where
  "recorded r p = (began p)\<lparr>pr_results := pr_results p @ [r]\<rparr>"

definition absorb :: "command_result \<Rightarrow> progress \<Rightarrow> progress" where
  "absorb r p = p\<lparr>pr_quiescent := pr_quiescent p \<and> cr_quiescent r,
     pr_outcome := (if cr_reason r = ''cancelled'' then Cancelled
                    else if \<not> json_eq (cr_exit r) (JInt 0) \<or> cr_reason r \<noteq> ''completed'' then Failed else pr_outcome p)\<rparr>"

type_synonym body = "progress \<Rightarrow> run_state \<Rightarrow> (err option \<times> progress \<times> run_state) option"

text \<open>The immutable inputs, checked at the stage boundary.\<close>

fun check_inputs :: "runner_host \<Rightarrow> (string \<times> json) list \<Rightarrow> body" where
  "check_inputs R [] p s = Some (None, p, s)"
| "check_inputs R ((rel, expected) # rest) p s =
     (case rn_input R (rs_tick s) rel of
        None \<Rightarrow> Some (Some (OsError rel), p, s\<lparr>rs_tick := Suc (rs_tick s)\<rparr>)
      | Some (link, h) \<Rightarrow>
          if link \<or> JStr h \<noteq> expected
          then Some (Some (ResourceError ''captured source inputs changed before launch''), p\<lparr>pr_outcome := Invalidated\<rparr>,
                     s\<lparr>rs_tick := Suc (rs_tick s)\<rparr>)
          else check_inputs R rest p (s\<lparr>rs_tick := Suc (rs_tick s)\<rparr>))"

fun run_commands :: "nat \<Rightarrow> runner_host \<Rightarrow> env \<Rightarrow> stage \<Rightarrow> (int \<times> json \<times> bool) list \<Rightarrow> body" where
  "run_commands fuel R \<epsilon> stage [] p s = Some (None, p, s)"
| "run_commands fuel R \<epsilon> stage ((index, command, cleanup) # rest) p s =
     (if pr_outcome p \<noteq> Passed \<and> \<not> cleanup then run_commands fuel R \<epsilon> stage rest p s
      else case transact R (get_stage (st_id stage)) s of
        None \<Rightarrow> None
      | Some (Inl e, s1) \<Rightarrow> Some (Some e, p, s1)
      | Some (Inr row, s1) \<Rightarrow>
          if st_cancel_requested row \<and> \<not> cleanup
          then run_commands fuel R \<epsilon> stage rest (p\<lparr>pr_outcome := Cancelled\<rparr>) s1
          else
            (case run_command fuel R \<epsilon> stage command index cleanup s1 of
               None \<Rightarrow> None
             | Some (Inl e, s2) \<Rightarrow> Some (Some e, began p, s2)
             | Some (Inr r, s2) \<Rightarrow>
                 (case transact R (annotate \<epsilon> (st_id stage) (st_epoch stage)
                          [(''results'', JList (map result_json (pr_results p @ [r])))]) s2 of
                    None \<Rightarrow> None
                  | Some (Inl e, s3) \<Rightarrow> Some (Some e, recorded r p, s3)
                  | Some (Inr _, s3) \<Rightarrow>
                      if \<not> pr_quiescent (absorb r (recorded r p)) then Some (None, absorb r (recorded r p), s3)
                      else run_commands fuel R \<epsilon> stage rest (absorb r (recorded r p)) s3)))"

definition bseq :: "body \<Rightarrow> body \<Rightarrow> body" where
  "bseq f g p s = (case f p s of None \<Rightarrow> None | Some (Some e, p', s') \<Rightarrow> Some (Some e, p', s') | Some (None, p', s') \<Rightarrow> g p' s')"

definition handled :: "err \<Rightarrow> bool" where
  "handled e = (case e of OsError _ \<Rightarrow> True | ResourceError _ \<Rightarrow> True | ValueError \<Rightarrow> True | _ \<Rightarrow> False)"

text \<open>The handler of the body: an exception after a process may have started hides descendants.\<close>

definition conclude :: "err \<Rightarrow> progress \<Rightarrow> progress" where
  "conclude e p = p\<lparr>pr_outcome := (if pr_outcome p = Passed then Failed else pr_outcome p), pr_quiescent := \<not> pr_started p\<rparr>"

text \<open>\<open>[(command, False) ...] + [(command, True) ...]\<close>, enumerated.\<close>

definition planned :: "stage \<Rightarrow> err + (int \<times> json \<times> bool) list" where
  "planned stage =
     ebind (subscript (JObj (st_extra stage)) ''commands'') (\<lambda>c. ebind (spread c) (\<lambda>works.
     ebind (spread (get_or (st_extra stage) ''cleanup'' (JList []))) (\<lambda>cleanups.
     let all = map (\<lambda>c. (c, False)) works @ map (\<lambda>c. (c, True)) cleanups in
     Inr (map (\<lambda>(i, c, cl). (int i, c, cl)) (zip [0..<length all] all)))))"

definition stage_body :: "nat \<Rightarrow> runner_host \<Rightarrow> env \<Rightarrow> stage \<Rightarrow> fields \<Rightarrow> body" where
  "stage_body fuel R \<epsilon> stage plan p s =
     (case ebind (subscript (JObj plan) ''input_manifest'') dict_of of
        Inl e \<Rightarrow> Some (Some e, p, s)
      | Inr manifest \<Rightarrow>
          bseq (check_inputs R manifest)
            (\<lambda>p s. case planned stage of
               Inl e \<Rightarrow> Some (Some e, p, s)
             | Inr cmds \<Rightarrow> run_commands fuel R \<epsilon> stage cmds p s) p s)"

section \<open>What may be released\<close>

definition leaf_of :: "registry \<Rightarrow> string \<Rightarrow> err + entry" where
  "leaf_of reg leaf = (case map_of reg leaf of None \<Rightarrow> Inl (KeyError leaf) | Some e \<Rightarrow> Inr e)"

definition probe_passed :: "command_result \<Rightarrow> bool" where
  "probe_passed r \<longleftrightarrow> json_eq (cr_exit r) (JInt 0) \<and> cr_quiescent r \<and> cr_reason r = ''completed''"

fun probe_leaves :: "nat \<Rightarrow> runner_host \<Rightarrow> env \<Rightarrow> stage \<Rightarrow> registry \<Rightarrow> bool \<Rightarrow> string list \<Rightarrow> string list \<Rightarrow> string list act" where
  "probe_leaves fuel R \<epsilon> stage reg started [] freed s = areturn freed s"
| "probe_leaves fuel R \<epsilon> stage reg started (leaf # leaves) freed s =
     abind (alift (leaf_of reg leaf)) (\<lambda>e.
     abind (if \<not> started then areturn True
            else abind (alift (subscript (JObj (entry_fields e)) ''release'')) (\<lambda>rel. areturn (rel = JStr ''process''))) (\<lambda>plain.
     if plain then probe_leaves fuel R \<epsilon> stage reg started leaves (freed @ [leaf])
     else
       abind (acatch
          (abind (alift (subscript (JObj (entry_fields e)) ''probe'')) (\<lambda>probe.
           abind (run_command fuel R \<epsilon> stage probe (- 1) True) (\<lambda>r. areturn (probe_passed r))))
          (\<lambda>e. case e of OsError _ \<Rightarrow> Some (areturn False) | ResourceError _ \<Rightarrow> Some (areturn False) | _ \<Rightarrow> None)) (\<lambda>ok.
       probe_leaves fuel R \<epsilon> stage reg started leaves
         (if ok then freed @ [leaf] else freed)))) s"

text \<open>Coupled resources release together: a group with a member that stays behind keeps them all.\<close>

definition unsafe_groups :: "registry \<Rightarrow> string list \<Rightarrow> string list \<Rightarrow> err + json list" where
  "unsafe_groups reg owned freed =
     ebind (emap (registry_group reg) (filter (\<lambda>leaf. leaf \<notin> set freed) owned)) (\<lambda>gs.
     emap (\<lambda>g. if hashable g then Inr g else Inl TypeError) (filter truthy gs))"

definition coupled_release :: "registry \<Rightarrow> string list \<Rightarrow> string list \<Rightarrow> err + string list" where
  "coupled_release reg owned freed =
     ebind (unsafe_groups reg owned freed) (\<lambda>groups.
     ebind (emap (\<lambda>leaf. ebind (registry_group reg leaf) (\<lambda>g.
              if hashable g then Inr (leaf, list_ex (json_eq g) groups) else Inl TypeError)) freed) (\<lambda>marked.
     Inr (map fst (filter (\<lambda>m. \<not> snd m) marked))))"

definition releasable :: "nat \<Rightarrow> runner_host \<Rightarrow> env \<Rightarrow> stage \<Rightarrow> progress \<Rightarrow> string list act" where
  "releasable fuel R \<epsilon> stage p =
     abind (transact R (oget registry)) (\<lambda>reg.
     abind (if pr_quiescent p
            then probe_leaves fuel R \<epsilon> stage reg (pr_started p) (keys (st_allocation stage)) []
            else areturn []) (\<lambda>freed.
     alift (coupled_release reg (keys (st_allocation stage)) freed)))"

section \<open>Execution\<close>

definition finish_evidence :: "string \<Rightarrow> string \<Rightarrow> bool \<Rightarrow> json" where
  "finish_evidence path h quiescent =
     JObj [(''path'', JStr path), (''sha256'', JStr h), (''process_quiescent'', JBool quiescent)]"

definition complete_stage :: "nat \<Rightarrow> runner_host \<Rightarrow> env \<Rightarrow> stage \<Rightarrow> fields \<Rightarrow> progress \<Rightarrow> unit act" where
  "complete_stage fuel R \<epsilon> stage plan p =
     abind (releasable fuel R \<epsilon> stage p) (\<lambda>freed.
     abind (alift (subscript (JObj plan) ''recipe_digest'')) (\<lambda>_.
     abind (observe (rn_evidence R)) (\<lambda>w. abind (alift w) (\<lambda>(path, h).
     transact R (finish \<epsilon> (st_id stage) (st_epoch stage) (pr_outcome p) freed (finish_evidence path h (pr_quiescent p)))))))"

text \<open>The body with its handler: the progress with which the stage is completed.\<close>

definition stage_end :: "nat \<Rightarrow> runner_host \<Rightarrow> env \<Rightarrow> stage \<Rightarrow> fields \<Rightarrow> progress act" where
  "stage_end fuel R \<epsilon> stage plan = (\<lambda>s.
     case stage_body fuel R \<epsilon> stage plan initial_progress s of
        None \<Rightarrow> None
      | Some (None, p, s') \<Rightarrow> Some (Inr p, s')
      | Some (Some e, p, s') \<Rightarrow> Some (if handled e then Inr (conclude e p) else Inl e, s'))"

definition run_stage :: "nat \<Rightarrow> runner_host \<Rightarrow> env \<Rightarrow> stage \<Rightarrow> unit act" where
  "run_stage fuel R \<epsilon> stage =
     abind (transact R (get_request (st_request stage))) (\<lambda>rq.
     abind (alift (ebind (subscript (JObj (rq_plan rq)) ''workspace'') text_value)) (\<lambda>_.
     abind (observe (rn_write R)) (\<lambda>w. abind (alift w) (\<lambda>_.
     abind (stage_end fuel R \<epsilon> stage (rq_plan rq)) (\<lambda>p.
     complete_stage fuel R \<epsilon> stage (rq_plan rq) p)))))"

definition execute :: "nat \<Rightarrow> runner_host \<Rightarrow> env \<Rightarrow> string \<Rightarrow> string \<Rightarrow> unit act" where
  "execute fuel R \<epsilon> sid token =
     abind (transact R (get_stage sid)) (\<lambda>row.
     if token = [] then
       abind (observe (\<lambda>n. process_identity (rn_host R) n (JInt (rn_pid R)))) (\<lambda>self.
       abind (transact R (abort_unadmitted \<epsilon> sid (st_epoch row) None self)) (\<lambda>_. areturn ()))
     else
       abind (acatch (abind (transact R (admit \<epsilon> sid token)) (\<lambda>s. areturn (Some s)))
          (\<lambda>e. case e of ResourceError _ \<Rightarrow> Some (areturn None) | _ \<Rightarrow> None)) (\<lambda>admitted.
       case admitted of
         None \<Rightarrow> abind (transact R (abort_unadmitted \<epsilon> sid (st_epoch row) (Some token) None)) (\<lambda>_. areturn ())
       | Some stage \<Rightarrow> run_stage fuel R \<epsilon> stage))"

end
