(* ===== verification/Runner_Properties.thy ===== *)
theory Runner_Properties
  imports Resource_Runner Resource_Properties "HOL-Library.Sublist"
begin

text \<open>
  What the supervisor of a stage guarantees: it moves the shared ledger only by life-cycle steps, runs the
  commands in their order, cleans up after a failure and runs no further work, reports success only when
  every command succeeded, releases only what is quiescent, and returns.
\<close>

named_theorems safe_intros

section \<open>The runner moves the ledger by life-cycle steps\<close>

text \<open>An action that, from a ledger that satisfies the invariant, performs life-cycle steps.\<close>

definition moved :: "env \<Rightarrow> run_state \<Rightarrow> run_state \<Rightarrow> bool" where
  "moved \<epsilon> s s' \<longleftrightarrow> (fresh_ids \<epsilon> \<longrightarrow> ledger_ok \<epsilon> (rs_ledger s) \<longrightarrow>
     steps \<epsilon> (rs_ledger s) (rs_ledger s') \<and> ledger_ok \<epsilon> (rs_ledger s'))"

lemma moved_refl [simp]: "moved \<epsilon> s s"
  by (simp add: moved_def)

lemma moved_trans: "moved \<epsilon> s s' \<Longrightarrow> moved \<epsilon> s' s'' \<Longrightarrow> moved \<epsilon> s s''"
  by (auto simp: moved_def intro: steps_trans)

definition safe_act :: "env \<Rightarrow> 'a act \<Rightarrow> bool" where
  "safe_act \<epsilon> m \<longleftrightarrow> (\<forall>s r s'. m s = Some (r, s') \<longrightarrow> moved \<epsilon> s s')"

lemma safe_actD: "safe_act \<epsilon> m \<Longrightarrow> m s = Some (r, s') \<Longrightarrow> moved \<epsilon> s s'"
  by (simp add: safe_act_def)

lemma abind_Some:
  "abind m f s = Some (r, s'') \<longleftrightarrow>
     (\<exists>e. m s = Some (Inl e, s'') \<and> r = Inl e) \<or> (\<exists>x s'. m s = Some (Inr x, s') \<and> f x s' = Some (r, s''))"
  unfolding abind_def by (auto split: option.split sum.split prod.split)

lemma acatch_Some:
  "acatch m h s = Some (r, s'') \<longleftrightarrow>
     (\<exists>x. m s = Some (Inr x, s'') \<and> r = Inr x) \<or>
     (\<exists>e s'. m s = Some (Inl e, s') \<and> (case h e of None \<Rightarrow> r = Inl e \<and> s'' = s' | Some k \<Rightarrow> k s' = Some (r, s'')))"
  unfolding acatch_def by (auto split: option.split sum.split prod.split)

lemma afinally_Some:
  "afinally m k s = Some (r, s'') \<longleftrightarrow>
     (\<exists>q s'. m s = Some (q, s') \<and> ((\<exists>e. k s' = Some (Inl e, s'') \<and> r = Inl e)
        \<or> (\<exists>y. k s' = Some (Inr y, s'') \<and> r = (case q of Inl e \<Rightarrow> Inl e | Inr x \<Rightarrow> Inr (x, y)))))"
  unfolding afinally_def by (auto split: option.split sum.split prod.split)

lemma safe_pure [safe_intros]: "safe_act \<epsilon> (areturn x)" "safe_act \<epsilon> (alift m)" "safe_act \<epsilon> (observe f)"
  by (auto simp: safe_act_def moved_def areturn_def alift_def observe_def)

lemma safe_abind [safe_intros]: "safe_act \<epsilon> m \<Longrightarrow> (\<And>x. safe_act \<epsilon> (f x)) \<Longrightarrow> safe_act \<epsilon> (abind m f)"
  unfolding safe_act_def abind_Some by (blast intro: moved_trans)

lemma safe_if [safe_intros]: "(b \<Longrightarrow> safe_act \<epsilon> m) \<Longrightarrow> (\<not> b \<Longrightarrow> safe_act \<epsilon> m') \<Longrightarrow> safe_act \<epsilon> (if b then m else m')"
  by simp

lemma safe_acatch [safe_intros]:
  assumes "safe_act \<epsilon> m" "\<And>e k. h e = Some k \<Longrightarrow> safe_act \<epsilon> k"
  shows "safe_act \<epsilon> (acatch m h)"
proof -
  have "moved \<epsilon> s s''" if run: "acatch m h s = Some (r, s'')" for s r s''
  proof -
    from run consider x where "m s = Some (Inr x, s'')"
      | e s' where "m s = Some (Inl e, s')" "case h e of None \<Rightarrow> r = Inl e \<and> s'' = s' | Some k \<Rightarrow> k s' = Some (r, s'')"
      unfolding acatch_Some by blast
    then show ?thesis
    proof cases
      case 2
      from safe_actD [OF assms(1) 2(1)] 2(2) safe_actD [OF assms(2)] show ?thesis
        by (cases "h e") (auto intro: moved_trans)
    qed (rule safe_actD [OF assms(1)])
  qed
  then show ?thesis by (simp add: safe_act_def)
qed

lemma safe_afinally [safe_intros]: "safe_act \<epsilon> m \<Longrightarrow> safe_act \<epsilon> k \<Longrightarrow> safe_act \<epsilon> (afinally m k)"
  unfolding safe_act_def afinally_Some by (blast intro: moved_trans)

lemma safe_spawning [safe_intros]: "safe_act \<epsilon> (spawning i c)"
  by (simp add: safe_act_def moved_def spawning_def)

section \<open>One command of the body\<close>

lemma transact_total: "\<exists>r s'. transact R m s = Some (r, s')"
  by (simp add: transact_def Let_def split: sum.split prod.split)

lemma run_commands_cases:
  assumes run: "run_commands fuel R \<epsilon> stage ((index, command, cleanup) # rest) p s = Some (e, p', s')"
  obtains (skipped) "pr_outcome p \<noteq> Passed" "\<not> cleanup" "run_commands fuel R \<epsilon> stage rest p s = Some (e, p', s')"
  | (unread) x where "transact R (get_stage (st_id stage)) s = Some (Inl x, s')" "e = Some x" "p' = p" "pr_outcome p = Passed \<or> cleanup"
  | (cancelled) row s1 where "transact R (get_stage (st_id stage)) s = Some (Inr row, s1)" "\<not> cleanup" "pr_outcome p = Passed"
      "run_commands fuel R \<epsilon> stage rest (p\<lparr>pr_outcome := Cancelled\<rparr>) s1 = Some (e, p', s')"
  | (raised) row s1 x where "transact R (get_stage (st_id stage)) s = Some (Inr row, s1)" "pr_outcome p = Passed \<or> cleanup"
      "run_command fuel R \<epsilon> stage command index cleanup s1 = Some (Inl x, s')" "e = Some x" "p' = began p"
  | (unrecorded) row s1 r s2 x where "transact R (get_stage (st_id stage)) s = Some (Inr row, s1)" "pr_outcome p = Passed \<or> cleanup"
      "run_command fuel R \<epsilon> stage command index cleanup s1 = Some (Inr r, s2)"
      "transact R (annotate \<epsilon> (st_id stage) (st_epoch stage) [(''results'', JList (map result_json (pr_results p @ [r])))]) s2 = Some (Inl x, s')"
      "e = Some x" "p' = recorded r p"
  | (stopped) row s1 r s2 u where "transact R (get_stage (st_id stage)) s = Some (Inr row, s1)" "pr_outcome p = Passed \<or> cleanup"
      "run_command fuel R \<epsilon> stage command index cleanup s1 = Some (Inr r, s2)"
      "transact R (annotate \<epsilon> (st_id stage) (st_epoch stage) [(''results'', JList (map result_json (pr_results p @ [r])))]) s2 = Some (Inr u, s')"
      "e = None" "p' = absorb r (recorded r p)" "\<not> pr_quiescent p'"
  | (continued) row s1 r s2 u s3 where "transact R (get_stage (st_id stage)) s = Some (Inr row, s1)" "pr_outcome p = Passed \<or> cleanup"
      "run_command fuel R \<epsilon> stage command index cleanup s1 = Some (Inr r, s2)"
      "transact R (annotate \<epsilon> (st_id stage) (st_epoch stage) [(''results'', JList (map result_json (pr_results p @ [r])))]) s2 = Some (Inr u, s3)"
      "pr_quiescent (absorb r (recorded r p))"
      "run_commands fuel R \<epsilon> stage rest (absorb r (recorded r p)) s3 = Some (e, p', s')"
proof -
  note run = run [unfolded run_commands.simps]
  show thesis
  proof (cases "pr_outcome p \<noteq> Passed \<and> \<not> cleanup")
    case True
    then show thesis using run skipped by simp
  next
    case False
    then have go: "pr_outcome p = Passed \<or> cleanup" by blast
    obtain rr s1 where g: "transact R (get_stage (st_id stage)) s = Some (rr, s1)"
      using transact_total by metis
    note run1 = run [unfolded if_not_P [OF False] g option.case prod.case]
    show thesis
    proof (cases rr)
      case (Inl x)
      then show thesis using run1 unread g go by simp
    next
      case (Inr row)
      note g = g [unfolded Inr]
      note run2 = run1 [unfolded Inr sum.case]
      show thesis
      proof (cases "st_cancel_requested row \<and> \<not> cleanup")
        case True
        then show thesis using run2 cancelled [OF g] go by auto
      next
        case False
        note run3 = run2 [unfolded if_not_P [OF False]]
        show thesis
        proof (cases "run_command fuel R \<epsilon> stage command index cleanup s1")
          case None
          then show thesis using run3 by simp
        next
          case (Some q)
          obtain rc s2 where q: "q = (rc, s2)" by (cases q)
          note c = Some [unfolded q]
          note run4 = run3 [unfolded c option.case prod.case]
          show thesis
          proof (cases rc)
            case (Inl x)
            then show thesis using run4 raised [OF g go] c by simp
          next
            case (Inr r)
            note c = c [unfolded Inr]
            obtain ra s3 where a: "transact R (annotate \<epsilon> (st_id stage) (st_epoch stage)
                [(''results'', JList (map result_json (pr_results p @ [r])))]) s2 = Some (ra, s3)"
              using transact_total by metis
            show thesis
            proof (cases ra)
              case (Inl x)
              then show thesis using run4 unrecorded [OF g go c] a Inr by simp
            next
              case ra: (Inr u)
              show thesis
              proof (cases "pr_quiescent (absorb r (recorded r p))")
                case True
                then show thesis using run4 continued [OF g go c] a ra Inr by simp
              next
                case False
                then show thesis using run4 stopped [OF g go c] a ra Inr by simp
              qed
            qed
          qed
        qed
      qed
    qed
  qed
qed

text \<open>Other processes commit transactions; so does the runner.\<close>

locale shared_ledger =
  fixes \<epsilon> :: env and R :: runner_host
  assumes others: "fresh_ids \<epsilon> \<Longrightarrow> ledger_ok \<epsilon> L \<Longrightarrow> steps \<epsilon> L (rn_others R n L)"
begin

lemma transact:
  assumes "\<And>L x L'. m L = Inr (x, L') \<Longrightarrow> steps \<epsilon> L L'"
  shows "safe_act \<epsilon> (transact R m)"
proof -
  have "steps \<epsilon> (rs_ledger s) (rs_ledger s') \<and> ledger_ok \<epsilon> (rs_ledger s')"
    if fresh: "fresh_ids \<epsilon>" and ok: "ledger_ok \<epsilon> (rs_ledger s)" and run: "transact R m s = Some (r, s')" for s r s'
  proof -
    let ?L = "rn_others R (rs_tick s) (rs_ledger s)"
    have o: "steps \<epsilon> (rs_ledger s) ?L" using others fresh ok by blast
    note ok' = steps_ok [OF o fresh_inj [OF fresh] ok]
    show ?thesis
    proof (cases "m ?L")
      case (Inl e)
      with run o ok' show ?thesis by (auto simp: transact_def Let_def)
    next
      case (Inr p)
      obtain x L' where p: "p = (x, L')" by (cases p)
      from assms [OF Inr [unfolded p]] have "steps \<epsilon> ?L L'" .
      with steps_ok [OF this fresh_inj [OF fresh] ok'] run o Inr p show ?thesis
        by (auto simp: transact_def Let_def intro: steps_trans)
    qed
  qed
  then show ?thesis by (simp add: safe_act_def moved_def)
qed

lemma transact_quiet: "quiet m \<Longrightarrow> safe_act \<epsilon> (transact R m)"
  by (rule transact) (rule quiet_steps)

lemma reads [safe_intros]:
  "safe_act \<epsilon> (transact R (get_stage i))" "safe_act \<epsilon> (transact R (get_request i))" "safe_act \<epsilon> (transact R (oget f))"
  by (rule transact_quiet, intro quiet_intros)+

lemma writes [safe_intros]:
  "safe_act \<epsilon> (transact R (annotate \<epsilon> i n fs))" "safe_act \<epsilon> (transact R (admit \<epsilon> i t))"
  "safe_act \<epsilon> (transact R (abort_unadmitted \<epsilon> i n t' v))" "safe_act \<epsilon> (transact R (finish \<epsilon> i n oc freed w))"
  by (rule transact; blast intro: annotate_steps admit_steps abort_steps finish_steps)+

lemma supervise: "safe_act \<epsilon> (supervise fuel R sid cleanup timeout start)"
proof (induction fuel)
  case 0
  show ?case by (simp add: safe_act_def)
next
  case (Suc fuel)
  have eq: "supervise (Suc fuel) R sid cleanup timeout start = (\<lambda>s. supervise (Suc fuel) R sid cleanup timeout start s)" ..
  show ?case by (subst eq, unfold supervise.simps, intro safe_intros Suc)
qed

lemma run_command [safe_intros]: "safe_act \<epsilon> (run_command fuel R \<epsilon> s c i cl)"
  unfolding run_command_def prepare_command_def typed_input_def watched_def
  by (auto intro!: safe_intros supervise split: spawn_try.splits option.splits prod.splits)

text \<open>A body keeps its progress beside the state.\<close>

lemma check_inputs: "check_inputs R xs p s = Some (e, p', s') \<Longrightarrow> moved \<epsilon> s s'"
proof (induction xs arbitrary: p s)
  case (Cons x xs)
  obtain rel expected where x: "x = (rel, expected)" by fastforce
  have tick: "moved \<epsilon> s (s\<lparr>rs_tick := Suc (rs_tick s)\<rparr>)" by (simp add: moved_def)
  from Cons.prems show ?case
    using Cons.IH moved_trans [OF tick] tick by (auto simp: x split: option.splits if_splits)
qed simp

lemma run_commands: "run_commands fuel R \<epsilon> stage cs p s = Some (e, p', s') \<Longrightarrow> moved \<epsilon> s s'"
proof (induction cs arbitrary: p s)
  case (Cons c cs)
  obtain index command cleanup where c: "c = (index, command, cleanup)" by (cases c)
  note steps = reads(1) [THEN safe_actD] run_command [THEN safe_actD] writes(1) [THEN safe_actD]
  from Cons.prems [unfolded c] show ?case
    by (cases rule: run_commands_cases) (blast intro: Cons.IH moved_trans steps)+
qed simp

lemma stage_body: "stage_body fuel R \<epsilon> stage plan p s = Some (e, p', s') \<Longrightarrow> moved \<epsilon> s s'"
  unfolding stage_body_def bseq_def
  by (auto split: sum.splits option.splits prod.splits dest!: check_inputs run_commands intro: moved_trans)

lemma probe_leaves: "safe_act \<epsilon> (probe_leaves fuel R \<epsilon> stage reg started leaves ps)"
proof (induction leaves arbitrary: ps)
  case Nil
  have "probe_leaves fuel R \<epsilon> stage reg started [] ps = areturn ps" by (rule ext) simp
  then show ?case by (simp add: safe_intros)
next
  case (Cons leaf leaves)
  have eq: "probe_leaves fuel R \<epsilon> stage reg started (leaf # leaves) ps =
    (\<lambda>s. probe_leaves fuel R \<epsilon> stage reg started (leaf # leaves) ps s)" ..
  show ?case
    by (subst eq, unfold probe_leaves.simps, intro safe_intros Cons) (auto split: err.splits intro!: safe_intros)
qed

lemma complete_stage: "safe_act \<epsilon> (complete_stage fuel R \<epsilon> stage plan p)"
  unfolding complete_stage_def releasable_def by (intro safe_intros probe_leaves) (auto split: prod.split intro!: safe_intros)

lemma stage_end: "safe_act \<epsilon> (stage_end fuel R \<epsilon> stage plan)"
  unfolding safe_act_def stage_end_def by (auto split: option.splits dest!: stage_body)

lemma run_stage: "safe_act \<epsilon> (run_stage fuel R \<epsilon> stage)"
  unfolding run_stage_def by (intro safe_intros stage_end complete_stage)

lemma execute: "safe_act \<epsilon> (execute fuel R \<epsilon> sid token)"
  unfolding execute_def
  by (intro safe_intros run_stage) (auto split: err.splits option.splits intro!: safe_intros run_stage)

end

text \<open>The ledger's own transactions, in any number and order, keep the contract.\<close>

interpretation transacting: shared_ledger \<epsilon> "R\<lparr>rn_others := \<lambda>n. execs \<epsilon> (cs n)\<rparr>" for \<epsilon> R cs
  by unfold_locales (simp add: execs_steps)

text \<open>C23: A supervisor - admission, commands, probes and completion, under whatever transactions other processes
  interleave and whatever the machine answers - moves the shared ledger only by the atomic life-cycle steps
  and keeps its invariant, so every safety property of the ledger holds while supervisors run.\<close>

theorem execute_refines_steps:
  assumes fresh: "fresh_ids \<epsilon>" and ok: "ledger_ok \<epsilon> (rs_ledger s)"
    and run: "execute fuel (R\<lparr>rn_others := \<lambda>n. execs \<epsilon> (cs n)\<rparr>) \<epsilon> sid token s = Some (r, s')"
  shows "steps \<epsilon> (rs_ledger s) (rs_ledger s') \<and> ledger_ok \<epsilon> (rs_ledger s')"
  using safe_actD [OF transacting.execute run] fresh ok by (simp add: moved_def)

section \<open>Which processes a stage starts\<close>

text \<open>The processes an action starts, each at most once and in this order.\<close>

definition spawns :: "(int \<times> bool) list \<Rightarrow> 'a act \<Rightarrow> bool" where
  "spawns es m \<longleftrightarrow> (\<forall>s r s'. m s = Some (r, s') \<longrightarrow> (\<exists>l. rs_spawned s' = rs_spawned s @ l \<and> subseq l es))"

named_theorems spawn_intros

lemma subseq_nil [simp]: "subseq l [] \<longleftrightarrow> l = []"
  by (auto dest: list_emb_Nil2)

lemma spawnsD: "spawns es m \<Longrightarrow> m s = Some (r, s') \<Longrightarrow> \<exists>l. rs_spawned s' = rs_spawned s @ l \<and> subseq l es"
  by (simp add: spawns_def)

lemma spawns_nilD: "spawns [] m \<Longrightarrow> m s = Some (r, s') \<Longrightarrow> rs_spawned s' = rs_spawned s"
  by (force simp: spawns_def)

lemma spawns_pure [spawn_intros]:
  "spawns es (areturn x)" "spawns es (alift m)" "spawns es (observe f)" "spawns es (transact R n)"
  by (auto simp: spawns_def areturn_def alift_def observe_def transact_def Let_def split: sum.splits)

lemma spawns_abind [spawn_intros]:
  assumes "spawns [] m" "\<And>x. spawns es (f x)"
  shows "spawns es (abind m f)"
  unfolding spawns_def abind_Some using spawns_nilD [OF assms(1)] spawnsD [OF assms(2)] by fastforce

lemma spawns_spawning: "(\<And>x. spawns [] (f x)) \<Longrightarrow> spawns [(i, c)] (abind (spawning i c) f)"
  unfolding spawns_def [of "[(i, c)]"] abind_Some by (auto simp: spawning_def dest!: spawns_nilD)

lemma spawns_if [spawn_intros]: "spawns es m \<Longrightarrow> spawns es m' \<Longrightarrow> spawns es (if b then m else m')"
  by simp

lemma spawns_afinally [spawn_intros]: "spawns [] m \<Longrightarrow> spawns [] k \<Longrightarrow> spawns [] (afinally m k)"
  unfolding spawns_def afinally_Some by fastforce

lemma spawns_supervise: "spawns [] (supervise fuel R sid cleanup timeout start)"
proof (induction fuel)
  case 0
  show ?case by (simp add: spawns_def)
next
  case (Suc fuel)
  have eq: "supervise (Suc fuel) R sid cleanup timeout start = (\<lambda>s. supervise (Suc fuel) R sid cleanup timeout start s)" ..
  show ?case by (subst eq, unfold supervise.simps, intro spawn_intros Suc)
qed

lemma subseq_single: "subseq l [x] \<Longrightarrow> l = [] \<or> l = [x]"
  by (cases l) (auto simp: subseq_singleton_left[symmetric] split: if_splits elim: list_emb.cases)

lemma run_command_spawns: "spawns [(index, cleanup)] (run_command fuel R \<epsilon> s c index cleanup)"
  unfolding run_command_def prepare_command_def typed_input_def watched_def
  by (intro spawn_intros spawns_spawning)
    (auto intro!: spawn_intros spawns_supervise split: spawn_try.splits option.splits prod.splits)

text \<open>Values an action can return.\<close>

definition yields :: "('a \<Rightarrow> bool) \<Rightarrow> 'a act \<Rightarrow> bool" where
  "yields Q m \<longleftrightarrow> (\<forall>s x s'. m s = Some (Inr x, s') \<longrightarrow> Q x)"

lemma yields_abind: "(\<And>x. yields Q (f x)) \<Longrightarrow> yields Q (abind m f)"
  by (auto simp: yields_def abind_Some)

lemma yields_end: "Q x \<Longrightarrow> yields Q (areturn x)" "yields Q (alift (Inl e))"
  by (auto simp: yields_def areturn_def alift_def)

lemma run_command_index: "yields (\<lambda>r. cr_index r = index) (run_command fuel R \<epsilon> s c index cleanup)"
  unfolding run_command_def
  by (intro yields_abind) (auto intro!: yields_abind yields_end split: spawn_try.splits option.splits prod.splits)

lemma spawned_more:
  assumes "rs_spawned s1 = rs_spawned s @ l" "l = [] \<or> l = [(i, c)]" "P \<or> c" "P' \<longrightarrow> P"
    and "\<exists>es. rs_spawned s' = rs_spawned s1 @ es \<and> subseq es E \<and> (P' \<or> list_all snd es)"
  shows "\<exists>es. rs_spawned s' = rs_spawned s @ es \<and> subseq es ((i, c) # E) \<and> (P \<or> list_all snd es)"
proof -
  from assms(5) obtain es where es: "rs_spawned s' = rs_spawned s1 @ es" "subseq es E" "P' \<or> list_all snd es" by blast
  from assms(1-4) es show ?thesis by (intro exI [of _ "l @ es"]) auto
qed

lemma spawned_none: "rs_spawned s' = rs_spawned s \<Longrightarrow> \<exists>es. rs_spawned s' = rs_spawned s @ es \<and> subseq es E \<and> (P \<or> list_all snd es)"
  by (intro exI [of _ "[]"]) simp


section \<open>Success and failure\<close>

definition succeeded :: "command_result \<Rightarrow> bool" where
  "succeeded r \<longleftrightarrow> json_eq (cr_exit r) (JInt 0) \<and> cr_reason r = ''completed'' \<and> cr_quiescent r"

lemma absorb_simps [simp]:
  "pr_outcome (absorb r p) = (if cr_reason r = ''cancelled'' then Cancelled
     else if \<not> json_eq (cr_exit r) (JInt 0) \<or> cr_reason r \<noteq> ''completed'' then Failed else pr_outcome p)"
  "pr_quiescent (absorb r p) = (pr_quiescent p \<and> cr_quiescent r)"
  "pr_results (absorb r p) = pr_results p" "pr_started (absorb r p) = pr_started p"
  "pr_outcome (recorded r p) = pr_outcome p" "pr_quiescent (recorded r p) = pr_quiescent p"
  "pr_results (recorded r p) = pr_results p @ [r]" "pr_started (recorded r p)"
  "pr_outcome (began p) = pr_outcome p" "pr_quiescent (began p) = pr_quiescent p" "pr_results (began p) = pr_results p"
  "pr_started (began p)"
  by (simp_all add: absorb_def recorded_def began_def)

lemma not_passed_stays:
  "run_commands fuel R \<epsilon> stage cs p s = Some (e, p', s') \<Longrightarrow> pr_outcome p \<noteq> Passed \<Longrightarrow> pr_outcome p' \<noteq> Passed"
proof (induction cs arbitrary: p s)
  case (Cons c cs)
  obtain index command cleanup where c: "c = (index, command, cleanup)" by (cases c)
  from Cons.prems(1) [unfolded c] show ?case
  proof (cases rule: run_commands_cases)
    case (continued row s1 r s2 u s3)
    have "pr_outcome (absorb r (recorded r p)) \<noteq> Passed" using Cons.prems(2) by simp
    from Cons.IH [OF continued(6) this] show ?thesis .
  next
    case (cancelled row s1)
    have "pr_outcome (p\<lparr>pr_outcome := Cancelled\<rparr>) \<noteq> Passed" by simp
    from Cons.IH [OF cancelled(4) this] show ?thesis .
  qed (use Cons.prems(2) Cons.IH in auto)
qed simp

lemma quiescent_shrinks:
  "run_commands fuel R \<epsilon> stage cs p s = Some (e, p', s') \<Longrightarrow> pr_quiescent p' \<Longrightarrow> pr_quiescent p"
proof (induction cs arbitrary: p s)
  case (Cons c cs)
  obtain index command cleanup where c: "c = (index, command, cleanup)" by (cases c)
  from Cons.prems(1) [unfolded c] show ?case
    using Cons.prems(2) by (cases rule: run_commands_cases) (auto dest: Cons.IH)
qed simp

lemma all_succeeded:
  assumes "run_commands fuel R \<epsilon> stage cs p s = Some (None, p', s')" "pr_outcome p' = Passed" "pr_quiescent p'"
  shows "\<exists>rs. pr_results p' = pr_results p @ rs \<and> map cr_index rs = map fst cs \<and> list_all succeeded rs"
  using assms
proof (induction cs arbitrary: p s)
  case (Cons c cs)
  obtain index command cleanup where c: "c = (index, command, cleanup)" by (cases c)
  from Cons.prems(1) [unfolded c] show ?case
  proof (cases rule: run_commands_cases)
    case skipped
    with not_passed_stays [OF skipped(3)] Cons.prems(2) show ?thesis by simp
  next
    case (cancelled row s1)
    with not_passed_stays [OF cancelled(4)] Cons.prems(2) show ?thesis by simp
  next
    case (continued row s1 r s2 u s3)
    have "pr_outcome (absorb r (recorded r p)) = Passed"
      using not_passed_stays [OF continued(6)] Cons.prems(2) by blast
    then have ok: "succeeded r" using continued(5) by (auto simp: succeeded_def split: if_splits)
    from Cons.IH [OF continued(6) Cons.prems(2,3)] obtain rs where
      "pr_results p' = pr_results p @ r # rs" "map cr_index rs = map fst cs" "list_all succeeded rs" by auto
    moreover have "cr_index r = index" using run_command_index [unfolded yields_def] continued(3) by blast
    ultimately show ?thesis using ok by (intro exI [of _ "r # rs"]) (simp add: c)
  qed (use Cons.prems in auto)
qed simp


lemma check_inputs_progress: "check_inputs R xs p s = Some (None, p', s') \<Longrightarrow> p' = p"
  by (induction xs arbitrary: s) (auto split: option.splits if_splits)

text \<open>C24: A stage that is completed with the outcome passed and quiescent has run every command it plans, the cleanup
  commands included, in order, and each of them exited with status zero and left nothing running.\<close>

theorem passed_means_every_command_succeeded:
  assumes "stage_end fuel R \<epsilon> stage plan s = Some (Inr p, s')" "pr_outcome p = Passed" "pr_quiescent p"
  shows "\<exists>cmds. planned stage = Inr cmds \<and> map cr_index (pr_results p) = map fst cmds \<and> list_all succeeded (pr_results p)"
proof -
  from assms have body: "stage_body fuel R \<epsilon> stage plan initial_progress s = Some (None, p, s')"
    by (auto simp: stage_end_def conclude_def split: option.splits if_splits)
  then obtain manifest cmds p1 s1 where c: "check_inputs R manifest initial_progress s = Some (None, p1, s1)"
    and cmds: "planned stage = Inr cmds" and r: "run_commands fuel R \<epsilon> stage cmds p1 s1 = Some (None, p, s')"
    by (auto simp: stage_body_def bseq_def split: sum.splits option.splits)
  from all_succeeded [OF r assms(2,3)] check_inputs_progress [OF c] cmds show ?thesis by (auto simp: initial_progress_def)
qed

section \<open>What is released, and that the completion is accepted\<close>

lemma list_ex_json_eq_trans: "json_eq g h \<Longrightarrow> list_ex (json_eq g) xs = list_ex (json_eq h) xs"
  by (auto simp: list_ex_iff intro: json_eq_trans dest: json_eq_sym)

lemma coupled_release_Inr:
  assumes "coupled_release reg owned freed = Inr out"
  shows "set out \<subseteq> set freed"
    "\<And>x. x \<in> set freed \<Longrightarrow> \<exists>g. registry_group reg x = Inr g \<and> hashable g"
    "\<And>x g y h. x \<in> set owned \<Longrightarrow> x \<notin> set out \<Longrightarrow> registry_group reg x = Inr g \<Longrightarrow> truthy g \<Longrightarrow>
       y \<in> set out \<Longrightarrow> registry_group reg y = Inr h \<Longrightarrow> \<not> json_eq g h"
proof -
  from assms obtain groups marked where u: "unsafe_groups reg owned freed = Inr groups"
    and m: "emap (\<lambda>leaf. ebind (registry_group reg leaf) (\<lambda>g.
              if hashable g then Inr (leaf, list_ex (json_eq g) groups) else Inl TypeError)) freed = Inr marked"
    and out: "out = map fst (filter (\<lambda>m. \<not> snd m) marked)"
    by (auto simp: coupled_release_def ebind_Inr_iff)
  from emap_Inr_set [OF m] have marked: "m \<in> set marked \<Longrightarrow> fst m \<in> set freed \<and>
      (\<exists>g. registry_group reg (fst m) = Inr g \<and> hashable g \<and> snd m = list_ex (json_eq g) groups)" for m
    by (fastforce simp: ebind_Inr_iff split: if_splits)
  from emap_Inr_in [OF m] have freed: "x \<in> set freed \<Longrightarrow>
      \<exists>g. registry_group reg x = Inr g \<and> hashable g \<and> (x, list_ex (json_eq g) groups) \<in> set marked" for x
    by (fastforce simp: ebind_Inr_iff split: if_splits)
  have mem: "x \<in> set out \<longleftrightarrow> (\<exists>g. registry_group reg x = Inr g \<and> x \<in> set freed \<and> \<not> list_ex (json_eq g) groups)" for x
  proof
    assume "x \<in> set out"
    then obtain m where "m \<in> set marked" "fst m = x" "\<not> snd m" by (auto simp: out)
    with marked [OF this(1)] show "\<exists>g. registry_group reg x = Inr g \<and> x \<in> set freed \<and> \<not> list_ex (json_eq g) groups" by auto
  next
    assume "\<exists>g. registry_group reg x = Inr g \<and> x \<in> set freed \<and> \<not> list_ex (json_eq g) groups"
    then obtain g where "registry_group reg x = Inr g" "x \<in> set freed" "\<not> list_ex (json_eq g) groups" by blast
    with freed [OF this(2)] have "(x, False) \<in> set marked" by auto
    then show "x \<in> set out" by (force simp: out)
  qed
  from u obtain gs where gs: "emap (registry_group reg) (filter (\<lambda>leaf. leaf \<notin> set freed) owned) = Inr gs"
    and groups: "emap (\<lambda>g. if hashable g then Inr g else Inl TypeError) (filter truthy gs) = Inr groups"
    by (auto simp: unsafe_groups_def ebind_Inr_iff)
  have eq: "groups = filter truthy gs"
    using groups by (induction "filter truthy gs" arbitrary: groups gs) (auto simp: ebind_Inr_iff emap_Inr_iff list_all2_conv_all_nth split: if_splits intro!: nth_equalityI)
  show "set out \<subseteq> set freed" using mem by blast
  show "\<exists>g. registry_group reg x = Inr g \<and> hashable g" if "x \<in> set freed" for x using freed [OF that] by blast
  show "\<not> json_eq g h" if x: "x \<in> set owned" "x \<notin> set out" "registry_group reg x = Inr g" "truthy g"
    and y: "y \<in> set out" "registry_group reg y = Inr h" for x g y h
  proof
    assume gh: "json_eq g h"
    have "list_ex (json_eq g) groups"
    proof (cases "x \<in> set freed")
      case True
      with x mem show ?thesis by auto
    next
      case False
      with x have "x \<in> set (filter (\<lambda>leaf. leaf \<notin> set freed) owned)" by simp
      from emap_Inr_in [OF gs this] x have "g \<in> set groups" by (auto simp: eq)
      then show ?thesis unfolding list_ex_iff by (intro bexI [of _ g]) simp_all
    qed
    with y mem list_ex_json_eq_trans [OF gh] show False by auto
  qed
qed


lemma total_run: "m L = Inr (x, L') \<Longrightarrow> \<exists>y L''. f x L' = Inr (y, L'') \<Longrightarrow> \<exists>y L''. obind m f L = Inr (y, L'')"
  by (simp add: obind_def)

lemma outcome_subscriber_total: "\<exists>L'. outcome_subscriber \<epsilon> rq rid stages sub L = Inr ((), L')"
  by (simp add: outcome_subscriber_def obind_def oget_def insert_history_def olift_def omodify_def oreturn_def Let_def split: option.split)

lemma ofor_subscribers_total: "\<exists>xs L'. ofor (outcome_subscriber \<epsilon> rq rid stages) subs L = Inr (xs, L')"
proof (induction subs arbitrary: L)
  case (Cons sub subs)
  from outcome_subscriber_total obtain L1 where "outcome_subscriber \<epsilon> rq rid stages sub L = Inr ((), L1)" by blast
  with Cons [of L1] show ?case by (auto simp: obind_def oreturn_def)
qed (simp add: oreturn_def)

lemma outcomes_total:
  assumes "rid \<in> rq_id ` set (requests L)"
  shows "\<exists>L'. outcomes \<epsilon> [rid] L = Inr ((), L')"
proof -
  from assms have "find_request rid (requests L) \<noteq> None"
    by (auto simp: find_request_def find_None_iff)
  then obtain rq where rq: "get_request rid L = Inr (rq, L)" by (auto simp: get_request_def)
  from ofor_subscribers_total obtain xs L1 where
    "ofor (outcome_subscriber \<epsilon> rq rid (stages_of rid L)) (rq_subscribers rq) L = Inr (xs, L1)" by blast
  then have "\<exists>L'. outcomes_of \<epsilon> rid L = Inr ((), L')"
    by (cases "outcome_due (stages_of rid L)") (auto simp: outcomes_of_def obind_def oget_def oreturn_def rq)
  then show ?thesis by (auto simp: outcomes_def obind_def oreturn_def)
qed

lemma save_total: "\<exists>r L'. save \<epsilon> s L = Inr (r, L')"
  by (simp add: save_def obind_def oget_def now_def log_event_def omodify_def oreturn_def Let_def split: option.split)

text \<open>A completion succeeds when it comes from the owner and releases whole recovery groups.\<close>

lemma finish_total:
  assumes ok: "ledger_ok \<epsilon> L" and row: "find_stage i (stage_rows L) = Some s"
    and own: "st_epoch s = n" "owning (st_state s)" "terminal oc" "set freed \<subseteq> set (keys (st_allocation s))"
    and groups: "released_groups (registry L) freed = Inr gs"
      "eany (splits_group (registry L) gs freed) (keys (st_allocation s)) = Inr False"
  shows "\<exists>L'. finish \<epsilon> i n oc freed v L = Inr ((), L')"
proof -
  let ?rest = "filter (\<lambda>kv. fst kv \<notin> set freed) (st_allocation s)"
  let ?t = "clock \<epsilon> (clock_reads L)"
  let ?s = "s\<lparr>st_state := (if ?rest \<noteq> [] then Recovery_Required else oc), st_outcome := Some oc, st_allocation := ?rest,
     st_evidence := v, st_finished_at := Some ?t, st_launch_token := None, st_maintenance_token := None\<rparr>"
  let ?L1 = "L\<lparr>clock_reads := Suc (clock_reads L)\<rparr>"
  from save_total obtain r L2 where save: "save \<epsilon> ?s ?L1 = Inr (r, L2)" by blast
  let ?L3 = "L2\<lparr>released := sort (dedup (released L2 @ freed))\<rparr>"
  obtain L4 where log: "log_event \<epsilon> i (Finished_Event oc freed v) ?L3 = Inr ((), L4)"
    by (simp add: log_event_def obind_def now_def omodify_def)
  from save obtain L5 where L2: "requests L5 = requests ?L1" "L2 = L5\<lparr>stage_rows := upsert_stage r (stage_rows ?L1)\<rparr>"
    by (rule save_Inr)
  have "requests L4 = requests L"
    using log L2 by (auto simp: log_event_def obind_def now_def omodify_def)
  moreover have "st_request s \<in> rq_id ` set (requests L)" using ok find_stageD [OF row] by (auto simp: ledger_ok_def)
  ultimately obtain L6 where out: "outcomes \<epsilon> [st_request s] L4 = Inr ((), L6)" using outcomes_total by metis
  have "finish_stage \<epsilon> i n oc freed v L = Inr ((), L6)"
    using own save log out groups
    by (simp add: finish_stage_def obind_def get_stage_def row olift_def raise_if_def oget_def now_def omodify_def
        list_all_iff subset_iff Let_def del: filter_empty_conv)
  then show ?thesis using own(3) by (simp add: finish_def obind_def olift_def raise_if_def)
qed



lemma probe_leaves_justified:
  assumes "probe_leaves fuel R \<epsilon> stage reg started leaves freed s = Some (Inr out, s')"
  shows "\<exists>new. out = freed @ new \<and> set new \<subseteq> set leaves \<and>
     (\<forall>x\<in>set new. \<exists>e. map_of reg x = Some e \<and> (\<not> started \<or> get (entry_fields e) ''release'' = JStr ''process''
        \<or> (\<exists>t t' r. run_command fuel R \<epsilon> stage (get (entry_fields e) ''probe'') (- 1) True t = Some (Inr r, t') \<and> probe_passed r)))"
  using assms
proof (induction leaves arbitrary: freed s)
  case Nil
  then show ?case by (simp add: areturn_def)
next
  case (Cons leaf leaves)
  let ?probe = "\<lambda>e. abind (alift (subscript (JObj (entry_fields e)) ''probe'')) (\<lambda>probe.
           abind (run_command fuel R \<epsilon> stage probe (- 1) True) (\<lambda>r. areturn (probe_passed r)))"
  let ?justified = "\<lambda>x. \<exists>e. map_of reg x = Some e \<and> (\<not> started \<or> get (entry_fields e) ''release'' = JStr ''process''
        \<or> (\<exists>t t' r. run_command fuel R \<epsilon> stage (get (entry_fields e) ''probe'') (- 1) True t = Some (Inr r, t') \<and> probe_passed r))"
  from Cons.prems obtain e where e: "map_of reg leaf = Some e"
    by (auto simp: abind_Some alift_def leaf_of_def split: option.splits)
  consider (plain) s1 where "?justified leaf" "probe_leaves fuel R \<epsilon> stage reg started leaves (freed @ [leaf]) s1 = Some (Inr out, s')"
    | (failed) s1 where "probe_leaves fuel R \<epsilon> stage reg started leaves freed s1 = Some (Inr out, s')"
  proof -
    from Cons.prems e obtain plain s1 where
      p: "(if \<not> started then areturn True else abind (alift (subscript (JObj (entry_fields e)) ''release'')) (\<lambda>rel. areturn (rel = JStr ''process''))) s
            = Some (Inr plain, s1)"
      and rest: "(if plain then probe_leaves fuel R \<epsilon> stage reg started leaves (freed @ [leaf])
         else abind (acatch (?probe e) (\<lambda>e. case e of OsError _ \<Rightarrow> Some (areturn False) | ResourceError _ \<Rightarrow> Some (areturn False) | _ \<Rightarrow> None))
           (\<lambda>ok. probe_leaves fuel R \<epsilon> stage reg started leaves (if ok then freed @ [leaf] else freed))) s1 = Some (Inr out, s')"
      by (auto simp: abind_Some alift_def leaf_of_def simp del: subscript.simps)
    show thesis
    proof (cases plain)
      case True
      with p have "\<not> started \<or> get (entry_fields e) ''release'' = JStr ''process''"
        by (auto simp: abind_Some alift_def areturn_def simp del: subscript.simps split: if_splits dest!: subscript_get)
      with that(1) e rest True show ?thesis by auto
    next
      case False
      with rest obtain ok s2 where c: "acatch (?probe e) (\<lambda>e. case e of OsError _ \<Rightarrow> Some (areturn False) | ResourceError _ \<Rightarrow> Some (areturn False) | _ \<Rightarrow> None) s1
            = Some (Inr ok, s2)"
        and n: "probe_leaves fuel R \<epsilon> stage reg started leaves (if ok then freed @ [leaf] else freed) s2 = Some (Inr out, s')"
        by (auto simp: abind_Some)
      show ?thesis
      proof (cases ok)
        case True
        with c have "?probe e s1 = Some (Inr True, s2)"
          by (auto simp: acatch_Some areturn_def split: option.splits err.splits)
        then obtain r t where "run_command fuel R \<epsilon> stage (get (entry_fields e) ''probe'') (- 1) True s1 = Some (Inr r, t)" "probe_passed r"
          by (auto simp: abind_Some alift_def areturn_def simp del: subscript.simps dest!: subscript_get)
        with that(1) e n True show ?thesis by auto
      next
        case False
        with that(2) n show ?thesis by auto
      qed
    qed
  qed
  then show ?case
  proof cases
    case plain
    from Cons.IH [OF plain(2)] obtain new where "out = freed @ leaf # new" "set new \<subseteq> set leaves" "\<forall>x\<in>set new. ?justified x" by auto
    with plain(1) show ?thesis by (intro exI [of _ "leaf # new"]) auto
  next
    case failed
    from Cons.IH [OF failed] show ?thesis by auto
  qed
qed


section \<open>Supervision ends\<close>

text \<open>An action that polls returns when some fuel, and then every larger one, gives its result.\<close>

definition returns :: "(nat \<Rightarrow> 'a act) \<Rightarrow> run_state \<Rightarrow> bool" where
  "returns m s \<longleftrightarrow> (\<exists>f r. \<forall>f'\<ge>f. m f' s = Some r)"

named_theorems returns_intros

lemma returns_const: "(\<And>f. m f = n) \<Longrightarrow> n s \<noteq> None \<Longrightarrow> returns m s"
  by (auto simp: returns_def)

lemma returns_pure [returns_intros]:
  "returns (\<lambda>f. areturn x) s" "returns (\<lambda>f. alift e) s" "returns (\<lambda>f. observe g) s" "returns (\<lambda>f. transact R m) s"
  "returns (\<lambda>f. spawning i c) s"
  by (rule returns_const, rule refl, simp add: areturn_def alift_def observe_def spawning_def,
      (use transact_total [of R m s] in auto)?)+

lemma returns_abind:
  assumes "returns m s" "\<And>f x s'. m f s = Some (Inr x, s') \<Longrightarrow> returns (\<lambda>f. k f x) s'"
  shows "returns (\<lambda>f. abind (m f) (k f)) s"
proof -
  from assms(1) obtain f r where m: "\<And>f'. f \<le> f' \<Longrightarrow> m f' s = Some r" by (auto simp: returns_def)
  obtain v s' where r: "r = (v, s')" by (cases r)
  show ?thesis
  proof (cases v)
    case (Inl e)
    then have "\<forall>f'\<ge>f. abind (m f') (k f') s = Some (Inl e, s')" using m by (auto simp: abind_def r)
    then show ?thesis unfolding returns_def by blast
  next
    case (Inr x)
    from assms(2) [of f x s'] m [of f] obtain g q where k: "\<And>f'. g \<le> f' \<Longrightarrow> k f' x s' = Some q" by (auto simp: returns_def r Inr)
    have "\<forall>f'\<ge>max f g. abind (m f') (k f') s = Some q" using m k by (auto simp: abind_def r Inr)
    then show ?thesis unfolding returns_def by blast
  qed
qed

lemma returns_if [returns_intros]: "(b \<Longrightarrow> returns m s) \<Longrightarrow> (\<not> b \<Longrightarrow> returns n s) \<Longrightarrow> returns (\<lambda>f. if b then m f else n f) s"
  by (cases b) simp_all

lemma returns_bind [returns_intros]: "returns m s \<Longrightarrow> (\<And>x s'. returns (\<lambda>f. k f x) s') \<Longrightarrow> returns (\<lambda>f. abind (m f) (k f)) s"
  by (rule returns_abind)

lemma returns_afinally [returns_intros]:
  assumes "returns m s" "\<And>s'. returns k s'"
  shows "returns (\<lambda>f. afinally (m f) (k f)) s"
proof -
  from assms(1) obtain f r where m: "\<And>f'. f \<le> f' \<Longrightarrow> m f' s = Some r" by (auto simp: returns_def)
  obtain v s' where r: "r = (v, s')" by (cases r)
  from assms(2) [of s'] obtain g q where k: "\<And>f'. g \<le> f' \<Longrightarrow> k f' s' = Some q" by (auto simp: returns_def)
  have eq: "\<forall>f'\<ge>max f g. afinally (m f') (k f') s = (case Some q of
      None \<Rightarrow> None | Some (Inl e, s'') \<Rightarrow> Some (Inl e, s'')
    | Some (Inr y, s'') \<Rightarrow> Some (case v of Inl e \<Rightarrow> Inl e | Inr x \<Rightarrow> Inr (x, y), s''))"
    using m k by (auto simp: afinally_def r)
  obtain u s'' where "q = (u, s'')" by (cases q)
  then show ?thesis unfolding returns_def
    using eq by (cases u; intro exI [of _ "max f g"]) auto
qed

lemma returns_option [returns_intros]:
  "returns n s \<Longrightarrow> (\<And>y. returns (\<lambda>f. m f y) s) \<Longrightarrow> returns (\<lambda>f. case x of None \<Rightarrow> n f | Some y \<Rightarrow> m f y) s"
  by (cases x) simp_all

lemma returns_prod [returns_intros]: "(\<And>y z. returns (\<lambda>f. m f y z) s) \<Longrightarrow> returns (\<lambda>f. case x of (y, z) \<Rightarrow> m f y z) s"
  by (cases x) simp

lemma returns_spawn_try [returns_intros]:
  "(\<And>e. returns (\<lambda>f. m f e) s) \<Longrightarrow> (\<And>e. returns (\<lambda>f. n f e) s) \<Longrightarrow> (\<And>pid. returns (\<lambda>f. k f pid) s) \<Longrightarrow>
   returns (\<lambda>f. case x of Missing_Program e \<Rightarrow> m f e | Spawn_Failure e \<Rightarrow> n f e | Child pid \<Rightarrow> k f pid) s"
  by (cases x) simp_all

lemma returns_Suc: "returns (\<lambda>f. m (Suc f)) s \<Longrightarrow> returns m s"
proof -
  assume "returns (\<lambda>f. m (Suc f)) s"
  then obtain f r where m: "\<forall>f'\<ge>f. m (Suc f') s = Some r" by (auto simp: returns_def)
  have "m f' s = Some r" if "Suc f \<le> f'" for f' using that m by (cases f') auto
  then show ?thesis unfolding returns_def by blast
qed

text \<open>The clock passes every bound and the timeout is a number.\<close>

definition timed :: "json \<Rightarrow> bool" where
  "timed t \<longleftrightarrow> (case t of JInt _ \<Rightarrow> True | JReal _ \<Rightarrow> True | JBool _ \<Rightarrow> True | _ \<Rightarrow> False)"

definition clock_advances :: "runner_host \<Rightarrow> bool" where
  "clock_advances R \<longleftrightarrow> (\<forall>b. \<exists>n. \<forall>m\<ge>n. b \<le> rn_clock R m)"

lemma transact_tick: "transact R m s = Some (q, s') \<Longrightarrow> rs_tick s' = Suc (rs_tick s)"
  by (auto simp: transact_def Let_def split: sum.splits)

lemma observe_eq: "observe f s = Some (Inr (f (rs_tick s)), s\<lparr>rs_tick := Suc (rs_tick s)\<rparr>)"
  by (simp add: observe_def)

lemma supervise_ends:
  assumes late: "\<And>m. n \<le> m \<Longrightarrow> overdue timeout start (rn_clock R m) = Inr True" and t: "timeout \<noteq> JNull"
  shows "returns (\<lambda>f. supervise f R sid cleanup timeout start) s"
proof (induction "n - rs_tick s" arbitrary: s rule: less_induct)
  case less
  have again: "returns (\<lambda>f. supervise f R sid cleanup timeout start) s'" if "rs_tick s < rs_tick s'" "\<not> n \<le> rs_tick s" for s'
    by (rule less) (use that in linarith)
  show ?case
  proof (rule returns_Suc, unfold supervise.simps, intro returns_abind returns_if returns_pure)
    fix exited row late' s1 s2 s3 s4 u
    assume o1: "observe (rn_exited R) s = Some (Inr exited, s1)" and o2: "transact R (get_stage sid) s1 = Some (Inr row, s2)"
      and o3: "observe (rn_clock R) s2 = Some (Inr u, s3)" and o4: "alift (overdue timeout start u) s3 = Some (Inr late', s4)"
      and not_late: "\<not> late'"
    from o1 o2 o3 o4 have ticks: "rs_tick s < rs_tick s4" and u: "u = rn_clock R (rs_tick s2)" "rs_tick s \<le> rs_tick s2"
      by (auto simp: observe_def alift_def dest: transact_tick)
    from not_late late [of "rs_tick s2"] o4 u(1) have "\<not> n \<le> rs_tick s2" by (auto simp: alift_def)
    with u(2) again ticks show "returns (\<lambda>f. supervise f R sid cleanup timeout start) s4" by simp
  qed (use t in simp)
qed

lemma overdue_eventually:
  assumes "clock_advances R" "timed timeout"
  obtains n where "\<And>m. n \<le> m \<Longrightarrow> overdue timeout start (rn_clock R m) = Inr True"
proof -
  obtain b where b: "overdue timeout start t = Inr (b \<le> t - start)" for t
    using assms(2) by (cases timeout) (auto simp: timed_def overdue_def)
  from assms(1) obtain n where "\<And>m. n \<le> m \<Longrightarrow> b + start \<le> rn_clock R m" by (auto simp: clock_advances_def)
  with b have "n \<le> m \<Longrightarrow> overdue timeout start (rn_clock R m) = Inr True" for m by (simp add: le_diff_eq)
  then show thesis by (rule that)
qed

lemma abind_lifted: "abind (alift (Inr x)) f = f x"
  by (simp add: abind_def alift_def)

lemma run_command_returns:
  assumes "clock_advances R" "timed (get command ''timeout_seconds'')"
  shows "returns (\<lambda>f. run_command f R \<epsilon> stage (JObj command) index cleanup) s"
proof -
  have sup: "returns (\<lambda>f. supervise f R sid cl (get command ''timeout_seconds'') start) s" for sid cl start s
  proof -
    obtain n where n: "\<And>m. n \<le> m \<Longrightarrow> overdue (get command ''timeout_seconds'') start (rn_clock R m) = Inr True"
      using overdue_eventually [OF assms] by blast
    have "get command ''timeout_seconds'' \<noteq> JNull" using assms(2) by (auto simp: timed_def)
    with n show ?thesis by (rule supervise_ends)
  qed
  have watched: "returns (\<lambda>f. watched f R \<epsilon> stage command index cleanup pid start) s" for pid start s
    unfolding watched_def by (intro returns_intros sup)
  have prepare: "returns (\<lambda>f. prepare_command R \<epsilon> stage command cleanup) s" for command s
    unfolding prepare_command_def typed_input_def by (intro returns_intros)
  show ?thesis
    unfolding run_command_def attribute_dict.simps abind_lifted
    by (intro returns_intros prepare watched)
qed

text \<open>C28: On a machine whose clock keeps advancing, the commands of a stage come to an end when each of them has a
  timeout: with enough polls, and with every larger number, the run of the commands has a result.\<close>

theorem timed_commands_return:
  assumes clock: "clock_advances R"
    and timed: "\<forall>(i, command, cleanup)\<in>set cmds. \<exists>c. command = JObj c \<and> timed (get c ''timeout_seconds'')"
  shows "\<exists>polls e p' s'. \<forall>fuel\<ge>polls. run_commands fuel R \<epsilon> stage cmds p s = Some (e, p', s')"
  using timed
proof (induction cmds arbitrary: p s)
  case (Cons c cmds)
  obtain index command cleanup where c: "c = (index, command, cleanup)" by (cases c)
  have IH: "\<exists>polls v. \<forall>fuel\<ge>polls. run_commands fuel R \<epsilon> stage cmds p s = Some v" for p s
    using Cons.IH [of p s] Cons.prems by auto
  have "returns (\<lambda>f. run_command f R \<epsilon> stage command index cleanup) s'" for s'
    using Cons.prems run_command_returns [OF clock] by (auto simp: c)
  then have cmd: "\<exists>polls v. \<forall>fuel\<ge>polls. run_command fuel R \<epsilon> stage command index cleanup s' = Some v" for s'
    by (simp add: returns_def)
  obtain row s1 where row: "transact R (get_stage (st_id stage)) s = Some (row, s1)" using transact_total by metis
  have done_at: "\<exists>polls v. \<forall>fuel\<ge>polls. run_commands fuel R \<epsilon> stage (c # cmds) p s = Some v" 
    if "\<And>fuel. polls \<le> fuel \<Longrightarrow> run_commands fuel R \<epsilon> stage (c # cmds) p s = Some v" for polls v using that by blast
  have "\<exists>polls v. \<forall>fuel\<ge>polls. run_commands fuel R \<epsilon> stage (c # cmds) p s = Some v"
  proof (cases "pr_outcome p \<noteq> Passed \<and> \<not> cleanup")
    case True
    with IH [of p s] show ?thesis by (auto simp: c)
  next
    case False
    note skip = if_not_P [OF False]
    show ?thesis
    proof (cases row)
      case (Inl x)
      then show ?thesis by (simp only: c run_commands.simps skip row option.case prod.case sum.case) auto
    next
      case (Inr r)
      note row = row [unfolded Inr]
      show ?thesis
      proof (cases "st_cancel_requested r \<and> \<not> cleanup")
        case True
        have eq: "run_commands fuel R \<epsilon> stage (c # cmds) p s = run_commands fuel R \<epsilon> stage cmds (p\<lparr>pr_outcome := Cancelled\<rparr>) s1" for fuel
          by (simp only: c run_commands.simps skip row option.case prod.case sum.case if_P [OF True])
        show ?thesis unfolding eq by (rule IH)
      next
        case False
        note go = if_not_P [OF False]
        from cmd obtain n q where q: "\<And>fuel. n \<le> fuel \<Longrightarrow> run_command fuel R \<epsilon> stage command index cleanup s1 = Some q" by blast
        obtain v s2 where v: "q = (v, s2)" by (cases q)
        note unfolds = c run_commands.simps skip row go option.case prod.case sum.case q v
        show ?thesis
        proof (cases v)
          case (Inl x)
          show ?thesis by (rule done_at [of n]) (simp only: unfolds Inl)
        next
          case v: (Inr cr)
          obtain w s3 where w: "transact R (annotate \<epsilon> (st_id stage) (st_epoch stage)
              [(''results'', JList (map result_json (pr_results p @ [cr])))]) s2 = Some (w, s3)" using transact_total by metis
          from IH obtain m z where z: "\<And>fuel. m \<le> fuel \<Longrightarrow> run_commands fuel R \<epsilon> stage cmds (absorb cr (recorded cr p)) s3 = Some z" by blast
          show ?thesis
          proof (cases w)
            case (Inl x)
            show ?thesis by (rule done_at [of n]) (simp only: unfolds v w Inl)
          next
            case (Inr u)
            show ?thesis
              by (rule done_at [of "max n m" "if \<not> pr_quiescent (absorb cr (recorded cr p)) then (None, absorb cr (recorded cr p), s3) else z"])
                (simp only: unfolds v w Inr, simp add: z del: absorb_simps)
          qed
        qed
      qed
    qed
  qed
  then show ?case by (metis prod_cases3)
qed simp

section \<open>A concrete execution\<close>

text \<open>One request of one stage with two commands and a cleanup command, run on a machine whose commands exit with a
  given status and leave a given process group behind.\<close>

definition demo_command :: json where
  "demo_command = JObj [(''argv'', JList [JStr ''x'']), (''timeout_seconds'', JInt 5)]"

definition demo_job_plan :: fields where
  "demo_job_plan = [(''workspace'', JStr ''/w/s''), (''input_manifest'', JObj []), (''recipe_digest'', JStr ''d''),
     (''stages'', JList [JObj [(''id'', JStr ''a''), (''needs'', JList [JObj [(''resource'', JStr ''gpu'')]]),
        (''commands'', JList [demo_command, demo_command]), (''cleanup'', JList [demo_command])]])]"

definition demo_runner :: "liveness \<Rightarrow> json \<Rightarrow> runner_host" where
  "demo_runner g code = \<lparr>rn_host = demo_host\<lparr>read_stat := \<lambda>_ _. Stat_Text ''7 (a) b) S 1 7 0 0 0 0 0 0 0 0 0 0 0 0 0 0 0 0 42 0''\<rparr>, rn_pid = 1, rn_others = (\<lambda>_ L. L),
     rn_config = [(''projects'', JObj [(''p'', JObj [(''root'', JStr ''/w'')])])], rn_windows = False,
     rn_spawn = (\<lambda>_. Child 7), rn_group = (\<lambda>_. Some 7), rn_exited = (\<lambda>_. True), rn_clock = of_nat, rn_stopped = (\<lambda>_. True),
     rn_group_state = (\<lambda>_. g), rn_exit_code = (\<lambda>_. code), rn_input = (\<lambda>_ _. None), rn_files = (\<lambda>_ _. None),
     rn_cwd_inside = (\<lambda>_. True), rn_result = (\<lambda>_. undefined), rn_write = (\<lambda>_. Inr ()), rn_evidence = (\<lambda>_. Inr (''e'', ''d''))\<rparr>"

definition demo_start :: "ledger \<Rightarrow> run_state" where
  "demo_start L = \<lparr>rs_ledger = L, rs_tick = 0, rs_spawned = []\<rparr>"



definition demo_job_stages :: "json list" where
  "demo_job_stages = [JObj [(''id'', JStr ''a''), (''needs'', JList [JObj [(''resource'', JStr ''gpu'')]]),
        (''commands'', JList [demo_command, demo_command]), (''cleanup'', JList [demo_command])]]"

lemma demo_job_plan_stages: "plan_stages demo_job_plan = Inr (demo_job_stages, [''a''])"
  by code_simp

lemma demo_job_check: "check_definition demo_leaves [''a''] (hd demo_job_stages) = Inr ()"
  by (simp add: demo_job_stages_def check_definition_def after_set_def search_eval demo_leaves_def cong: ebind_weak_cong)


definition demo_job_waiting :: stage where
  "demo_job_waiting = (hd (stage_rows demo_submitted))\<lparr>st_after := JList [],
     st_extra := [(''commands'', JList [demo_command, demo_command]), (''cleanup'', JList [demo_command])]\<rparr>"

definition demo_job_submitted :: ledger where
  "demo_job_submitted = \<lparr>registry = demo_leaves, released = [], sequence = 1, authority = ''u'',
     requests = [\<lparr>rq_id = ''uu'', rq_project = ''p'', rq_external = ''e'', rq_plan = demo_job_plan, rq_subscribers = [], rq_created_at = 1\<rparr>],
     stage_rows = [demo_job_waiting],
     event_log =
      [\<lparr>ev_at = 0, ev_subject = ''registry'', ev_kind = Configured_Event ''d''\<rparr>,
       \<lparr>ev_at = 4, ev_subject = ''uuu'', ev_kind = State_Changed Waiting (Some ''dependency_wait'')\<rparr>,
       \<lparr>ev_at = 5, ev_subject = ''uu'', ev_kind = Submitted_Event ''p'' ''e''\<rparr>],
     outbox = [], history = [], clock_reads = 6, uuid_draws = 3, secret_draws = 0\<rparr>"

lemma demo_job_submit: "submit demo_env (JStr ''p'') (JStr ''e'') demo_job_plan None demo_configured = Inr (''uu'', demo_job_submitted)"
  by (simp add: submit_def create_request_def demo_job_plan_stages find_external_def demo_job_check [unfolded demo_job_stages_def list.sel]
      demo_configured_def demo_job_submitted_def demo_job_waiting_def demo_submitted_def
      demo_env_def insert_request_def find_request_def demo_job_stages_def add_stage_def save_def new_stage_def stage_keys_def run_eval
      cong: obind_weak_cong)

definition demo_job_granted_stage :: stage where
  "demo_job_granted_stage = (hd (stage_rows demo_granted))\<lparr>
     st_ready_at := Some 6, st_ready_seq := Some 2, st_granted_at := Some 8, st_wait_seconds := [(''dependency_wait'', Some 6)],
     st_transition_at := Some 9,
     st_extra := [(''commands'', JList [demo_command, demo_command]), (''cleanup'', JList [demo_command])]\<rparr>"

definition demo_job_granted :: ledger where
  "demo_job_granted = demo_job_submitted\<lparr>sequence := 2, stage_rows := [demo_job_granted_stage],
     event_log := event_log demo_job_submitted @
      [\<lparr>ev_at = 7, ev_subject = ''uuu'', ev_kind = Ready_Event\<rparr>,
       \<lparr>ev_at = 10, ev_subject = ''uuu'', ev_kind = State_Changed Granted None\<rparr>,
       \<lparr>ev_at = 11, ev_subject = ''uuu'',
          ev_kind = Granted_Event [(''gpu'', \<lparr>claim_mode = Exclusive, claim_units = 1, claim_group = JNull\<rparr>)] 1 [(''gpu'', 1)]\<rparr>],
     clock_reads := 12, secret_draws := 2\<rparr>"

lemma demo_job_schedule: "\<exists>gs. schedule demo_env [] demo_job_submitted = Inr (gs, demo_job_granted)"
  by (simp add: schedule_eval search_eval demo_job_submitted_def demo_job_granted_def demo_job_granted_stage_def demo_granted_def demo_job_waiting_def
      demo_submitted_def demo_leaves_def demo_env_def run_eval keys_def
      cong: obind_weak_cong ebind_weak_cong)

definition demo_job_stage :: stage where
  "demo_job_stage = demo_job_granted_stage\<lparr>st_state := Launching, st_supervisor := demo_identity, st_transition_at := Some 12\<rparr>"

definition demo_job :: ledger where
  "demo_job = demo_job_granted\<lparr>stage_rows := [demo_job_stage],
     event_log := event_log demo_job_granted @ [\<lparr>ev_at = 13, ev_subject = ''uuu'', ev_kind = State_Changed Launching None\<rparr>],
     clock_reads := 14\<rparr>"

lemma demo_job_attach: "attach demo_env ''uuu'' 1 demo_identity demo_job_granted = Inr ((), demo_job)"
  by (simp add: attach_def get_stage_def save_def demo_job_granted_def demo_job_granted_stage_def demo_job_def demo_job_stage_def
      demo_job_submitted_def demo_granted_def demo_env_def run_eval book_wait_def cong: obind_weak_cong)

lemma abind_weak_cong: "s = s' \<Longrightarrow> abind m f s = abind m f s'"
  by simp

lemma runner_eval:
  "m s = Some (Inr x, s') \<Longrightarrow> abind m f s = f x s'"
  "m s = Some (Inl e, s') \<Longrightarrow> abind m f s = Some (Inl e, s')"
  "n s = Some (Inr False, s') \<Longrightarrow> abind n g s = g False s'"
  "areturn x s = Some (Inr x, s)" "alift r s = Some (r, s)"
  by (simp_all add: abind_def areturn_def alift_def)

lemma transact_eval:
  "m (rn_others R (rs_tick s) (rs_ledger s)) = Inr (y, L) \<Longrightarrow>
     transact R m s = Some (Inr y, s\<lparr>rs_tick := Suc (rs_tick s), rs_ledger := L\<rparr>)"
  by (simp add: transact_def Let_def)

lemmas command_eval = runner_eval transact_eval run_command_def prepare_command_def typed_input_def watched_def observe_def spawning_def
  phase_capability_def attach_def get_stage_def save_def run_eval annotate_def afinally_def


definition demo_identity_of :: fields where
  "demo_identity_of = the (process_identity (rn_host (demo_runner Gone JNull)) 0 (JInt 7))"

lemma demo_runner_simps:
  "rn_pid (demo_runner g c) = 1" "rn_others (demo_runner g c) n L = L"
  "rn_config (demo_runner g c) = [(''projects'', JObj [(''p'', JObj [(''root'', JStr ''/w'')])])]" "\<not> rn_windows (demo_runner g c)"
  "rn_spawn (demo_runner g c) n = Child 7" "rn_group (demo_runner g c) n = Some 7" "rn_exited (demo_runner g c) n"
  "rn_clock (demo_runner g c) n = of_nat n" "rn_stopped (demo_runner g c) n" "rn_group_state (demo_runner g c) n = g"
  "rn_exit_code (demo_runner g c) n = c" "rn_cwd_inside (demo_runner g c) w" "rn_write (demo_runner g c) n = Inr ()"
  "rn_evidence (demo_runner g c) n = Inr (''e'', ''d'')"
  by (simp_all add: demo_runner_def)

lemma identity_steady:
  assumes "plat h = Linux" "\<And>n. read_stat h n p = t" "\<And>n. boot_id h n = b"
  shows "process_identity h n (JInt p) = process_identity h 0 (JInt p)"
  unfolding process_identity_def process_identity_probe_def assms by (simp add: assms)

lemma demo_process: "process_identity (rn_host (demo_runner g c)) n (JInt 7) = Some demo_identity_of"
proof -
  have "process_identity (rn_host (demo_runner Gone JNull)) 0 (JInt 7) \<noteq> None" by code_simp
  moreover have "process_identity (rn_host (demo_runner g c)) n (JInt 7) = process_identity (rn_host (demo_runner Gone JNull)) 0 (JInt 7)"
    by (subst identity_steady [of _ 7 "Stat_Text ''7 (a) b) S 1 7 0 0 0 0 0 0 0 0 0 0 0 0 0 0 0 0 42 0''" None])
      (simp_all add: demo_runner_def demo_host_def)
  ultimately show ?thesis by (auto simp: demo_identity_of_def)
qed



lemmas demo_job_eval = demo_job_stage_def demo_job_granted_stage_def demo_granted_def demo_job_def demo_job_granted_def demo_job_submitted_def


lemma demo_env_simps: "clock demo_env n = int n"
  by (simp add: demo_env_def)

lemmas demo_execution = execute_def run_stage_def stage_end_def stage_body_def bseq_def complete_stage_def releasable_def planned_def
  acatch_def get_request_def find_request_def initial_progress_def began_def recorded_def absorb_def admit_def demo_job_plan_def finish_eval
  launch_token_of_def compare_digest_def result_json_def leaf_of_def coupled_release_def unsafe_groups_def finish_evidence_def command_eval
  demo_runner_simps demo_process demo_env_simps demo_job_eval demo_command_def demo_start_def demo_leaves_def get_or_def get_def



text \<open>A command that exits with status zero and leaves a process behind ends the run with the outcome passed: the
  second command and the cleanup are never started, and the recovery of the stage then completes it as passed.\<close>

theorem unquiet_success_completes_early: "\<exists>r s. execute (Suc 0) (demo_runner Alive (JInt 0)) demo_env ''uuu'' ''s'' (demo_start demo_job) = Some (Inr r, s) 
   \<and> rs_spawned s = [(0, False)] \<and> 
   (\<exists>L. recover demo_env ''uuu'' 1 [''gpu''] [(''quiescent'', JBool True)] (rs_ledger s) = Inr ((), L) \<and> map st_state (stage_rows L) = [Passed])"
  by (simp add: demo_execution recover_def cong: obind_weak_cong ebind_weak_cong abind_weak_cong)

lemma demo_job_reachable: "reachable demo_env demo_job"
proof -
  from demo_job_submit have "exec demo_env (Submit (JStr ''p'') (JStr ''e'') demo_job_plan None) demo_configured = demo_job_submitted"
    by (simp add: committed_def)
  with exec_reachable [OF demo_configured_reachable] have r: "reachable demo_env demo_job_submitted" by metis
  from demo_job_schedule have "exec demo_env (Schedule []) demo_job_submitted = demo_job_granted" by (auto simp: committed_def)
  with exec_reachable [OF r] have r: "reachable demo_env demo_job_granted" by metis
  from demo_job_attach have "exec demo_env (Attach ''uuu'' 1 demo_identity) demo_job_granted = demo_job" by (simp add: committed_def)
  with exec_reachable [OF r] show ?thesis by metis
qed

lemma demo_alone: "demo_runner g c = (demo_runner g c)\<lparr>rn_others := \<lambda>n. execs demo_env []\<rparr>"
  by (simp add: demo_runner_def execs_def fun_eq_iff)

theorem execute_refines_steps_witness:
  "\<exists>r s. execute (Suc 0) (demo_runner Alive (JInt 0)) demo_env ''uuu'' ''s'' (demo_start demo_job) = Some (r, s) \<and>
     steps demo_env demo_job (rs_ledger s) \<and> rs_spawned s = [(0, False)]"
proof -
  from unquiet_success_completes_early obtain r s where
    e: "execute (Suc 0) (demo_runner Alive (JInt 0)) demo_env ''uuu'' ''s'' (demo_start demo_job) = Some (Inr r, s)"
    and o: "rs_spawned s = [(0, False)]" by (elim exE conjE) (rule that)
  have "ledger_ok demo_env (rs_ledger (demo_start demo_job))"
    using reachable_ok [OF demo_fresh demo_job_reachable] by (simp add: demo_start_def)
  from execute_refines_steps [OF demo_fresh this, where R = "demo_runner Alive (JInt 0)" and cs = "\<lambda>_. []", folded demo_alone, OF e] e o
  show ?thesis by (auto simp: demo_start_def)
qed

definition demo_short_stage :: stage where
  "demo_short_stage = demo_job_stage\<lparr>st_extra := [(''commands'', JList [demo_command])]\<rparr>"

theorem passed_means_every_command_succeeded_witness:
  "\<exists>p s cmds. stage_end (Suc 0) (demo_runner Gone (JInt 0)) demo_env demo_short_stage demo_job_plan (demo_start demo_job) = Some (Inr p, s) \<and>
     planned demo_short_stage = Inr cmds \<and> map cr_index (pr_results p) = map fst cmds \<and> list_all succeeded (pr_results p)"
proof -
  have "\<exists>p s. stage_end (Suc 0) (demo_runner Gone (JInt 0)) demo_env demo_short_stage demo_job_plan (demo_start demo_job) = Some (Inr p, s)
      \<and> pr_outcome p = Passed \<and> pr_quiescent p"
    by (simp add: demo_execution demo_short_stage_def cong: obind_weak_cong ebind_weak_cong abind_weak_cong)
  then obtain p s where e: "stage_end (Suc 0) (demo_runner Gone (JInt 0)) demo_env demo_short_stage demo_job_plan (demo_start demo_job) = Some (Inr p, s)"
    and p: "pr_outcome p = Passed" "pr_quiescent p" by blast
  from passed_means_every_command_succeeded [OF e p] e show ?thesis by blast
qed


lemma demo_running_facts:
  "find_stage ''uuu'' (stage_rows demo_running) = Some s \<Longrightarrow> st_epoch s = 1 \<and> owning (st_state s)" "registry demo_running = demo_leaves"
  by (auto simp: demo_running_def demo_launching_def committed_def attach_def admit_def launch_token_of_def compare_digest_def
     get_stage_def save_def demo_granted_def demo_env_def run_eval keys_def cong: obind_weak_cong)



theorem timed_commands_return_witness:
  "\<exists>polls e p' s'. run_commands polls (demo_runner Gone (JInt 0)) demo_env demo_job_stage [(0, demo_command, False)] initial_progress
      (demo_start demo_job) = Some (e, p', s')"
proof -
  have "clock_advances (demo_runner Gone (JInt 0))"
    unfolding clock_advances_def demo_runner_simps
  proof
    fix b :: rat
    from reals_Archimedean2 [of b] obtain n where n: "b < of_nat n" by blast
    have "b \<le> of_nat m" if "n \<le> m" for m using n that of_nat_le_iff [of n m, where 'a = rat] by linarith
    then show "\<exists>n. \<forall>m\<ge>n. b \<le> of_nat m" by blast
  qed
  moreover have "\<forall>(i, command, cleanup)\<in>set [(0, demo_command, False)]. \<exists>c. command = JObj c \<and> timed (get c ''timeout_seconds'')"
    by (simp add: demo_command_def timed_def get_def)
  ultimately show ?thesis using timed_commands_return by blast
qed

end
