(* ===== verification/Durable_Files.thy ===== *)
theory Durable_Files
  imports Host_Binding
begin

text \<open>
  The durable files of \<open>core.py\<close>: every artifact is a JSON document that is replaced atomically
  (\<open>atomic_json\<close>) or claimed by exclusive creation (\<open>claim_json\<close>), and two projections, the metrics
  and the task-diagnostic index, learn of it through a marker that is written before the artifact,
  a journal line written after it, and a recovery pass over the markers that stayed behind.

  A process may die, or a file operation may raise \<open>OSError\<close>, at any effect: \<open>de_fault\<close> says what
  happens to the n-th one. A path is the list of its components below the root of the file system.
\<close>

section \<open>Paths and contents\<close>

type_synonym path = "string list"

definition pname :: "path \<Rightarrow> string" where
  "pname p = (if p = [] then [] else last p)"

text \<open>\<open>Path.suffix\<close>: from the last dot of the name, unless it is the first or the last character.\<close>

definition suffix_length :: "string \<Rightarrow> nat" where
  "suffix_length name = Suc (length (takeWhile (\<lambda>c. c \<noteq> CHR ''.'') (rev name)))"

definition suffix_of :: "string \<Rightarrow> string" where
  "suffix_of name = (let n = suffix_length name in if 1 < n \<and> n < length name then drop (length name - n) name else [])"

definition stem_of :: "string \<Rightarrow> string" where
  "stem_of name = take (length name - length (suffix_of name)) name"

definition is_json_name :: "string \<Rightarrow> bool" where
  "is_json_name name \<longleftrightarrow> suffix_of name = ''.json''"

datatype content = Doc json | Raw string

section \<open>The disk and what can interrupt it\<close>

datatype fault = Fine | Dies | Fails string

record disk_env =
  de_fault :: "nat \<Rightarrow> fault"
  de_digest :: "content \<Rightarrow> string"
  de_clock :: "nat \<Rightarrow> rat"
  de_iso :: "rat \<Rightarrow> string"
  de_parse :: "string \<Rightarrow> rat option option"
  de_uuid :: "nat \<Rightarrow> string"
  de_event_id :: "string \<Rightarrow> string \<Rightarrow> string \<Rightarrow> string"
  de_repr :: "json \<Rightarrow> string"
  de_int :: "string \<Rightarrow> int option"
  de_float :: "string \<Rightarrow> rat option"
  de_state :: path
  de_project :: string

record marker =
  mk_id :: nat
  mk_root :: path
  mk_index :: string
  mk_path :: path
  mk_sha :: string

record disk =
  dk_files :: "(path \<times> content) list"
  dk_markers :: "marker list"
  dk_journal :: "(path \<times> string \<times> path) list"
  dk_steps :: nat
  dk_reads :: nat

datatype stop = Died | Raised err

type_synonym 'a io = "disk \<Rightarrow> (stop + 'a) \<times> disk"

definition ireturn :: "'a \<Rightarrow> 'a io" where
  "ireturn x d = (Inr x, d)"

definition ilift :: "err + 'a \<Rightarrow> 'a io" where
  "ilift m d = (case m of Inl e \<Rightarrow> (Inl (Raised e), d) | Inr x \<Rightarrow> (Inr x, d))"

definition ibind :: "'a io \<Rightarrow> ('a \<Rightarrow> 'b io) \<Rightarrow> 'b io" where
  "ibind m f d = (case m d of (Inl s, d') \<Rightarrow> (Inl s, d') | (Inr x, d') \<Rightarrow> f x d')"

definition iask :: "(disk \<Rightarrow> 'a) \<Rightarrow> 'a io" where
  "iask f d = (Inr (f d), d)"

text \<open>\<open>except OSError\<close>; a process that dies runs no handler.\<close>

definition on_oserror :: "'a io \<Rightarrow> 'a io \<Rightarrow> 'a io" where
  "on_oserror m k d = (case m d of (Inl (Raised (OsError e)), d') \<Rightarrow> k d' | r \<Rightarrow> r)"

text \<open>One effect on the disk.\<close>

definition effect :: "disk_env \<Rightarrow> (disk \<Rightarrow> disk) \<Rightarrow> unit io" where
  "effect \<delta> f d =
     (let d' = d\<lparr>dk_steps := Suc (dk_steps d)\<rparr> in
      case de_fault \<delta> (dk_steps d) of
        Fine \<Rightarrow> (Inr (), f d')
      | Dies \<Rightarrow> (Inl Died, d')
      | Fails e \<Rightarrow> (Inl (Raised (OsError e)), d'))"

definition disk_now :: "disk_env \<Rightarrow> rat io" where
  "disk_now \<delta> d = (Inr (de_clock \<delta> (dk_reads d)), d\<lparr>dk_reads := Suc (dk_reads d)\<rparr>)"

definition content_at :: "path \<Rightarrow> disk \<Rightarrow> content option" where
  "content_at p d = map_of (dk_files d) p"

definition is_file :: "path \<Rightarrow> disk \<Rightarrow> bool" where
  "is_file p d \<longleftrightarrow> content_at p d \<noteq> None"

definition put_file :: "path \<Rightarrow> content \<Rightarrow> disk \<Rightarrow> disk" where
  "put_file p c d = d\<lparr>dk_files := AList.update p c (dk_files d)\<rparr>"

text \<open>\<open>load_object\<close>; its retries only wait for another process to finish a replacement.\<close>

definition load_object :: "path \<Rightarrow> fields io" where
  "load_object p =
     ibind (iask (content_at p)) (\<lambda>c. ilift (case c of
       None \<Rightarrow> Inl (OrchestratorError ''file not found'')
     | Some (Raw _) \<Rightarrow> Inl (OrchestratorError ''invalid JSON'')
     | Some (Doc (JObj fs)) \<Rightarrow> Inr fs
     | Some (Doc _) \<Rightarrow> Inl (OrchestratorError ''JSON value must be an object'')))"

section \<open>Index candidates\<close>

definition metrics_candidate_state_root :: "path \<Rightarrow> path option" where
  "metrics_candidate_state_root p =
     (let name = pname p; up = butlast p; up2 = butlast up in
      if (name = ''result.json'' \<or> name = ''usage.json'') \<and> pname up2 = ''tasks'' then Some (butlast up2)
      else if name = ''verification-result.json'' \<and> pname up2 = ''checks'' then Some (butlast up2)
      else if name = ''workstream.json'' \<and> pname up2 = ''workstreams'' then Some (butlast up2)
      else if pname up = ''events'' \<and> is_json_name name then Some up2
      else if (pname up = ''thread-wakeups'' \<or> pname up = ''acknowledgements'') \<and> pname up2 = ''inbox'' \<and> is_json_name name
        then Some (butlast up2)
      else None)"

definition task_diagnostic_state_root :: "path \<Rightarrow> path option" where
  "task_diagnostic_state_root p =
     (let up = butlast p; up2 = butlast up in
      if pname up2 = ''tasks'' then Some (butlast up2)
      else if pname up = ''task-resolutions'' \<and> is_json_name (pname p) then Some up2
      else None)"

definition index_targets :: "path \<Rightarrow> (string \<times> path option) list" where
  "index_targets p = [(''metrics-candidates'', metrics_candidate_state_root p), (''task-diagnostics'', task_diagnostic_state_root p)]"

definition prepare_marker :: "disk_env \<Rightarrow> path \<Rightarrow> string \<Rightarrow> string \<Rightarrow> path option \<Rightarrow> marker option io" where
  "prepare_marker \<delta> p h index top_dir =
     (case top_dir of
        None \<Rightarrow> ireturn None
      | Some r \<Rightarrow>
          ibind (iask dk_steps) (\<lambda>n.
          let m = \<lparr>mk_id = n, mk_root = r, mk_index = index, mk_path = p, mk_sha = h\<rparr> in
          on_oserror (ibind (effect \<delta> (\<lambda>d. d\<lparr>dk_markers := dk_markers d @ [m]\<rparr>)) (\<lambda>_. ireturn (Some m)))
            (ireturn None)))"

definition clear_index_marker :: "disk_env \<Rightarrow> marker option \<Rightarrow> unit io" where
  "clear_index_marker \<delta> m =
     (case m of
        None \<Rightarrow> ireturn ()
      | Some mk \<Rightarrow> on_oserror (effect \<delta> (\<lambda>d. d\<lparr>dk_markers := filter (\<lambda>x. x \<noteq> mk) (dk_markers d)\<rparr>)) (ireturn ()))"

text \<open>Creating the directory of the journal is outside the handler: its failure reaches the caller.\<close>

definition record_candidate :: "disk_env \<Rightarrow> path \<Rightarrow> string \<Rightarrow> path option \<Rightarrow> marker option \<Rightarrow> unit io" where
  "record_candidate \<delta> p index top_dir m =
     (case top_dir of
        None \<Rightarrow> ireturn ()
      | Some r \<Rightarrow>
          ibind (effect \<delta> (\<lambda>d. d)) (\<lambda>_.
          ibind (on_oserror (ibind (effect \<delta> (\<lambda>d. d\<lparr>dk_journal := dk_journal d @ [(r, index, p)]\<rparr>)) (\<lambda>_. ireturn True))
                   (ireturn False)) (\<lambda>recorded.
          if recorded then clear_index_marker \<delta> m else ireturn ())))"

section \<open>Atomic replacement and exclusive creation\<close>

definition prepare_index_candidates :: "disk_env \<Rightarrow> path \<Rightarrow> string \<Rightarrow> (marker option \<times> marker option) io" where
  "prepare_index_candidates \<delta> p h =
     ibind (prepare_marker \<delta> p h ''metrics-candidates'' (metrics_candidate_state_root p)) (\<lambda>m.
     ibind (prepare_marker \<delta> p h ''task-diagnostics'' (task_diagnostic_state_root p)) (\<lambda>t. ireturn (m, t)))"

definition record_candidates :: "disk_env \<Rightarrow> path \<Rightarrow> marker option \<times> marker option \<Rightarrow> unit io" where
  "record_candidates \<delta> p ms =
     ibind (record_candidate \<delta> p ''metrics-candidates'' (metrics_candidate_state_root p) (fst ms)) (\<lambda>_.
     record_candidate \<delta> p ''task-diagnostics'' (task_diagnostic_state_root p) (snd ms))"

text \<open>The temporary file is an effect of its own; it is not matched by any listing.\<close>

definition atomic_json :: "disk_env \<Rightarrow> path \<Rightarrow> json \<Rightarrow> unit io" where
  "atomic_json \<delta> p v =
     ibind (effect \<delta> (\<lambda>d. d)) (\<lambda>_.
     ibind (prepare_index_candidates \<delta> p (de_digest \<delta> (Doc v))) (\<lambda>ms.
     ibind (effect \<delta> (put_file p (Doc v))) (\<lambda>_.
     record_candidates \<delta> p ms)))"

definition claim_json :: "disk_env \<Rightarrow> path \<Rightarrow> json \<Rightarrow> bool io" where
  "claim_json \<delta> p v =
     ibind (iask (is_file p)) (\<lambda>exists.
     if exists then ireturn False
     else
       ibind (effect \<delta> (put_file p (Raw []))) (\<lambda>_.
       ibind (prepare_index_candidates \<delta> p (de_digest \<delta> (Doc v))) (\<lambda>ms.
       ibind (effect \<delta> (put_file p (Doc v))) (\<lambda>_.
       ibind (record_candidates \<delta> p ms) (\<lambda>_. ireturn True)))))"

text \<open>The recovery pass: a marker is ready when its artifact has the announced content.\<close>

datatype marker_class = Ready | Pending | Invalid

definition under :: "path \<Rightarrow> path \<Rightarrow> bool" where
  "under top_dir p \<longleftrightarrow> take (length top_dir) p = top_dir"

definition classify_marker :: "disk_env \<Rightarrow> path \<Rightarrow> marker \<Rightarrow> disk \<Rightarrow> marker_class" where
  "classify_marker \<delta> top_dir m d =
     (if \<not> under top_dir (mk_path m) \<or> length (mk_sha m) \<noteq> 64 then Invalid
      else case content_at (mk_path m) d of
        None \<Rightarrow> Pending
      | Some c \<Rightarrow> if de_digest \<delta> c = mk_sha m then Ready else Pending)"

definition index_recovery_markers :: "disk_env \<Rightarrow> path \<Rightarrow> string \<Rightarrow> disk \<Rightarrow> marker list \<times> marker list \<times> marker list" where
  "index_recovery_markers \<delta> top_dir index d =
     (let ms = filter (\<lambda>m. mk_root m = top_dir \<and> mk_index m = index) (dk_markers d); c = (\<lambda>m. classify_marker \<delta> top_dir m d) in
      (filter (\<lambda>m. c m = Ready) ms, filter (\<lambda>m. c m = Pending) ms, filter (\<lambda>m. c m = Invalid) ms))"

section \<open>Running effects\<close>

named_theorems io_simps

lemma ibind_eq [io_simps]:
  "ibind m f d = (r, d') \<longleftrightarrow>
     (\<exists>s. m d = (Inl s, d') \<and> r = Inl s) \<or> (\<exists>x d1. m d = (Inr x, d1) \<and> f x d1 = (r, d'))"
  by (auto simp: ibind_def split: prod.split sum.split)

lemma basic_eq [io_simps]:
  "ireturn x d = (r, d') \<longleftrightarrow> r = Inr x \<and> d' = d"
  "iask g d = (r', d') \<longleftrightarrow> r' = Inr (g d) \<and> d' = d"
  by (auto simp: ireturn_def iask_def)

lemma ilift_any: "ilift m d = (r, d') \<longleftrightarrow> d' = d \<and> r = (case m of Inl e \<Rightarrow> Inl (Raised e) | Inr x \<Rightarrow> Inr x)"
  by (auto simp: ilift_def split: sum.split)

lemma ilift_eq [io_simps]:
  "ilift m d = (Inr x, d') \<longleftrightarrow> m = Inr x \<and> d' = d"
  "ilift m d = (Inl s, d') \<longleftrightarrow> (\<exists>e. m = Inl e \<and> s = Raised e) \<and> d' = d"
  by (auto simp: ilift_def split: sum.split)

lemma effect_eq [io_simps]:
  "effect \<delta> f d = (r, d') \<longleftrightarrow>
     (r = Inr () \<and> de_fault \<delta> (dk_steps d) = Fine \<and> d' = f (d\<lparr>dk_steps := Suc (dk_steps d)\<rparr>)) \<or>
     (d' = d\<lparr>dk_steps := Suc (dk_steps d)\<rparr> \<and>
      (r = Inl Died \<and> de_fault \<delta> (dk_steps d) = Dies \<or> (\<exists>e. r = Inl (Raised (OsError e)) \<and> de_fault \<delta> (dk_steps d) = Fails e)))"
  by (auto simp: effect_def Let_def split: fault.split)

lemma on_oserror_eq [io_simps]:
  "on_oserror m k d = (r, d') \<longleftrightarrow>
     (\<exists>e d1. m d = (Inl (Raised (OsError e)), d1) \<and> k d1 = (r, d')) \<or> (m d = (r, d') \<and> (\<forall>e. r \<noteq> Inl (Raised (OsError e))))"
  by (auto simp: on_oserror_def split: prod.split sum.split stop.split err.split)

text \<open>What an operation may leave behind.\<close>

definition ioframe :: "(disk \<Rightarrow> disk \<Rightarrow> bool) \<Rightarrow> 'a io \<Rightarrow> bool" where
  "ioframe Q m \<longleftrightarrow> (\<forall>d r d'. m d = (r, d') \<longrightarrow> Q d d')"

locale io_relation =
  fixes Q :: "disk \<Rightarrow> disk \<Rightarrow> bool"
  assumes refl: "Q d d" and trans: "Q d d' \<Longrightarrow> Q d' d'' \<Longrightarrow> Q d d''"
    and tick: "Q d (d\<lparr>dk_steps := n\<rparr>)" and read: "Q d (d\<lparr>dk_reads := n\<rparr>)"
begin

lemma pure: "ioframe Q (ireturn x)" "ioframe Q (iask f)" "ioframe Q (ilift m)" "ioframe Q (disk_now \<delta>)" "ioframe Q (load_object p)"
  by (auto simp: ioframe_def io_simps ilift_any refl disk_now_def load_object_def intro: read)

lemma bind: "ioframe Q m \<Longrightarrow> (\<And>x. ioframe Q (f x)) \<Longrightarrow> ioframe Q (ibind m f)"
  unfolding ioframe_def ibind_eq by (blast intro: trans)

lemma handle: "ioframe Q m \<Longrightarrow> ioframe Q k \<Longrightarrow> ioframe Q (on_oserror m k)"
  unfolding ioframe_def on_oserror_eq by (blast intro: trans)

lemma effect:
  assumes "\<And>d. Q d (f d)"
  shows "ioframe Q (effect \<delta> f)"
  unfolding ioframe_def effect_eq using assms trans tick by blast

lemma choose: "ioframe Q m \<Longrightarrow> ioframe Q k \<Longrightarrow> ioframe Q (if b then m else k)"
  by simp

lemmas frame_intros = pure bind handle effect choose

end

text \<open>Nothing but markers, journals and counters changes.\<close>

definition files_kept :: "disk \<Rightarrow> disk \<Rightarrow> bool" where
  "files_kept d d' \<longleftrightarrow> dk_files d' = dk_files d"

interpretation quiet_disk: io_relation files_kept
  by unfold_locales (auto simp: files_kept_def)

lemma candidates_keep_files:
  "ioframe files_kept (prepare_index_candidates \<delta> p h)" "ioframe files_kept (record_candidates \<delta> p ms)"
  unfolding prepare_index_candidates_def prepare_marker_def record_candidates_def record_candidate_def clear_index_marker_def Let_def
  by (auto split: option.split intro!: quiet_disk.frame_intros simp: files_kept_def)

lemma atomic_json_files:
  assumes "atomic_json \<delta> p v d = (r, d')"
  shows "dk_files d' = dk_files d \<and> r \<noteq> Inr () \<or> dk_files d' = AList.update p (Doc v) (dk_files d)"
proof -
  note keep = candidates_keep_files [unfolded ioframe_def files_kept_def, rule_format]
  from assms show ?thesis
    unfolding atomic_json_def by (auto simp: io_simps put_file_def dest!: keep)
qed

section \<open>An index never loses an artifact\<close>

lemma candidate_under:
  "metrics_candidate_state_root p = Some top_dir \<Longrightarrow> under top_dir p"
  "task_diagnostic_state_root p = Some top_dir \<Longrightarrow> under top_dir p"
proof -
  have b: "under (butlast p) p" for p :: path by (cases p rule: rev_cases) (simp_all add: under_def)
  have t: "under x y \<Longrightarrow> under y z \<Longrightarrow> under x z" for x y z :: path
    unfolding under_def by (metis length_take min.absorb2 min.cobounded2 take_take)
  have up: "under (butlast (butlast p)) p" "under (butlast (butlast (butlast p))) p"
    using b [of p] b [of "butlast p"] b [of "butlast (butlast p)"] t by blast+
  show "metrics_candidate_state_root p = Some top_dir \<Longrightarrow> under top_dir p"
    using up by (auto simp: metrics_candidate_state_root_def Let_def split: if_splits)
  show "task_diagnostic_state_root p = Some top_dir \<Longrightarrow> under top_dir p"
    using up by (auto simp: task_diagnostic_state_root_def Let_def split: if_splits)
qed

definition crash_only :: "disk_env \<Rightarrow> bool" where
  "crash_only \<delta> \<longleftrightarrow> (\<forall>n. de_fault \<delta> n = Fine \<or> de_fault \<delta> n = Dies)"

lemma crash_onlyD: "crash_only \<delta> \<Longrightarrow> de_fault \<delta> n \<noteq> Fails e"
  by (metis crash_only_def fault.distinct(3) fault.distinct(5))

lemma prepared_marker:
  assumes "crash_only \<delta>" "prepare_marker \<delta> p h index base d = (Inr m, d')"
  shows "dk_files d' = dk_files d \<and> dk_journal d' = dk_journal d \<and> set (dk_markers d) \<subseteq> set (dk_markers d') \<and>
     (case base of None \<Rightarrow> m = None | Some b \<Rightarrow> \<exists>k. m = Some k \<and> k \<in> set (dk_markers d') \<and>
        mk_root k = b \<and> mk_index k = index \<and> mk_path k = p \<and> mk_sha k = h)"
  using assms(2) crash_onlyD [OF assms(1)] unfolding prepare_marker_def Let_def
  by (cases base) (auto simp: io_simps)

lemma recorded_candidate:
  assumes "crash_only \<delta>" "record_candidate \<delta> p index base m d = (r, d')"
  shows "dk_files d' = dk_files d \<and> set (dk_journal d) \<subseteq> set (dk_journal d') \<and> 
     (\<forall>k\<in>set (dk_markers d). Some k \<noteq> m \<longrightarrow> k \<in> set (dk_markers d')) \<and>
     (\<forall>b. base = Some b \<longrightarrow> set (dk_markers d) \<subseteq> set (dk_markers d') \<or> (b, index, p) \<in> set (dk_journal d'))"
  using assms(2) crash_onlyD [OF assms(1)] unfolding record_candidate_def clear_index_marker_def
  by (cases base; cases m) (auto simp: io_simps)

text \<open>C36: An artifact that reaches its path is never lost to an index, wherever the writer dies: the journal of the
  index names it, or the recovery pass finds a marker that announces exactly its content.\<close>

theorem indexed_write_is_recoverable:
  assumes crash: "crash_only \<delta>" and target: "(index, Some base) \<in> set (index_targets p)"
    and digest: "length (de_digest \<delta> (Doc v)) = 64"
    and run: "atomic_json \<delta> p v d = (r, d')" and stored: "content_at p d' = Some (Doc v)" and new: "content_at p d \<noteq> Some (Doc v)"
  shows "(base, index, p) \<in> set (dk_journal d') \<or> (\<exists>k\<in>set (fst (index_recovery_markers \<delta> base index d')). mk_path k = p)"
proof -
  let ?h = "de_digest \<delta> (Doc v)"
  let ?M = "metrics_candidate_state_root p" and ?T = "task_diagnostic_state_root p"
  note same = candidates_keep_files [unfolded ioframe_def files_kept_def, rule_format]
  from run stored new obtain d1 ms d2 d3 where
    prep: "prepare_index_candidates \<delta> p ?h d1 = (Inr ms, d2)" and
    put: "d3 = put_file p (Doc v) (d2\<lparr>dk_steps := Suc (dk_steps d2)\<rparr>)" and
    rec: "record_candidates \<delta> p ms d3 = (r, d')"
    unfolding atomic_json_def by (auto simp: io_simps content_at_def dest: same(1))
  from prep obtain m t e1 where m: "prepare_marker \<delta> p ?h ''metrics-candidates'' ?M d1 = (Inr m, e1)"
    and t: "prepare_marker \<delta> p ?h ''task-diagnostics'' ?T e1 = (Inr t, d2)" and ms: "ms = (m, t)"
    by (auto simp: prepare_index_candidates_def io_simps)
  note pm = prepared_marker [OF crash m] and pt = prepared_marker [OF crash t]
  have d3: "dk_markers d3 = dk_markers d2" "dk_journal d3 = dk_journal d2" by (simp_all add: put put_file_def)
  let ?found = "\<lambda>index base. \<exists>k\<in>set (dk_markers d'). mk_root k = base \<and> mk_index k = index \<and> mk_path k = p \<and> mk_sha k = ?h"
  from rec ms consider (died) s where "record_candidate \<delta> p ''metrics-candidates'' ?M m d3 = (Inl s, d')"
    | (both) u e2 where "record_candidate \<delta> p ''metrics-candidates'' ?M m d3 = (Inr u, e2)"
        "record_candidate \<delta> p ''task-diagnostics'' ?T t e2 = (r, d')"
    by (auto simp: record_candidates_def io_simps)
  note split_run = this
  from target consider (metrics) "index = ''metrics-candidates''" "?M = Some base" | (tasks) "index = ''task-diagnostics''" "?T = Some base"
    by (auto simp: index_targets_def)
  then have "(base, index, p) \<in> set (dk_journal d') \<or> ?found index base"
  proof cases
    case metrics
    with pm obtain k where k: "m = Some k" "k \<in> set (dk_markers d3)" "mk_root k = base" "mk_index k = index" "mk_path k = p" "mk_sha k = ?h"
      using pt d3 by auto
    from split_run show ?thesis
    proof cases
      case died
      from recorded_candidate [OF crash died] metrics k show ?thesis by blast
    next
      case both
      have "Some k \<noteq> t" using pt k(4) metrics(1) by (auto split: option.splits)
      with recorded_candidate [OF crash both(1)] recorded_candidate [OF crash both(2)] metrics k show ?thesis by blast
    qed
  next
    case tasks
    with pt obtain k where k: "t = Some k" "k \<in> set (dk_markers d3)" "mk_root k = base" "mk_index k = index" "mk_path k = p" "mk_sha k = ?h"
      using d3 by auto
    have "Some k \<noteq> m" using pm k(4) tasks(1) by (auto split: option.splits)
    from split_run show ?thesis
    proof cases
      case died
      from recorded_candidate [OF crash died] \<open>Some k \<noteq> m\<close> k show ?thesis by blast
    next
      case both
      with recorded_candidate [OF crash both(1)] \<open>Some k \<noteq> m\<close> k have "k \<in> set (dk_markers e2)" by blast
      with recorded_candidate [OF crash both(2)] tasks k show ?thesis by blast
    qed
  qed
  moreover have "under base p" using target candidate_under by (auto simp: index_targets_def)
  ultimately show ?thesis using stored digest
    by (auto simp: index_recovery_markers_def classify_marker_def Let_def)
qed

text \<open>An exclusive creation elects one writer: whoever finds the file is told so and changes nothing, and only a
  creation that returns true has stored its document.\<close>

theorem claim_is_exclusive:
  assumes "claim_json \<delta> p v d = (r, d')"
  shows "if is_file p d then r = Inr False \<and> d' = d
         else r \<noteq> Inr False \<and> (r = Inr True \<longrightarrow> content_at p d' = Some (Doc v)) \<and>
              (content_at p d' \<in> {None, Some (Raw []), Some (Doc v)})"
proof -
  note keep = candidates_keep_files [unfolded ioframe_def files_kept_def, rule_format]
  from assms show ?thesis
    unfolding claim_json_def
    by (auto simp: io_simps put_file_def content_at_def is_file_def dest!: keep)
qed

section \<open>A concrete disk\<close>

definition demo_disk_env :: "(nat \<Rightarrow> fault) \<Rightarrow> disk_env" where
  "demo_disk_env f = \<lparr>de_fault = f, de_digest = (\<lambda>_. replicate 64 CHR ''a''), de_clock = of_nat, de_iso = (\<lambda>_. ''t''),
     de_parse = (\<lambda>_. Some (Some 0)), de_uuid = (\<lambda>_. ''u''), de_event_id = (\<lambda>_ _ _. ''i''),
     de_repr = (\<lambda>_. ''r''), de_int = (\<lambda>_. None), de_float = (\<lambda>_. None), de_state = [''w'', ''s''], de_project = ''p''\<rparr>"

definition demo_disk :: disk where
  "demo_disk = \<lparr>dk_files = [([''w'', ''r''], Raw ''r''), ([''w'', ''e''], Raw ''e'')], dk_markers = [], dk_journal = [], dk_steps = 0, dk_reads = 0\<rparr>"

definition well :: "nat \<Rightarrow> fault" where
  "well n = Fine"

definition dies_at :: "nat \<Rightarrow> nat \<Rightarrow> fault" where
  "dies_at k n = (if n = k then Dies else Fine)"

theorem indexed_write_is_recoverable_witness:
  "\<exists>r d'. atomic_json (demo_disk_env (dies_at 3)) [''w'', ''s'', ''events'', ''i.json''] JNull demo_disk = (r, d') \<and>
     (([''w'', ''s''], ''metrics-candidates'', [''w'', ''s'', ''events'', ''i.json'']) \<in> set (dk_journal d') \<or>
      (\<exists>k\<in>set (fst (index_recovery_markers (demo_disk_env (dies_at 3)) [''w'', ''s''] ''metrics-candidates'' d')).
         mk_path k = [''w'', ''s'', ''events'', ''i.json'']))"
proof -
  let ?p = "[''w'', ''s'', ''events'', ''i.json'']" and ?\<delta> = "demo_disk_env (dies_at 3)"
  obtain r d' where run: "atomic_json ?\<delta> ?p JNull demo_disk = (r, d')" by fastforce
  have "content_at ?p (snd (atomic_json ?\<delta> ?p JNull demo_disk)) = Some (Doc JNull)" by code_simp
  with run have stored: "content_at ?p d' = Some (Doc JNull)" by simp
  have crash: "crash_only ?\<delta>" by (simp add: crash_only_def demo_disk_env_def dies_at_def)
  have target: "(''metrics-candidates'', Some [''w'', ''s'']) \<in> set (index_targets ?p)" by code_simp
  have "length (de_digest ?\<delta> (Doc JNull)) = 64" "content_at ?p demo_disk \<noteq> Some (Doc JNull)" by code_simp+
  from indexed_write_is_recoverable [OF crash target this(1) run stored this(2)] run show ?thesis by blast
qed

theorem claim_is_exclusive_witness:
  "claim_json (demo_disk_env well) [''w'', ''r''] JNull demo_disk = (Inr False, demo_disk)"
proof -
  obtain r d' where run: "claim_json (demo_disk_env well) [''w'', ''r''] JNull demo_disk = (r, d')" by fastforce
  have "is_file [''w'', ''r''] demo_disk" by code_simp
  with claim_is_exclusive [OF run] run show ?thesis by simp
qed

text \<open>A creation that dies after the exclusive open leaves an empty file: the path stays claimed, and nothing can
  be loaded from it.\<close>

theorem interrupted_claim_is_stuck:
  "\<exists>d'. claim_json (demo_disk_env (dies_at 1)) [''w'', ''x''] JNull demo_disk = (Inl Died, d') \<and>
     fst (claim_json (demo_disk_env well) [''w'', ''x''] JNull d') = Inr False \<and>
     fst (load_object [''w'', ''x''] d') = Inl (Raised (OrchestratorError ''invalid JSON''))"
proof -
  obtain r d' where run: "claim_json (demo_disk_env (dies_at 1)) [''w'', ''x''] JNull demo_disk = (r, d')" by fastforce
  have "fst (claim_json (demo_disk_env (dies_at 1)) [''w'', ''x''] JNull demo_disk) = Inl Died"
    "fst (claim_json (demo_disk_env well) [''w'', ''x''] JNull (snd (claim_json (demo_disk_env (dies_at 1)) [''w'', ''x''] JNull demo_disk))) = Inr False"
    "fst (load_object [''w'', ''x''] (snd (claim_json (demo_disk_env (dies_at 1)) [''w'', ''x''] JNull demo_disk)))
       = Inl (Raised (OrchestratorError ''invalid JSON''))"
    by code_simp+
  with run show ?thesis by auto
qed

end
