(* ===== verification/Terminal_Events.thy ===== *)
theory Terminal_Events
  imports Durable_Files Recipe_Paths
begin

text \<open>
  The terminal events of \<open>core.py\<close>: a finished worker task or other operation publishes one event
  file, whose outcome is immutable from then on, and a signal file in the inbox of the
  orchestrator. An event names its result and evidence files with their digests, and is verified
  against them before anything acts on it.
\<close>

section \<open>Where events and signals are\<close>

definition path_str :: "path \<Rightarrow> string" where
  "path_str p = slash # join_with slash p"

definition events_root :: "disk_env \<Rightarrow> path" where
  "events_root \<delta> = de_state \<delta> @ [''events'']"

definition inbox_root :: "disk_env \<Rightarrow> path" where
  "inbox_root \<delta> = de_state \<delta> @ [''inbox'']"

definition json_file :: "path \<Rightarrow> string \<Rightarrow> path" where
  "json_file dir name = dir @ [name @ ''.json'']"

definition event_path :: "disk_env \<Rightarrow> string \<Rightarrow> path" where
  "event_path \<delta> eid = json_file (events_root \<delta>) eid"

definition signal_path :: "disk_env \<Rightarrow> string \<Rightarrow> path" where
  "signal_path \<delta> eid = json_file (inbox_root \<delta> @ [''signals'']) eid"

definition event_path_for :: "disk_env \<Rightarrow> string \<Rightarrow> err + path" where
  "event_path_for \<delta> eid = ebind (validate_event_id (JStr eid)) (\<lambda>i. Inr (event_path \<delta> i))"

definition signal_path_for :: "disk_env \<Rightarrow> string \<Rightarrow> err + path" where
  "signal_path_for \<delta> eid = ebind (validate_event_id (JStr eid)) (\<lambda>i. Inr (signal_path \<delta> i))"

definition followup_event_id :: "disk_env \<Rightarrow> string \<Rightarrow> string \<Rightarrow> string" where
  "followup_event_id \<delta> source_kind operation_id = de_event_id \<delta> operation_id (de_project \<delta>) source_kind"

section \<open>Publishing\<close>

definition terminal_statuses :: "string list" where
  "terminal_statuses = [''completed'', ''failed'', ''timed_out'', ''rate_limited'', ''invalid_result'', ''cancelled'']"

definition followup_statuses :: "string list" where
  "followup_statuses = [''completed'', ''failed'', ''cancelled'', ''timed_out'', ''action_required'', ''unavailable'', ''ambiguous'']"

definition terminal_immutable :: "string list" where
  "terminal_immutable = [''kind'', ''event_id'', ''project_id'', ''task_id'', ''terminal_status'', ''result_path'',
     ''result_sha256'', ''evidence_path'', ''evidence_sha256'', ''wake_target'']"

definition followup_immutable :: "string list" where
  "followup_immutable = [''kind'', ''event_id'', ''project_id'', ''source_kind'', ''operation_id'', ''terminal_status'',
     ''result_path'', ''result_sha256'', ''evidence_path'', ''evidence_sha256'', ''wake_target'', ''not_before'']"

definition retain_event_and_signal ::
    "disk_env \<Rightarrow> path \<Rightarrow> path \<Rightarrow> fields \<Rightarrow> fields \<Rightarrow> string list \<Rightarrow> bool \<Rightarrow> fields io" where
  "retain_event_and_signal \<delta> ep sp event signal immutable emit =
     ibind (iask (is_file ep)) (\<lambda>exists.
     ibind (if exists then ibind (load_object ep) (\<lambda>x. ireturn (Some x)) else ireturn None) (\<lambda>existing.
     ibind (case existing of
         Some ex \<Rightarrow>
           if list_ex (\<lambda>k. \<not> json_eq (get ex k) (get event k)) immutable
           then ilift (Inl (OrchestratorError ''conflicts with retained outcome''))
           else ibind (ilift (subscript (JObj ex) ''created_at'')) (\<lambda>t. ireturn (ex, AList.update ''created_at'' t signal))
       | None \<Rightarrow> ibind (atomic_json \<delta> ep (JObj event)) (\<lambda>_. ireturn (event, signal))) (\<lambda>(ev, sg).
     ibind (if emit then atomic_json \<delta> sp (JObj sg) else ireturn ()) (\<lambda>_. ireturn ev))))"

text \<open>\<open>ensure_file\<close> and \<open>sha256_file\<close>\<close>

definition ensure_file :: "path \<Rightarrow> unit io" where
  "ensure_file p = ibind (iask (is_file p)) (\<lambda>b. ilift (raise_if (\<not> b) (OrchestratorError ''is not a file'')))"

definition sha256_file :: "disk_env \<Rightarrow> path \<Rightarrow> string io" where
  "sha256_file \<delta> p = ibind (iask (content_at p)) (\<lambda>c. ilift (case c of
      None \<Rightarrow> Inl (OsError ''No such file'') | Some x \<Rightarrow> Inr (de_digest \<delta> x)))"

definition utc_now :: "disk_env \<Rightarrow> string io" where
  "utc_now \<delta> = ibind (disk_now \<delta>) (\<lambda>t. ireturn (de_iso \<delta> t))"

definition chosen_id :: "disk_env \<Rightarrow> string option \<Rightarrow> string io \<Rightarrow> string io" where
  "chosen_id \<delta> given dflt = ibind (case given of Some i \<Rightarrow> ireturn i | None \<Rightarrow> dflt) (\<lambda>i. ilift (validate_event_id (JStr i)))"

definition random_id :: "disk_env \<Rightarrow> string io" where
  "random_id \<delta> = ibind (iask dk_reads) (\<lambda>n. ibind (disk_now \<delta>) (\<lambda>_. ireturn (de_uuid \<delta> n)))"

definition artifact_fields :: "path \<Rightarrow> string \<Rightarrow> path \<Rightarrow> string \<Rightarrow> fields" where
  "artifact_fields rp rh vp vh = [(''result_path'', JStr (path_str rp)), (''result_sha256'', JStr rh),
     (''evidence_path'', JStr (path_str vp)), (''evidence_sha256'', JStr vh)]"

definition event_body :: "disk_env \<Rightarrow> string \<Rightarrow> string \<Rightarrow> fields \<Rightarrow> string \<Rightarrow> fields \<Rightarrow> string \<Rightarrow> fields" where
  "event_body \<delta> kind eid subject status artifacts t =
     [(''schema_version'', JInt 1), (''kind'', JStr kind), (''event_id'', JStr eid), (''project_id'', JStr (de_project \<delta>))]
     @ subject @ [(''terminal_status'', JStr status)] @ artifacts @ [(''created_at'', JStr t)]"

definition signal_body :: "disk_env \<Rightarrow> string \<Rightarrow> string \<Rightarrow> fields \<Rightarrow> string \<Rightarrow> path \<Rightarrow> path \<Rightarrow> string \<Rightarrow> string \<Rightarrow> fields" where
  "signal_body \<delta> kind eid subject status rp vp t requires =
     [(''schema_version'', JInt 1), (''kind'', JStr kind), (''event_id'', JStr eid), (''project_id'', JStr (de_project \<delta>))]
     @ subject @ [(''event_path'', JStr (path_str (event_path \<delta> eid))), (''terminal_status'', JStr status),
       (''result_path'', JStr (path_str rp)), (''evidence_path'', JStr (path_str vp)), (''created_at'', JStr t), (''requires'', JStr requires)]"

definition optional_field :: "string \<Rightarrow> json option \<Rightarrow> fields" where
  "optional_field k v = (case v of None \<Rightarrow> [] | Some x \<Rightarrow> [(k, x)])"

definition write_terminal_event ::
    "disk_env \<Rightarrow> string \<Rightarrow> string \<Rightarrow> path \<Rightarrow> path \<Rightarrow> string option \<Rightarrow> json option \<Rightarrow> bool \<Rightarrow> fields io" where
  "write_terminal_event \<delta> task_id status rp vp eid wake emit =
     ibind (ilift (raise_if (task_id = []) (OrchestratorError ''task_id is required''))) (\<lambda>_.
     ibind (ilift (raise_if (status \<notin> set terminal_statuses) (OrchestratorError ''unsupported terminal status''))) (\<lambda>_.
     ibind (ensure_file rp) (\<lambda>_. ibind (ensure_file vp) (\<lambda>_.
     ibind (chosen_id \<delta> eid (random_id \<delta>)) (\<lambda>i.
     ibind (sha256_file \<delta> rp) (\<lambda>rh. ibind (sha256_file \<delta> vp) (\<lambda>vh. ibind (utc_now \<delta>) (\<lambda>t.
     let subject = [(''task_id'', JStr task_id)]; extra = optional_field ''wake_target'' wake in
     retain_event_and_signal \<delta> (event_path \<delta> i) (signal_path \<delta> i)
       (event_body \<delta> ''WORKER_TERMINAL'' i subject status (artifact_fields rp rh vp vh) t @ extra)
       (signal_body \<delta> ''LOCAL_AI_WORKER_FINISHED'' i subject status rp vp t ''ORCHESTRATOR_REVIEW'' @ extra)
       terminal_immutable emit))))))))"

definition normalized_not_before :: "disk_env \<Rightarrow> string option \<Rightarrow> err + json option" where
  "normalized_not_before \<delta> nb =
     (case nb of
        None \<Rightarrow> Inr None
      | Some s \<Rightarrow>
          (case de_parse \<delta> (replace_Z s) of
             None \<Rightarrow> Inl (OrchestratorError ''not_before must be an ISO-8601 timestamp'')
           | Some None \<Rightarrow> Inl (OrchestratorError ''not_before must include a timezone'')
           | Some (Some t) \<Rightarrow> Inr (Some (JStr (de_iso \<delta> t)))))"

definition write_followup_event ::
    "disk_env \<Rightarrow> string \<Rightarrow> string \<Rightarrow> string \<Rightarrow> path \<Rightarrow> path \<Rightarrow> string option \<Rightarrow> json option \<Rightarrow> bool \<Rightarrow> string option \<Rightarrow> fields io" where
  "write_followup_event \<delta> operation_id source_kind status rp vp eid wake emit nb =
     ibind (ilift (raise_if (operation_id = []) (OrchestratorError ''operation_id is required''))) (\<lambda>_.
     ibind (ilift (raise_if (source_kind = []) (OrchestratorError ''source_kind is required''))) (\<lambda>_.
     ibind (ilift (raise_if (status \<notin> set followup_statuses) (OrchestratorError ''unsupported follow-up status''))) (\<lambda>_.
     ibind (ensure_file rp) (\<lambda>_. ibind (ensure_file vp) (\<lambda>_.
     ibind (chosen_id \<delta> eid (ireturn (followup_event_id \<delta> source_kind operation_id))) (\<lambda>i.
     ibind (sha256_file \<delta> rp) (\<lambda>rh. ibind (sha256_file \<delta> vp) (\<lambda>vh. ibind (utc_now \<delta>) (\<lambda>t.
     ibind (ilift (normalized_not_before \<delta> nb)) (\<lambda>due.
     let subject = [(''source_kind'', JStr source_kind), (''operation_id'', JStr operation_id)];
         extra = optional_field ''wake_target'' wake @ optional_field ''not_before'' due in
     retain_event_and_signal \<delta> (event_path \<delta> i) (signal_path \<delta> i)
       (event_body \<delta> ''ORCHESTRATOR_TERMINAL'' i subject status (artifact_fields rp rh vp vh) t @ extra)
       (signal_body \<delta> ''ORCHESTRATOR_FOLLOWUP_SIGNAL'' i subject status rp vp t ''ORCHESTRATOR_FOLLOWUP'' @ extra)
       followup_immutable emit))))))))))"

section \<open>Verification\<close>

fun nonempty_str :: "json \<Rightarrow> bool" where
  "nonempty_str (JStr (c # cs)) = True"
| "nonempty_str _ = False"

fun str_of :: "json \<Rightarrow> string" where
  "str_of (JStr s) = s"
| "str_of _ = []"

definition verify_artifact :: "disk_env \<Rightarrow> fields \<Rightarrow> string \<times> string \<Rightarrow> unit io" where
  "verify_artifact \<delta> event ks =
     (case (get event (fst ks), get event (snd ks)) of
        (JStr ps, JStr expected) \<Rightarrow>
          (let p = resolve [] ps in
           ibind (iask (is_file p)) (\<lambda>b.
           ibind (ilift (raise_if (\<not> b) (OrchestratorError ''terminal artifact is unavailable''))) (\<lambda>_.
           ibind (sha256_file \<delta> p) (\<lambda>h.
           ilift (raise_if (h \<noteq> expected) (OrchestratorError ''terminal artifact hash mismatch''))))))
      | _ \<Rightarrow> ilift (Inl (OrchestratorError ''terminal event is missing artifact fields'')))"

definition check_terminal_identity :: "fields \<Rightarrow> err + unit" where
  "check_terminal_identity event =
     ebind (raise_if (\<not> is_supported_schema_version (get event ''schema_version'')) (OrchestratorError ''unsupported terminal event schema'')) (\<lambda>_.
     let kind = get event ''kind'' in
     ebind (raise_if (\<not> hashable kind) TypeError) (\<lambda>_.
     ebind (raise_if (kind \<noteq> JStr ''WORKER_TERMINAL'' \<and> kind \<noteq> JStr ''ORCHESTRATOR_TERMINAL'') (OrchestratorError ''unsupported terminal event kind'')) (\<lambda>_.
     let ks = (if kind = JStr ''WORKER_TERMINAL'' then [''event_id'', ''project_id'', ''task_id'']
               else [''event_id'', ''project_id'', ''source_kind'', ''operation_id'']) in
     ebind (raise_if (list_ex (\<lambda>k. \<not> nonempty_str (get event k)) ks) (OrchestratorError ''terminal event has invalid identity'')) (\<lambda>_.
     ebind (validate_event_id (get event ''event_id'')) (\<lambda>_.
     let status = get event ''terminal_status'' in
     ebind (raise_if (\<not> hashable status) TypeError) (\<lambda>_.
     raise_if (status \<notin> JStr ` set (if kind = JStr ''WORKER_TERMINAL'' then terminal_statuses else followup_statuses))
       (OrchestratorError ''terminal event has invalid terminal_status'')))))))"

definition verify_terminal_event :: "disk_env \<Rightarrow> path \<Rightarrow> fields io" where
  "verify_terminal_event \<delta> p =
     ibind (load_object p) (\<lambda>event.
     ibind (ilift (check_terminal_identity event)) (\<lambda>_.
     ibind (verify_artifact \<delta> event (''result_path'', ''result_sha256'')) (\<lambda>_.
     ibind (verify_artifact \<delta> event (''evidence_path'', ''evidence_sha256'')) (\<lambda>_.
     ireturn event))))"

definition subject_fields :: "fields \<Rightarrow> err + fields" where
  "subject_fields v =
     (if nonempty_str (get v ''task_id'') then Inr [(''task_id'', get v ''task_id'')]
      else if nonempty_str (get v ''operation_id'') then
        Inr ((''operation_id'', get v ''operation_id'')
             # (if nonempty_str (get v ''source_kind'') then [(''source_kind'', get v ''source_kind'')] else []))
      else Inl (OrchestratorError ''terminal artifact has no valid subject identity''))"

section \<open>The inbox\<close>

definition glob_json :: "path \<Rightarrow> disk \<Rightarrow> path list" where
  "glob_json dir d =
     sort (filter (\<lambda>p. p \<noteq> [] \<and> butlast p = dir \<and> 5 \<le> length (last p) \<and> drop (length (last p) - 5) (last p) = ''.json'')
       (dedup (map fst (dk_files d))))"

record listing =
  li_rows :: "fields list"
  li_invalid :: "path list"
  li_examined :: nat
  li_skipped :: nat

text \<open>\<open>inbox\<close>: with a sink, unreadable files are reported and skipped.\<close>

fun list_signals :: "bool \<Rightarrow> string list \<Rightarrow> path list \<Rightarrow> listing \<Rightarrow> listing io" where
  "list_signals sink skip [] l d = ireturn l d"
| "list_signals sink skip (p # ps) l d =
     (let l' = l\<lparr>li_examined := Suc (li_examined l)\<rparr> in
      if stem_of (last p) \<in> set skip then list_signals sink skip ps (l'\<lparr>li_skipped := Suc (li_skipped l')\<rparr>) d
      else case load_object p d of
        (Inr signal, d') \<Rightarrow>
          list_signals sink skip ps (l'\<lparr>li_rows := li_rows l' @ [AList.update ''signal_path'' (JStr (path_str p)) signal]\<rparr>) d'
      | (Inl s, d') \<Rightarrow> if sink then list_signals sink skip ps (l'\<lparr>li_invalid := li_invalid l' @ [p]\<rparr>) d' else (Inl s, d'))"

definition inbox :: "disk_env \<Rightarrow> bool \<Rightarrow> string list \<Rightarrow> listing io" where
  "inbox \<delta> sink skip =
     ibind (iask (glob_json (inbox_root \<delta> @ [''signals'']))) (\<lambda>ps.
     list_signals sink skip ps \<lparr>li_rows = [], li_invalid = [], li_examined = 0, li_skipped = 0\<rparr>)"

section \<open>Bounded logs\<close>

text \<open>The newest rows that fit, and at least one: \<open>rows\<close> is read from its end.\<close>

fun keep_rows :: "nat \<Rightarrow> string list \<Rightarrow> nat \<Rightarrow> string list \<Rightarrow> string list" where
  "keep_rows bound [] used kept = kept"
| "keep_rows bound (row # rows) used kept =
     (if kept \<noteq> [] \<and> bound < used + length row then kept
      else keep_rows bound rows (used + length row) (row # kept))"

definition compact_line_log :: "nat \<Rightarrow> string list \<Rightarrow> string list" where
  "compact_line_log bound rows = keep_rows bound (rev rows) 0 []"

section \<open>What a publication writes\<close>

lemma content_update: "dk_files d' = AList.update p c (dk_files d) \<Longrightarrow> content_at q d' = (if q = p then Some c else content_at q d)"
  by (simp add: content_at_def)

lemma atomic_json_content:
  assumes "atomic_json \<delta> p v d = (r, d')"
  shows "content_at q d' = content_at q d \<or> q = p \<and> content_at q d' = Some (Doc v)"
    "r = Inr u \<Longrightarrow> content_at p d' = Some (Doc v)"
    "q \<noteq> p \<Longrightarrow> content_at q d' = content_at q d"
  using atomic_json_files [OF assms] by (auto dest: content_update simp: content_at_def split: if_splits)

lemma load_object_eq [io_simps]:
  "load_object p d = (Inr fs, d') \<longleftrightarrow> content_at p d = Some (Doc (JObj fs)) \<and> d' = d"
  by (auto simp: load_object_def io_simps ilift_any split: option.splits content.splits json.splits sum.splits)

lemma load_object_val [simp]: "content_at p d = Some (Doc (JObj fs)) \<Longrightarrow> load_object p d = (Inr fs, d)"
  by (simp add: load_object_eq)

lemma load_object_stop: "load_object p d = (r, d') \<Longrightarrow> d' = d"
  by (auto simp: load_object_def io_simps ilift_any)

lemma disk_now_content: "disk_now \<delta> d = (r, d') \<Longrightarrow> dk_files d' = dk_files d"
  by (auto simp: disk_now_def)

definition publish_signal :: "disk_env \<Rightarrow> bool \<Rightarrow> path \<Rightarrow> fields \<Rightarrow> unit io" where
  "publish_signal \<delta> emit sp sg = (if emit then atomic_json \<delta> sp (JObj sg) else ireturn ())"

lemma publish_signal_content:
  assumes "publish_signal \<delta> emit sp sg d = (r, d')"
  shows "q \<noteq> sp \<Longrightarrow> content_at q d' = content_at q d" "r = Inr u \<Longrightarrow> emit \<Longrightarrow> content_at sp d' = Some (Doc (JObj sg))"
    "content_at q d' = content_at q d \<or> q = sp \<and> content_at q d' = Some (Doc (JObj sg))"
  using assms by (auto simp: publish_signal_def io_simps dest: atomic_json_content split: if_splits)

lemma retain_cases:
  assumes run: "retain_event_and_signal \<delta> ep sp event signal immutable emit d = (r, d')"
  obtains (refused) s where "r = Inl s" "d' = d" "content_at ep d \<noteq> None"
  | (kept) ex t q where "content_at ep d = Some (Doc (JObj ex))" "\<forall>k\<in>set immutable. json_eq (get ex k) (get event k)"
      "map_of ex ''created_at'' = Some t" "publish_signal \<delta> emit sp (AList.update ''created_at'' t signal) d = (q, d')"
      "r = (case q of Inl s \<Rightarrow> Inl s | Inr _ \<Rightarrow> Inr ex)"
  | (lost) s where "content_at ep d = None" "atomic_json \<delta> ep (JObj event) d = (Inl s, d')" "r = Inl s"
  | (stored) u d1 q where "content_at ep d = None" "atomic_json \<delta> ep (JObj event) d = (Inr u, d1)"
      "publish_signal \<delta> emit sp signal d1 = (q, d')" "r = (case q of Inl s \<Rightarrow> Inl s | Inr _ \<Rightarrow> Inr event)"
proof (cases "content_at ep d")
  case None
  then have "is_file ep d = False" by (simp add: is_file_def)
  note run = run [unfolded retain_event_and_signal_def publish_signal_def [symmetric]]
  from run None lost stored show thesis
    by (auto simp: io_simps is_file_def split: sum.splits)
next
  case (Some c)
  then have f: "is_file ep d = True" by (simp add: is_file_def)
  note run = run [unfolded retain_event_and_signal_def publish_signal_def [symmetric]]
  show thesis
  proof (cases "load_object ep d")
    case (Pair l d1)
    note d1 = load_object_stop [OF Pair]
    show thesis
    proof (cases l)
      case (Inl s)
      with run Pair f d1 Some refused show thesis by (auto simp: io_simps)
    next
      case (Inr ex)
      note load = Pair [unfolded Inr d1]
      from Inr Pair have ex: "content_at ep d = Some (Doc (JObj ex))" by (simp add: io_simps)
      show thesis
      proof (cases "list_ex (\<lambda>k. \<not> json_eq (get ex k) (get event k)) immutable")
        case True
        with run load f Some refused show thesis by (auto simp: io_simps)
      next
        case False
        then have imm: "\<forall>k\<in>set immutable. json_eq (get ex k) (get event k)" by (simp add: list_ex_iff)
        show thesis
        proof (cases "map_of ex ''created_at''")
          case None
          with run load f ex False refused show thesis by (auto simp: io_simps)
        next
          case (Some t)
          with run load f False kept [OF ex imm Some] show thesis by (auto simp: io_simps split: sum.splits)
        qed
      qed
    qed
  qed
qed

text \<open>The retained outcome: the event that was there first stays, and the caller gets it.\<close>

lemma retained:
  assumes run: "retain_event_and_signal \<delta> ep sp event signal immutable emit d = (r, d')" and sep: "ep \<noteq> sp"
  shows "q \<noteq> ep \<Longrightarrow> q \<noteq> sp \<Longrightarrow> content_at q d' = content_at q d"
    "content_at ep d \<noteq> None \<Longrightarrow> content_at ep d' = content_at ep d"
    "content_at ep d = None \<Longrightarrow> content_at ep d' \<in> {None, Some (Doc (JObj event))}"
    "r = Inr ev \<Longrightarrow> content_at ep d' = Some (Doc (JObj ev)) \<and> (\<forall>k\<in>set immutable. json_eq (get ev k) (get event k))"
    "r = Inr ev \<Longrightarrow> emit \<Longrightarrow> \<exists>t. content_at sp d' = Some (Doc (JObj t))"
proof -
  have "(q \<noteq> ep \<longrightarrow> q \<noteq> sp \<longrightarrow> content_at q d' = content_at q d) \<and> (content_at ep d \<noteq> None \<longrightarrow> content_at ep d' = content_at ep d) \<and>
    (content_at ep d = None \<longrightarrow> content_at ep d' \<in> {None, Some (Doc (JObj event))}) \<and>
    (\<forall>ev. r = Inr ev \<longrightarrow> content_at ep d' = Some (Doc (JObj ev)) \<and> (\<forall>k\<in>set immutable. json_eq (get ev k) (get event k)) \<and>
      (emit \<longrightarrow> (\<exists>t. content_at sp d' = Some (Doc (JObj t)))))" for q
    using run
  proof (cases rule: retain_cases)
    case refused
    then show ?thesis by simp
  next
    case (kept ex t p)
    from publish_signal_content [OF kept(4)] sep have c: "content_at ep d' = content_at ep d" "q \<noteq> sp \<Longrightarrow> content_at q d' = content_at q d"
      by auto
    show ?thesis
    proof (cases p)
      case (Inl s)
      with kept c show ?thesis by simp
    next
      case (Inr u)
      with kept c publish_signal_content(2) [OF kept(4) Inr] show ?thesis by simp
    qed
  next
    case (lost s)
    from atomic_json_content(3) [OF lost(2), of q] atomic_json_content(1) [OF lost(2), of ep] lost show ?thesis by auto
  next
    case (stored u d1 p)
    from publish_signal_content(1) [OF stored(3)] sep have c: "content_at ep d' = content_at ep d1" "q \<noteq> sp \<Longrightarrow> content_at q d' = content_at q d1"
      by auto
    from atomic_json_content(2) [OF stored(2) refl] have e: "content_at ep d1 = Some (Doc (JObj event))" .
    from atomic_json_content(3) [OF stored(2)] have f: "q \<noteq> ep \<Longrightarrow> content_at q d1 = content_at q d" .
    show ?thesis
    proof (cases p)
      case (Inl s)
      with stored c e f show ?thesis by simp
    next
      case (Inr u)
      with stored c e f publish_signal_content(2) [OF stored(3) Inr] show ?thesis by simp
    qed
  qed
  note all = this
  show "q \<noteq> ep \<Longrightarrow> q \<noteq> sp \<Longrightarrow> content_at q d' = content_at q d" using all [of q] by blast
  show "content_at ep d \<noteq> None \<Longrightarrow> content_at ep d' = content_at ep d"
    "content_at ep d = None \<Longrightarrow> content_at ep d' \<in> {None, Some (Doc (JObj event))}"
    "r = Inr ev \<Longrightarrow> content_at ep d' = Some (Doc (JObj ev)) \<and> (\<forall>k\<in>set immutable. json_eq (get ev k) (get event k))"
    "r = Inr ev \<Longrightarrow> emit \<Longrightarrow> \<exists>t. content_at sp d' = Some (Doc (JObj t))"
    using all [of ep] by blast+
qed
section \<open>Outcomes are immutable\<close>

datatype publication =
    Publish_Terminal string string path path "string option" "json option" bool
  | Publish_Followup string string string path path "string option" "json option" bool "string option"

definition publish :: "disk_env \<Rightarrow> publication \<Rightarrow> fields io" where
  "publish \<delta> p = (case p of
      Publish_Terminal task status rp vp eid wake emit \<Rightarrow> write_terminal_event \<delta> task status rp vp eid wake emit
    | Publish_Followup oid source status rp vp eid wake emit nb \<Rightarrow> write_followup_event \<delta> oid source status rp vp eid wake emit nb)"

lemma quiet_reads:
  "ioframe files_kept (ensure_file p)" "ioframe files_kept (sha256_file \<delta> p)" "ioframe files_kept (utc_now \<delta>)"
  "ioframe files_kept (chosen_id \<delta> eid (ireturn i))" "ioframe files_kept (chosen_id \<delta> eid (random_id \<delta>))"
  unfolding ensure_file_def sha256_file_def utc_now_def chosen_id_def random_id_def
  by (auto split: option.split intro!: quiet_disk.frame_intros)

lemmas quiet_readsD = quiet_reads [unfolded ioframe_def files_kept_def, rule_format]

text \<open>A publication either writes nothing or ends by retaining its event.\<close>

definition ends_with :: "(disk \<Rightarrow> stop + 'a \<Rightarrow> disk \<Rightarrow> bool) \<Rightarrow> 'a io \<Rightarrow> bool" where
  "ends_with P m \<longleftrightarrow> (\<forall>d r d'. m d = (r, d') \<longrightarrow>
     (\<exists>s. r = Inl s \<and> dk_files d' = dk_files d) \<or> (\<exists>d1. dk_files d1 = dk_files d \<and> P d1 r d'))"

lemma ends_with_bind: "ioframe files_kept m \<Longrightarrow> (\<And>x. ends_with P (f x)) \<Longrightarrow> ends_with P (ibind m f)"
  unfolding ends_with_def ioframe_def files_kept_def ibind_eq by metis

lemma ends_with_end: "(\<And>d r d'. m d = (r, d') \<Longrightarrow> P d r d') \<Longrightarrow> ends_with P m"
  by (auto simp: ends_with_def)

definition retains :: "disk_env \<Rightarrow> disk \<Rightarrow> stop + fields \<Rightarrow> disk \<Rightarrow> bool" where
  "retains \<delta> d r d' \<longleftrightarrow> (\<exists>i event signal immutable emit.
     retain_event_and_signal \<delta> (event_path \<delta> i) (signal_path \<delta> i) event signal immutable emit d = (r, d'))"

lemma retain_ends:
  "ends_with (retains \<delta>) (retain_event_and_signal \<delta> (event_path \<delta> i) (signal_path \<delta> i) event signal immutable emit)"
  by (rule ends_with_end, unfold retains_def, intro exI)

lemma publish_ends: "ends_with (retains \<delta>) (publish \<delta> p)"
  by (cases p) (auto simp: publish_def write_terminal_event_def write_followup_event_def Let_def
      intro!: ends_with_bind retain_ends quiet_disk.pure quiet_reads)

lemma publish_cases:
  assumes "publish \<delta> p d = (r, d')"
  obtains (nothing) s where "r = Inl s" "dk_files d' = dk_files d"
  | (retain) d1 i event signal immutable emit where "dk_files d1 = dk_files d"
      "retain_event_and_signal \<delta> (event_path \<delta> i) (signal_path \<delta> i) event signal immutable emit d1 = (r, d')"
  using publish_ends [of \<delta> p] assms unfolding ends_with_def retains_def by blast

lemma event_signal_distinct: "event_path \<delta> i \<noteq> signal_path \<delta>' j" if "de_state \<delta> = de_state \<delta>'"
  using that by (auto simp: event_path_def signal_path_def json_file_def events_root_def inbox_root_def)

fun publish_all :: "(disk_env \<times> publication) list \<Rightarrow> disk \<Rightarrow> disk" where
  "publish_all [] d = d"
| "publish_all ((\<delta>, p) # ps) d = publish_all ps (snd (publish \<delta> p d))"

text \<open>C37: Once an event is in place its outcome never changes: whatever publications follow, of tasks or of other
  operations, under the same or another identity, interrupted anywhere, the event file keeps its content.\<close>

theorem event_outcome_is_immutable:
  assumes "list_all (\<lambda>(\<delta>', p). de_state \<delta>' = de_state \<delta>) ps" "content_at (event_path \<delta> i) d = Some c"
  shows "content_at (event_path \<delta> i) (publish_all ps d) = Some c"
  using assms
proof (induction ps arbitrary: d)
  case (Cons x ps)
  obtain \<delta>' p where x: "x = (\<delta>', p)" by (cases x)
  obtain r d' where run: "publish \<delta>' p d = (r, d')" by fastforce
  from Cons.prems x have state: "de_state \<delta>' = de_state \<delta>" by simp
  then have ep: "event_path \<delta> i = event_path \<delta>' i" by (simp add: event_path_def events_root_def)
  have "content_at (event_path \<delta> i) d' = Some c"
    using run
  proof (cases rule: publish_cases)
    case nothing
    with Cons.prems(2) show ?thesis by (simp add: content_at_def)
  next
    case (retain d1 j event signal immutable emit)
    have c: "content_at (event_path \<delta>' i) d1 = Some c" using Cons.prems(2) retain(1) ep by (simp add: content_at_def)
    note keep = retained [OF retain(2) event_signal_distinct [OF refl]]
    show ?thesis
    proof (cases "event_path \<delta>' i = event_path \<delta>' j")
      case True
      with keep(2) c ep show ?thesis by simp
    next
      case False
      with keep(1) [of "event_path \<delta>' i"] c ep event_signal_distinct [of \<delta>' \<delta>' i j] show ?thesis by simp
    qed
  qed
  with Cons run x show ?case by simp
qed simp

section \<open>A publication that was interrupted is completed by the next one\<close>

definition healthy :: "disk_env \<Rightarrow> bool" where
  "healthy \<delta> \<longleftrightarrow> (\<forall>n. de_fault \<delta> n = Fine)"

lemma healthy_effect: "healthy \<delta> \<Longrightarrow> \<exists>d'. effect \<delta> f d = (Inr (), d')"
  by (auto simp: healthy_def effect_def Let_def)

lemma healthy_atomic_json: "healthy \<delta> \<Longrightarrow> \<exists>d'. atomic_json \<delta> p v d = (Inr (), d')"
  by (auto simp: healthy_def effect_def Let_def atomic_json_def prepare_index_candidates_def prepare_marker_def record_candidates_def
     record_candidate_def clear_index_marker_def ibind_def ireturn_def iask_def on_oserror_def split: option.split)

lemma healthy_signal: "healthy \<delta> \<Longrightarrow> \<exists>d'. publish_signal \<delta> emit sp sg d = (Inr (), d')"
  using healthy_atomic_json [of \<delta> sp "JObj sg" d] by (auto simp: publish_signal_def ireturn_def)

lemma healthy_retain:
  assumes h: "healthy \<delta>" and old: "\<And>c. content_at ep d = Some c \<Longrightarrow> \<exists>ex. c = Doc (JObj ex) \<and>
     (\<forall>k\<in>set immutable. json_eq (get ex k) (get event k)) \<and> map_of ex ''created_at'' \<noteq> None"
  shows "\<exists>ev d'. retain_event_and_signal \<delta> ep sp event signal immutable emit d = (Inr ev, d')"
proof -
  note unfold = retain_event_and_signal_def publish_signal_def [symmetric]
  show ?thesis
  proof (cases "content_at ep d")
    case None
    obtain d1 where a: "atomic_json \<delta> ep (JObj event) d = (Inr (), d1)" using healthy_atomic_json [OF h] by metis
    obtain d2 where s: "publish_signal \<delta> emit sp signal d1 = (Inr (), d2)" using healthy_signal [OF h] by metis
    from None a s show ?thesis
      by (simp add: unfold ibind_def iask_def ireturn_def is_file_def)
  next
    case (Some c)
    from old [OF this] obtain ex t where ex: "content_at ep d = Some (Doc (JObj ex))" "\<not> list_ex (\<lambda>k. \<not> json_eq (get ex k) (get event k)) immutable"
      "map_of ex ''created_at'' = Some t" using Some by (auto simp: list_ex_iff)
    obtain d2 where s: "publish_signal \<delta> emit sp (AList.update ''created_at'' t signal) d = (Inr (), d2)" using healthy_signal [OF h] by metis
    from ex s show ?thesis
      by (simp add: unfold ibind_def iask_def ireturn_def is_file_def ilift_def)
  qed
qed


text \<open>The successful path of a follow-up publication, up to the event it wants to retain.\<close>

definition followup_ok :: "disk_env \<Rightarrow> string \<Rightarrow> string \<Rightarrow> string \<Rightarrow> path \<Rightarrow> path \<Rightarrow> string \<Rightarrow> string option \<Rightarrow> disk \<Rightarrow> bool" where
  "followup_ok \<delta> oid source status rp vp i nb d \<longleftrightarrow> oid \<noteq> [] \<and> source \<noteq> [] \<and> status \<in> set followup_statuses \<and> is_file rp d \<and> is_file vp d \<and>
     id_pattern i \<and> (\<exists>due. normalized_not_before \<delta> nb = Inr due)"

definition digest_at :: "disk_env \<Rightarrow> path \<Rightarrow> disk \<Rightarrow> string" where
  "digest_at \<delta> p d = (case content_at p d of None \<Rightarrow> [] | Some c \<Rightarrow> de_digest \<delta> c)"

definition followup_body :: "disk_env \<Rightarrow> string \<Rightarrow> string \<Rightarrow> string \<Rightarrow> path \<Rightarrow> path \<Rightarrow> string \<Rightarrow> json option \<Rightarrow> string option \<Rightarrow> string \<Rightarrow> disk \<Rightarrow> fields" where
  "followup_body \<delta> oid source status rp vp i wake nb t d =
     event_body \<delta> ''ORCHESTRATOR_TERMINAL'' i [(''source_kind'', JStr source), (''operation_id'', JStr oid)] status
       (artifact_fields rp (digest_at \<delta> rp d) vp (digest_at \<delta> vp d)) t
     @ optional_field ''wake_target'' wake @ optional_field ''not_before'' (case normalized_not_before \<delta> nb of Inr due \<Rightarrow> due | Inl _ \<Rightarrow> None)"

lemma write_followup_eq:
  assumes "followup_ok \<delta> oid source status rp vp i nb d"
  shows "\<exists>t signal d1. write_followup_event \<delta> oid source status rp vp (Some i) wake emit nb d =
     retain_event_and_signal \<delta> (event_path \<delta> i) (signal_path \<delta> i) (followup_body \<delta> oid source status rp vp i wake nb t d) signal
       followup_immutable emit d1 \<and> dk_files d1 = dk_files d"
proof -
  from assms obtain due where due: "normalized_not_before \<delta> nb = Inr due" by (auto simp: followup_ok_def)
  have "ensure_file rp d = (Inr (), d)" "ensure_file vp d = (Inr (), d)" "chosen_id \<delta> (Some i) (ireturn j) d = (Inr i, d)"
    "sha256_file \<delta> rp d = (Inr (digest_at \<delta> rp d), d)" "sha256_file \<delta> vp d = (Inr (digest_at \<delta> vp d), d)" for j
    using assms by (auto simp: ensure_file_def chosen_id_def sha256_file_def ibind_def iask_def ilift_def ireturn_def followup_ok_def is_file_def digest_at_def)
  then show ?thesis
    using assms due unfolding write_followup_event_def Let_def
    by (simp add: followup_ok_def ibind_def ilift_def utc_now_def disk_now_def ireturn_def followup_body_def) (intro exI conjI, rule refl, simp)
qed

lemma body_immutable:
  "k \<in> set followup_immutable \<Longrightarrow> get (followup_body \<delta> oid source status rp vp i wake nb t d) k = get (followup_body \<delta> oid source status rp vp i wake nb t' d) k"
  "map_of (followup_body \<delta> oid source status rp vp i wake nb t d) ''created_at'' = Some (JStr t)"
  by (auto simp: followup_immutable_def followup_body_def event_body_def artifact_fields_def)



section \<open>What verification accepts\<close>

lemma json_eq_str: "json_eq x (JStr s) \<longleftrightarrow> x = JStr s"
proof
  assume "json_eq x (JStr s)"
  then show "x = JStr s" by (cases x) (auto simp: json_eq_def split: if_splits)
qed simp

text \<open>A path whose components are names.\<close>

definition clean_path :: "path \<Rightarrow> bool" where
  "clean_path p \<longleftrightarrow> list_all (\<lambda>c. c \<noteq> [] \<and> c \<noteq> ''.'' \<and> c \<noteq> ''..'' \<and> slash \<notin> set c) p"

lemma split_name: "slash \<notin> set c \<Longrightarrow> split_on slash c = [c]"
  by (induction c) auto

lemma split_name_more: "slash \<notin> set c \<Longrightarrow> split_on slash (c @ slash # s) = c # split_on slash s"
  by (induction c) auto

lemma split_join: "list_all (\<lambda>c. slash \<notin> set c) p \<Longrightarrow> p \<noteq> [] \<Longrightarrow> split_on slash (join_with slash p) = p"
proof (induction p)
  case (Cons a p)
  then show ?case by (cases p) (simp_all add: split_name split_name_more)
qed simp

lemma resolve_path_str: "clean_path p \<Longrightarrow> resolve [] (path_str p) = p"
proof -
  assume c: "clean_path p"
  then have l: "list_all (\<lambda>c. slash \<notin> set c) p" by (auto simp: clean_path_def list_all_iff)
  have f: "fold enter p base = base @ p" for base
    using c fold_enter [of p base] by (auto simp: clean_path_def list_all_iff filter_id_conv)
  show ?thesis
  proof (cases p)
    case Nil
    then show ?thesis by (simp add: path_str_def resolve_def)
  next
    case (Cons a q)
    with split_join [OF l] f [of "[]"] show ?thesis by (simp add: path_str_def resolve_def)
  qed
qed

lemma body_fields:
  "get (followup_body \<delta> oid source status rp vp i wake nb t d) ''kind'' = JStr ''ORCHESTRATOR_TERMINAL''"
  "get (followup_body \<delta> oid source status rp vp i wake nb t d) ''schema_version'' = JInt 1"
  "get (followup_body \<delta> oid source status rp vp i wake nb t d) ''event_id'' = JStr i"
  "get (followup_body \<delta> oid source status rp vp i wake nb t d) ''project_id'' = JStr (de_project \<delta>)"
  "get (followup_body \<delta> oid source status rp vp i wake nb t d) ''source_kind'' = JStr source"
  "get (followup_body \<delta> oid source status rp vp i wake nb t d) ''operation_id'' = JStr oid"
  "get (followup_body \<delta> oid source status rp vp i wake nb t d) ''terminal_status'' = JStr status"
  "get (followup_body \<delta> oid source status rp vp i wake nb t d) ''result_path'' = JStr (path_str rp)"
  "get (followup_body \<delta> oid source status rp vp i wake nb t d) ''result_sha256'' = JStr (digest_at \<delta> rp d)"
  "get (followup_body \<delta> oid source status rp vp i wake nb t d) ''evidence_path'' = JStr (path_str vp)"
  "get (followup_body \<delta> oid source status rp vp i wake nb t d) ''evidence_sha256'' = JStr (digest_at \<delta> vp d)"
  by (simp_all add: followup_body_def event_body_def artifact_fields_def)

lemma nonempty_str_iff [simp]: "nonempty_str (JStr s) \<longleftrightarrow> s \<noteq> []"
  by (cases s) simp_all

lemma verify_artifact_ok:
  assumes "get ev pk = JStr (path_str p)" "get ev hk = JStr (digest_at \<delta> p d)" "clean_path p" "is_file p d"
  shows "verify_artifact \<delta> ev (pk, hk) d = (Inr (), d)"
  using assms(4) by (auto simp: verify_artifact_def assms(1,2) resolve_path_str [OF assms(3)] Let_def ibind_def iask_def ilift_def sha256_file_def
      is_file_def digest_at_def)

text \<open>C39: A published event verifies: what a follow-up publication returns is accepted by the verification of the
  event file it wrote, as long as the artifacts stay as they are.\<close>

theorem published_event_verifies:
  assumes ok: "followup_ok \<delta> oid source status rp vp i nb d" and project: "de_project \<delta> \<noteq> []"
    and apart: "rp \<notin> {event_path \<delta> i, signal_path \<delta> i}" "vp \<notin> {event_path \<delta> i, signal_path \<delta> i}"
    and clean: "clean_path rp" "clean_path vp"
    and old: "\<And>ex. content_at (event_path \<delta> i) d = Some (Doc (JObj ex)) \<Longrightarrow> is_supported_schema_version (get ex ''schema_version'')"
    and run: "write_followup_event \<delta> oid source status rp vp (Some i) wake emit nb d = (Inr ev, d')"
  shows "verify_terminal_event \<delta> (event_path \<delta> i) d' = (Inr ev, d')"
proof -
  let ?ep = "event_path \<delta> i" and ?sp = "signal_path \<delta> i"
  have sep: "?ep \<noteq> ?sp" by (rule event_signal_distinct) simp
  from write_followup_eq [OF ok, of wake emit] run obtain t signal e1 where
    r: "retain_event_and_signal \<delta> ?ep ?sp (followup_body \<delta> oid source status rp vp i wake nb t d) signal followup_immutable emit e1 = (Inr ev, d')"
    and e1: "dk_files e1 = dk_files d" by metis
  let ?body = "followup_body \<delta> oid source status rp vp i wake nb t d"
  from retained(4) [OF r sep refl] have stored: "content_at ?ep d' = Some (Doc (JObj ev))"
    and imm: "\<And>k. k \<in> set followup_immutable \<Longrightarrow> json_eq (get ev k) (get ?body k)" by auto
  note fields_eq = imm [of "''kind''"] imm [of "''event_id''"] imm [of "''project_id''"] imm [of "''source_kind''"] imm [of "''operation_id''"]
    imm [of "''terminal_status''"] imm [of "''result_path''"] imm [of "''result_sha256''"] imm [of "''evidence_path''"] imm [of "''evidence_sha256''"]
  have same: "content_at q d' = content_at q d" if "q \<notin> {?ep, ?sp}" for q
    using retained(1) [OF r sep, of q] that e1 by (simp add: content_at_def)
  have version: "is_supported_schema_version (get ev ''schema_version'')"
  proof (cases "content_at ?ep d")
    case None
    then have "content_at ?ep e1 = None" using e1 by (simp add: content_at_def)
    from retained(3) [OF r sep this] stored have "ev = ?body" by auto
    then show ?thesis by (simp add: body_fields is_supported_schema_version_def)
  next
    case (Some c)
    then have "content_at ?ep d' = Some c" using retained(2) [OF r sep] e1 by (simp add: content_at_def)
    with stored Some old show ?thesis by simp
  qed
  have "i \<noteq> []" using ok by (auto simp: followup_ok_def)
  then have ident: "check_terminal_identity ev = Inr ()"
    using fields_eq version ok project
    by (simp add: check_terminal_identity_def followup_immutable_def body_fields json_eq_str Let_def followup_ok_def)
  have files: "is_file rp d'" "is_file vp d'" "digest_at \<delta> rp d' = digest_at \<delta> rp d" "digest_at \<delta> vp d' = digest_at \<delta> vp d"
    using ok same apart by (auto simp: followup_ok_def is_file_def digest_at_def)
  have "verify_artifact \<delta> ev (''result_path'', ''result_sha256'') d' = (Inr (), d')"
    by (rule verify_artifact_ok [where p = rp]) (use fields_eq files clean in \<open>auto simp: followup_immutable_def body_fields json_eq_str\<close>)
  moreover have "verify_artifact \<delta> ev (''evidence_path'', ''evidence_sha256'') d' = (Inr (), d')"
    by (rule verify_artifact_ok [where p = vp]) (use fields_eq files clean in \<open>auto simp: followup_immutable_def body_fields json_eq_str\<close>)
  ultimately show ?thesis
    using stored ident by (simp add: verify_terminal_event_def ibind_def ilift_def ireturn_def)
qed

text \<open>C40: Verification accepts nothing but intact outcomes: an accepted event is the content of its file, has a known
  kind and status, and both artifacts it names exist with exactly the digests it records.\<close>

theorem verified_event_is_intact:
  assumes "verify_terminal_event \<delta> p d = (Inr ev, d')"
  shows "d' = d \<and> content_at p d = Some (Doc (JObj ev)) \<and>
     get ev ''kind'' \<in> {JStr ''WORKER_TERMINAL'', JStr ''ORCHESTRATOR_TERMINAL''} \<and>
     get ev ''terminal_status'' \<in> JStr ` (set terminal_statuses \<union> set followup_statuses) \<and>
     (\<exists>rp rh vp vh rc vc. get ev ''result_path'' = JStr rp \<and> get ev ''result_sha256'' = JStr rh \<and>
        get ev ''evidence_path'' = JStr vp \<and> get ev ''evidence_sha256'' = JStr vh \<and>
        content_at (resolve [] rp) d = Some rc \<and> de_digest \<delta> rc = rh \<and> content_at (resolve [] vp) d = Some vc \<and> de_digest \<delta> vc = vh)"
proof -
  have art: "d2 = d1 \<and> (\<exists>ps h c. get ev pk = JStr ps \<and> get ev hk = JStr h \<and> content_at (resolve [] ps) d1 = Some c \<and> de_digest \<delta> c = h)"
    if "verify_artifact \<delta> ev (pk, hk) d1 = (Inr u, d2)" for pk hk d1 d2 u
    using that by (auto simp: verify_artifact_def io_simps Let_def sha256_file_def is_file_def split: json.splits option.splits sum.splits if_splits)
  from assms have parts: "content_at p d = Some (Doc (JObj ev)) \<and> check_terminal_identity ev = Inr () \<and>
     (\<exists>d1. verify_artifact \<delta> ev (''result_path'', ''result_sha256'') d = (Inr (), d1) \<and>
       verify_artifact \<delta> ev (''evidence_path'', ''evidence_sha256'') d1 = (Inr (), d'))"
    using assms by (auto simp: verify_terminal_event_def io_simps)
  then obtain u1 u2 d1 where load: "content_at p d = Some (Doc (JObj ev))" and ident: "check_terminal_identity ev = Inr ()"
    and a1: "verify_artifact \<delta> ev (''result_path'', ''result_sha256'') d = (Inr u1, d1)"
    and a2: "verify_artifact \<delta> ev (''evidence_path'', ''evidence_sha256'') d1 = (Inr u2, d')"
    by blast
  from ident have "get ev ''kind'' \<in> {JStr ''WORKER_TERMINAL'', JStr ''ORCHESTRATOR_TERMINAL''}"
    "get ev ''terminal_status'' \<in> JStr ` (set terminal_statuses \<union> set followup_statuses)"
    by (auto simp: check_terminal_identity_def err_simps Let_def split: if_splits)
  with load art [OF a1] art [OF a2] show ?thesis by auto
qed

section \<open>Compaction keeps the newest rows\<close>

lemma keep_rows_kept:
  assumes "used = sum_list (map length kept)" "length kept \<le> 1 \<or> used \<le> bound"
  shows "(\<exists>ys. rev rows @ kept = ys @ keep_rows bound rows used kept) \<and> (rows @ kept \<noteq> [] \<longrightarrow> keep_rows bound rows used kept \<noteq> []) \<and>
     (length (keep_rows bound rows used kept) \<le> 1 \<or> sum_list (map length (keep_rows bound rows used kept)) \<le> bound)"
  using assms
proof (induction rows arbitrary: used kept)
  case (Cons row rows)
  show ?case
  proof (cases "kept \<noteq> [] \<and> bound < used + length row")
    case True
    then show ?thesis using Cons.prems by (auto intro: exI [of _ "rev rows @ [row]"])
  next
    case False
    have u: "used + length row = sum_list (map length (row # kept))" using Cons.prems(1) by simp
    have b: "length (row # kept) \<le> 1 \<or> used + length row \<le> bound" using False Cons.prems by auto
    from Cons.IH [OF u b] False show ?thesis by auto
  qed
qed simp

text \<open>Compacting a log drops whole rows from its beginning only, never the newest row, and what it keeps fits the
  bound unless it is that single row.\<close>

theorem compact_log_bounded:
  "(\<exists>dropped. rows = dropped @ compact_line_log bound rows) \<and> (if rows = [] then True else compact_line_log bound rows \<noteq> []) \<and>
   (if length (compact_line_log bound rows) \<le> 1 then True else sum_list (map length (compact_line_log bound rows)) \<le> bound)"
  using keep_rows_kept [of 0 "[]" bound "rev rows"] by (auto simp: compact_line_log_def)

section \<open>Publications on a concrete disk\<close>

lemma demo_healthy: "healthy (demo_disk_env well)"
  by (simp add: healthy_def demo_disk_env_def well_def)

lemma demo_followup_ok: "followup_ok (demo_disk_env f) ''o'' ''k'' ''completed'' [''w'', ''r''] [''w'', ''e''] ''i'' None demo_disk"
  by (simp add: followup_ok_def followup_statuses_def is_file_def content_at_def demo_disk_def normalized_not_before_def is_alnum_def)

lemma healthy_followup:
  assumes "healthy \<delta>" "followup_ok \<delta> oid source status rp vp i nb d" "content_at (event_path \<delta> i) d = None"
  shows "\<exists>ev d'. write_followup_event \<delta> oid source status rp vp (Some i) wake emit nb d = (Inr ev, d')"
proof -
  from write_followup_eq [OF assms(2), of wake emit] obtain t signal e where
    w: "write_followup_event \<delta> oid source status rp vp (Some i) wake emit nb d =
     retain_event_and_signal \<delta> (event_path \<delta> i) (signal_path \<delta> i) (followup_body \<delta> oid source status rp vp i wake nb t d) signal
       followup_immutable emit e" and "dk_files e = dk_files d" by blast
  then have none: "content_at (event_path \<delta> i) e = None" using assms(3) by (simp add: content_at_def)
  show ?thesis unfolding w by (rule healthy_retain [OF assms(1)]) (use none in simp)
qed

lemma demo_paths: "event_path (demo_disk_env f) ''i'' = [''w'', ''s'', ''events'', ''i.json'']"
  "signal_path (demo_disk_env f) ''i'' = [''w'', ''s'', ''inbox'', ''signals'', ''i.json'']"
  by (simp_all add: event_path_def signal_path_def json_file_def events_root_def inbox_root_def demo_disk_env_def)

definition demo_event_disk :: disk where
  "demo_event_disk = put_file [''w'', ''s'', ''events'', ''i.json''] (Doc (JObj [])) demo_disk"

theorem event_outcome_is_immutable_witness:
  "content_at [''w'', ''s'', ''events'', ''i.json'']
     (publish_all [(demo_disk_env (dies_at 4), Publish_Followup ''o'' ''k'' ''failed'' [''w'', ''r''] [''w'', ''e''] (Some ''i'') None True None),
        (demo_disk_env well, Publish_Terminal ''t'' ''completed'' [''w'', ''r''] [''w'', ''e''] None None True)] demo_event_disk)
   = Some (Doc (JObj []))"
proof -
  have "content_at (event_path (demo_disk_env well) ''i'') demo_event_disk = Some (Doc (JObj []))"
    by (simp add: demo_paths demo_event_disk_def put_file_def content_at_def)
  from event_outcome_is_immutable [OF _ this, unfolded demo_paths] show ?thesis by (simp add: demo_disk_env_def del: publish_all.simps)
qed


theorem published_event_verifies_witness:
  "\<exists>ev d'. write_followup_event (demo_disk_env well) ''o'' ''k'' ''completed'' [''w'', ''r''] [''w'', ''e''] (Some ''i'') None True None demo_disk = (Inr ev, d') \<and>
     verify_terminal_event (demo_disk_env well) [''w'', ''s'', ''events'', ''i.json''] d' = (Inr ev, d')"
proof -
  have new: "content_at (event_path (demo_disk_env well) ''i'') demo_disk = None"
    by (simp add: demo_paths demo_disk_def content_at_def)
  from healthy_followup [OF demo_healthy demo_followup_ok new] obtain ev d' where
    run: "write_followup_event (demo_disk_env well) ''o'' ''k'' ''completed'' [''w'', ''r''] [''w'', ''e''] (Some ''i'') None True None demo_disk = (Inr ev, d')"
    by blast
  have "verify_terminal_event (demo_disk_env well) (event_path (demo_disk_env well) ''i'') d' = (Inr ev, d')"
    by (rule published_event_verifies [OF demo_followup_ok _ _ _ _ _ _ run])
      (use new in \<open>simp_all add: demo_paths clean_path_def\<close>, simp add: demo_disk_env_def)
  with run show ?thesis by (auto simp: demo_paths)
qed

definition demo_intact_event :: fields where
  "demo_intact_event = [(''schema_version'', JInt 1), (''kind'', JStr ''WORKER_TERMINAL''), (''event_id'', JStr ''i''), (''project_id'', JStr ''p''),
     (''task_id'', JStr ''t''), (''terminal_status'', JStr ''failed''), (''result_path'', JStr ''/w/r''), (''result_sha256'', JStr (replicate 64 CHR ''a'')),
     (''evidence_path'', JStr ''/w/e''), (''evidence_sha256'', JStr (replicate 64 CHR ''a''))]"

theorem verified_event_is_intact_witness:
  "content_at (resolve [] ''/w/r'') demo_disk \<noteq> None \<and> get demo_intact_event ''kind'' \<in> {JStr ''WORKER_TERMINAL'', JStr ''ORCHESTRATOR_TERMINAL''}"
proof -
  let ?d = "put_file [''w'', ''v''] (Doc (JObj demo_intact_event)) demo_disk"
  obtain r d' where run: "verify_terminal_event (demo_disk_env well) [''w'', ''v''] ?d = (r, d')" by fastforce
  have "fst (verify_terminal_event (demo_disk_env well) [''w'', ''v''] ?d) = Inr demo_intact_event" by code_simp
  with run have "r = Inr demo_intact_event" by simp
  from verified_event_is_intact [OF run [unfolded this]] have "get demo_intact_event ''kind'' \<in> {JStr ''WORKER_TERMINAL'', JStr ''ORCHESTRATOR_TERMINAL''}"
    and "\<exists>rc. content_at (resolve [] ''/w/r'') ?d = Some rc" by (auto simp: demo_intact_event_def)
  then show ?thesis by (simp add: put_file_def content_at_def resolve_def split: if_splits)
qed

end
