(* ===== verification/Workstreams.thy ===== *)
theory Workstreams
  imports Terminal_Events Worker_Lease
begin

text \<open>
  Durable workstreams (\<open>workstreams.py\<close>): a descriptor with optional continuation limits, an
  append-only sequence of checkpoint files, and for every checkpoint that continues automatically a
  follow-up event. The checkpoint file is written first, then the descriptor, then the artifacts,
  the event and its signal; whatever a crash leaves out is reconstructed from the checkpoint files.

  Every operation holds the lock of its workstream, so operations on one workstream do not
  interleave; each can die, or fail with \<open>OSError\<close>, at any effect. The answers of the delivery
  preflight (\<open>pf\<close>: an error message or \<open>None\<close>) and of the host binding are arguments.
\<close>

section \<open>Values\<close>

definition workstream_decisions :: "string list" where
  "workstream_decisions = [''continue'', ''waiting_external'', ''needs_user'', ''blocked'', ''complete'', ''paused'']"

definition automatic_decisions :: "string list" where
  "automatic_decisions = [''continue'', ''waiting_external'']"

definition validate_stream_id :: "string \<Rightarrow> err + string" where
  "validate_stream_id s = (if id_pattern s then Inr s else Inl (WorkstreamError ''invalid id''))"

definition strip :: "string \<Rightarrow> string" where
  "strip s = rev (dropWhile is_space (rev (dropWhile is_space s)))"

definition bounded_stream_text :: "string \<Rightarrow> err + string" where
  "bounded_stream_text s =
     (let t = strip s in
      ebind (raise_if (t = []) (WorkstreamError ''text is required'')) (\<lambda>_.
      ebind (raise_if (4000 < length t) (WorkstreamError ''text exceeds 4000 characters'')) (\<lambda>_. Inr t)))"

definition bounded_option :: "string option \<Rightarrow> err + string option" where
  "bounded_option s = (case s of None \<Rightarrow> Inr None | Some t \<Rightarrow> ebind (bounded_stream_text t) (\<lambda>u. Inr (Some u)))"

definition optional_limit :: "json \<Rightarrow> err + unit" where
  "optional_limit v =
     (case v of
        JNull \<Rightarrow> Inr ()
      | JInt i \<Rightarrow> raise_if (i \<le> 0) (WorkstreamError ''limit must be a positive integer or null'')
      | _ \<Rightarrow> Inl (WorkstreamError ''limit must be a positive integer or null''))"

text \<open>\<open>int(v)\<close>, \<open>float(v)\<close>, \<open>str(v)\<close> and \<open>isinstance(v, int)\<close>\<close>

definition int_value :: "disk_env \<Rightarrow> json \<Rightarrow> err + int" where
  "int_value \<delta> v =
     (case v of
        JInt i \<Rightarrow> Inr i
      | JBool b \<Rightarrow> Inr (if b then 1 else 0)
      | JReal r \<Rightarrow> Inr (if 0 \<le> r then \<lfloor>r\<rfloor> else \<lceil>r\<rceil>)
      | JStr s \<Rightarrow> (case de_int \<delta> s of None \<Rightarrow> Inl ValueError | Some i \<Rightarrow> Inr i)
      | _ \<Rightarrow> Inl TypeError)"

definition float_value :: "disk_env \<Rightarrow> json \<Rightarrow> err + rat" where
  "float_value \<delta> v =
     (case v of
        JInt i \<Rightarrow> Inr (of_int i)
      | JBool b \<Rightarrow> Inr (if b then 1 else 0)
      | JReal r \<Rightarrow> Inr r
      | JStr s \<Rightarrow> (case de_float \<delta> s of None \<Rightarrow> Inl ValueError | Some r \<Rightarrow> Inr r)
      | _ \<Rightarrow> Inl TypeError)"

definition str_value :: "disk_env \<Rightarrow> json \<Rightarrow> string" where
  "str_value \<delta> v = (case v of JStr s \<Rightarrow> s | _ \<Rightarrow> de_repr \<delta> v)"

fun int_instance :: "json \<Rightarrow> int option" where
  "int_instance (JInt i) = Some i"
| "int_instance (JBool b) = Some (if b then 1 else 0)"
| "int_instance _ = None"

text \<open>\<open>round(x, 3)\<close>: to the nearest thousandth, ties to even.\<close>

definition round_even :: "rat \<Rightarrow> int" where
  "round_even x = (let f = \<lfloor>x\<rfloor>; d = x - of_int f in if d < 1 / 2 then f else if 1 / 2 < d then f + 1 else if even f then f else f + 1)"

definition round_thousandth :: "rat \<Rightarrow> rat" where
  "round_thousandth x = of_int (round_even (x * 1000)) / 1000"

definition dict_put :: "string \<Rightarrow> json \<Rightarrow> fields \<Rightarrow> fields" where
  "dict_put k v fs = AList.update k v fs"

definition dict_pop :: "string \<Rightarrow> fields \<Rightarrow> fields" where
  "dict_pop k fs = filter (\<lambda>kv. fst kv \<noteq> k) fs"

section \<open>Files\<close>

definition workstreams_root :: "disk_env \<Rightarrow> path" where
  "workstreams_root \<delta> = de_state \<delta> @ [''workstreams'']"

definition workstream_dir :: "disk_env \<Rightarrow> string \<Rightarrow> path" where
  "workstream_dir \<delta> w = workstreams_root \<delta> @ [w]"

definition descriptor_path :: "disk_env \<Rightarrow> string \<Rightarrow> path" where
  "descriptor_path \<delta> w = workstream_dir \<delta> w @ [''workstream.json'']"

definition checkpoint_path :: "disk_env \<Rightarrow> string \<Rightarrow> string \<Rightarrow> path" where
  "checkpoint_path \<delta> w c = json_file (workstream_dir \<delta> w @ [''checkpoints'']) c"

definition checked_descriptor_path :: "disk_env \<Rightarrow> string \<Rightarrow> err + path" where
  "checked_descriptor_path \<delta> w = ebind (validate_stream_id w) (\<lambda>w. Inr (descriptor_path \<delta> w))"

definition checked_checkpoint_path :: "disk_env \<Rightarrow> string \<Rightarrow> string \<Rightarrow> err + path" where
  "checked_checkpoint_path \<delta> w c =
     ebind (validate_stream_id w) (\<lambda>w. ebind (validate_stream_id c) (\<lambda>c. Inr (checkpoint_path \<delta> w c)))"

definition checkpoint_artifact_paths :: "path \<Rightarrow> path \<times> path" where
  "checkpoint_artifact_paths p =
     (let c = stem_of (pname p); artifacts = butlast (butlast p) @ [''artifacts''] in
      (json_file (artifacts @ [''results'']) c, json_file (artifacts @ [''evidence'']) c))"

section \<open>Descriptors, limits and checkpoints\<close>

definition validate_workstream :: "fields \<Rightarrow> string option \<Rightarrow> err + unit" where
  "validate_workstream v w =
     ebind (raise_if (\<not> is_supported_schema_version (get v ''schema_version'') \<or> get v ''kind'' \<noteq> JStr ''ORCHESTRATOR_WORKSTREAM''
               \<or> \<not> is_str (get v ''workstream_id'') \<or> (case w of None \<Rightarrow> False | Some i \<Rightarrow> get v ''workstream_id'' \<noteq> JStr i))
              (WorkstreamError ''invalid workstream descriptor'')) (\<lambda>_.
     efold (\<lambda>k _. case map_of v k of None \<Rightarrow> Inl (WorkstreamError ''missing limit in workstream descriptor'') | Some l \<Rightarrow> optional_limit l)
       [''max_continuations'', ''max_wall_seconds''] ())"

definition load_workstream :: "disk_env \<Rightarrow> string \<Rightarrow> fields io" where
  "load_workstream \<delta> w =
     ibind (ilift (checked_descriptor_path \<delta> w)) (\<lambda>p.
     ibind (load_object p) (\<lambda>v. ibind (ilift (validate_workstream v (Some w))) (\<lambda>_. ireturn v)))"

definition start_workstream ::
    "disk_env \<Rightarrow> string \<Rightarrow> string \<Rightarrow> rat \<Rightarrow> json \<Rightarrow> json \<Rightarrow> err + fields \<Rightarrow> fields io" where
  "start_workstream \<delta> w goal delay maxc maxw bound =
     ibind (ilift (validate_stream_id w)) (\<lambda>w. ibind (ilift (bounded_stream_text goal)) (\<lambda>goal.
     ibind (ilift (raise_if (delay < 0 \<or> 3600 < delay) (WorkstreamError ''delay_seconds must be between 0 and 3600''))) (\<lambda>_.
     ibind (ilift (optional_limit maxc)) (\<lambda>_. ibind (ilift (optional_limit maxw)) (\<lambda>_.
     ibind (utc_now \<delta>) (\<lambda>t.
     ibind (ilift bound) (\<lambda>b. ibind (utc_now \<delta>) (\<lambda>t'. ibind (ilift (wake_target_from_binding t' b)) (\<lambda>target.
     let desc = [(''schema_version'', JInt 1), (''kind'', JStr ''ORCHESTRATOR_WORKSTREAM''), (''workstream_id'', JStr w),
         (''project_id'', JStr (de_project \<delta>)), (''goal'', JStr goal), (''status'', JStr ''active''), (''checkpoint_count'', JInt 0),
         (''continuation_count'', JInt 0), (''continuation_state_version'', JInt 1), (''max_continuations'', maxc),
         (''delay_seconds'', JReal (round_thousandth delay)), (''max_wall_seconds'', maxw), (''created_at'', JStr t), (''updated_at'', JStr t),
         (''wake_target'', JObj target)] in
     ibind (claim_json \<delta> (descriptor_path \<delta> w) (JObj desc)) (\<lambda>claimed.
     ibind (ilift (raise_if (\<not> claimed) (WorkstreamError ''workstream already exists''))) (\<lambda>_.
     ireturn desc)))))))))))"

definition parse_timestamp :: "disk_env \<Rightarrow> string \<Rightarrow> err + rat" where
  "parse_timestamp \<delta> s =
     (case de_parse \<delta> (replace_Z s) of
        None \<Rightarrow> Inl (WorkstreamError ''invalid workstream timestamp'')
      | Some None \<Rightarrow> Inl (WorkstreamError ''workstream timestamp has no timezone'')
      | Some (Some t) \<Rightarrow> Inr t)"

definition wall_limit_reason :: "disk_env \<Rightarrow> fields \<Rightarrow> rat \<Rightarrow> err + string option" where
  "wall_limit_reason \<delta> desc t =
     ebind (subscript (JObj desc) ''max_wall_seconds'') (\<lambda>limit.
     if limit = JNull then Inr None
     else
       ebind (subscript (JObj desc) ''created_at'') (\<lambda>c. ebind (parse_timestamp \<delta> (str_value \<delta> c)) (\<lambda>created.
       case limit of
         JInt l \<Rightarrow> Inr (if of_int l \<le> t - created then Some ''maximum automatic continuation wall time reached'' else None)
       | _ \<Rightarrow> Inl TypeError)))"

definition limit_reason :: "disk_env \<Rightarrow> fields \<Rightarrow> rat \<Rightarrow> err + string option" where
  "limit_reason \<delta> desc t =
     ebind (subscript (JObj desc) ''max_continuations'') (\<lambda>limit.
     ebind (if limit = JNull then Inr False
            else ebind (int_value \<delta> (get_or desc ''continuation_count'' (JInt 0))) (\<lambda>n.
              case limit of JInt l \<Rightarrow> Inr (l \<le> n) | _ \<Rightarrow> Inl TypeError)) (\<lambda>reached.
     if reached then Inr (Some ''maximum automatic continuations reached'') else wall_limit_reason \<delta> desc t))"

definition operation_prefix :: string where
  "operation_prefix = ''workstream:''"

definition continuation_operation_id :: "string \<Rightarrow> string \<Rightarrow> string" where
  "continuation_operation_id w c = operation_prefix @ w @ CHR '':'' # c"

definition parse_continuation_operation_id :: "string \<Rightarrow> (string \<times> string) option" where
  "parse_continuation_operation_id oid =
     (if take (length operation_prefix) oid \<noteq> operation_prefix then None
      else let rest = drop (length operation_prefix) oid; w = takeWhile (\<lambda>c. c \<noteq> CHR '':'') rest in
        if CHR '':'' \<notin> set rest then None
        else let c = drop (Suc (length w)) rest in
          if id_pattern w \<and> id_pattern c then Some (w, c) else None)"

definition validate_checkpoint :: "fields \<Rightarrow> string \<Rightarrow> err + unit" where
  "validate_checkpoint v w =
     (let bad = WorkstreamError ''invalid workstream checkpoint'' in
      ebind (raise_if (\<not> is_supported_schema_version (get v ''schema_version'') \<or> get v ''kind'' \<noteq> JStr ''ORCHESTRATOR_WORKSTREAM_CHECKPOINT''
               \<or> get v ''workstream_id'' \<noteq> JStr w \<or> \<not> is_str (get v ''checkpoint_id'')
               \<or> (case int_instance (get v ''sequence'') of None \<Rightarrow> True | Some n \<Rightarrow> n < 1)) bad) (\<lambda>_.
      ebind (raise_if (\<not> hashable (get v ''decision'')) TypeError) (\<lambda>_.
      raise_if (get v ''decision'' \<notin> JStr ` set workstream_decisions) bad)))"

section \<open>Applying a checkpoint\<close>

text \<open>\<open>{k: checkpoint[k] ...}\<close>\<close>

definition copied :: "fields \<Rightarrow> string list \<Rightarrow> err + fields" where
  "copied fs ks = emap (\<lambda>k. ebind (subscript (JObj fs) k) (\<lambda>v. Inr (k, v))) ks"

definition write_checkpoint_artifacts :: "disk_env \<Rightarrow> path \<Rightarrow> fields \<Rightarrow> unit io" where
  "write_checkpoint_artifacts \<delta> p cp =
     (case checkpoint_artifact_paths p of (rp, vp) \<Rightarrow>
      ibind (ilift (copied cp [''workstream_id'', ''checkpoint_id''])) (\<lambda>ids.
      ibind (ilift (copied cp [''summary'', ''next_action'', ''not_before''])) (\<lambda>fs.
      ibind (atomic_json \<delta> rp (JObj ([(''schema_version'', JInt 1), (''kind'', JStr ''ORCHESTRATOR_WORKSTREAM_CONTINUATION'')] @ ids
        @ [(''status'', JStr ''ready'')] @ fs))) (\<lambda>_.
      ibind (ilift (copied cp [''created_at''])) (\<lambda>gs.
      atomic_json \<delta> vp (JObj ([(''schema_version'', JInt 1), (''kind'', JStr ''ORCHESTRATOR_WORKSTREAM_EVIDENCE'')] @ ids
        @ [(''ready_declared'', JBool True), (''checkpoint_path'', JStr (path_str p))] @ gs)))))))"

definition clear_schedule :: "fields \<Rightarrow> fields" where
  "clear_schedule desc = dict_pop ''last_scheduled_wake_at'' (dict_pop ''last_scheduled_event_id'' (dict_pop ''active_continuation'' desc))"

text \<open>The descriptor after the checkpoint: its position, the count of automatic continuations, the authorised
  continuation, and what it waits for.\<close>

definition positioned :: "disk_env \<Rightarrow> fields \<Rightarrow> fields \<Rightarrow> string \<Rightarrow> int \<Rightarrow> err + fields" where
  "positioned \<delta> desc cp decision n =
     ebind (subscript (JObj cp) ''checkpoint_id'') (\<lambda>cid.
     ebind (subscript (JObj cp) ''workstream_id'') (\<lambda>wid.
     ebind (checked_checkpoint_path \<delta> (str_value \<delta> wid) (str_value \<delta> cid)) (\<lambda>p.
     ebind (subscript (JObj cp) ''created_at'') (\<lambda>created.
     Inr (dict_put ''updated_at'' created (dict_put ''latest_checkpoint_path'' (JStr (path_str p)) (dict_put ''latest_checkpoint_id'' cid
           (dict_put ''checkpoint_count'' (JInt n)
             (dict_put ''status'' (JStr (if decision = ''continue'' then ''active'' else decision)) desc)))))))))"

definition counted :: "disk_env \<Rightarrow> fields \<Rightarrow> string \<Rightarrow> err + fields" where
  "counted \<delta> desc decision =
     (if decision \<in> set automatic_decisions
      then ebind (int_value \<delta> (get_or desc ''continuation_count'' (JInt 0))) (\<lambda>k. Inr (dict_put ''continuation_count'' (JInt (k + 1)) desc))
      else Inr desc)"

definition scheduled :: "fields \<Rightarrow> fields \<Rightarrow> string \<Rightarrow> int \<Rightarrow> err + fields" where
  "scheduled desc cp decision n =
     (if decision = ''continue''
      then ebind (subscript (JObj cp) ''checkpoint_id'') (\<lambda>cid. ebind (subscript (JObj cp) ''event_id'') (\<lambda>eid. ebind (subscript (JObj cp) ''not_before'') (\<lambda>nb.
        Inr (dict_put ''last_scheduled_wake_at'' nb (dict_put ''last_scheduled_event_id'' eid
          (dict_put ''active_continuation'' (JObj [(''checkpoint_id'', cid), (''sequence'', JInt n), (''event_id'', eid), (''not_before'', nb)]) desc))))))
      else Inr (clear_schedule desc))"

definition waiting :: "fields \<Rightarrow> fields \<Rightarrow> string \<Rightarrow> err + fields" where
  "waiting desc cp decision =
     (let d = dict_put ''continuation_state_version'' (JInt 1) desc in
      if decision = ''waiting_external''
      then ebind (subscript (JObj cp) ''waiting_on'') (\<lambda>x. Inr (dict_put ''waiting_on'' x d))
      else Inr (dict_pop ''waiting_on'' d))"

definition applied_descriptor :: "disk_env \<Rightarrow> fields \<Rightarrow> fields \<Rightarrow> int \<Rightarrow> err + fields" where
  "applied_descriptor \<delta> desc cp n =
     ebind (subscript (JObj cp) ''decision'') (\<lambda>dj. let decision = str_value \<delta> dj in
     ebind (positioned \<delta> desc cp decision n) (\<lambda>d1.
     ebind (counted \<delta> d1 decision) (\<lambda>d2.
     ebind (scheduled d2 cp decision n) (\<lambda>d3.
     waiting d3 cp decision))))"

definition save_descriptor :: "disk_env \<Rightarrow> fields \<Rightarrow> unit io" where
  "save_descriptor \<delta> desc =
     ibind (ilift (ebind (subscript (JObj desc) ''workstream_id'') (\<lambda>v. checked_descriptor_path \<delta> (str_value \<delta> v)))) (\<lambda>p.
     atomic_json \<delta> p (JObj desc))"

definition apply_checkpoint :: "disk_env \<Rightarrow> fields \<Rightarrow> fields \<Rightarrow> (bool \<times> fields) io" where
  "apply_checkpoint \<delta> desc cp =
     ibind (ilift (ebind (subscript (JObj cp) ''sequence'') (int_value \<delta>))) (\<lambda>n.
     ibind (ilift (int_value \<delta> (get_or desc ''checkpoint_count'' (JInt 0)))) (\<lambda>applied.
     if n \<le> applied then ireturn (False, desc)
     else
       ibind (ilift (raise_if (get desc ''status'' = JStr ''complete'') (WorkstreamError ''completed workstream cannot apply checkpoint''))) (\<lambda>_.
       ibind (ilift (raise_if (n \<noteq> applied + 1) (WorkstreamError ''checkpoint sequence gap''))) (\<lambda>_.
       ibind (ilift (applied_descriptor \<delta> desc cp n)) (\<lambda>desc'.
       ibind (save_descriptor \<delta> desc') (\<lambda>_. ireturn (True, desc')))))))"

definition optional_dict :: "json \<Rightarrow> json option" where
  "optional_dict v = (case v of JObj _ \<Rightarrow> Some v | _ \<Rightarrow> None)"

definition ensure_checkpoint_event :: "disk_env \<Rightarrow> fields \<Rightarrow> path \<Rightarrow> fields option io" where
  "ensure_checkpoint_event \<delta> cp p =
     (if get cp ''decision'' \<noteq> JStr ''continue'' then ireturn None
      else
        ibind (write_checkpoint_artifacts \<delta> p cp) (\<lambda>_.
        ibind (ilift (case get cp ''operation_id'' of
            JStr oid \<Rightarrow> Inr oid
          | _ \<Rightarrow> ebind (subscript (JObj cp) ''workstream_id'') (\<lambda>w. ebind (subscript (JObj cp) ''checkpoint_id'') (\<lambda>c.
              Inr (str_value \<delta> w @ ''.'' @ str_value \<delta> c))))) (\<lambda>oid.
        ibind (ilift (subscript (JObj cp) ''event_id'')) (\<lambda>eid. ibind (ilift (subscript (JObj cp) ''not_before'')) (\<lambda>nb.
        ibind (write_followup_event \<delta> oid ''workstream_checkpoint'' ''completed'' (fst (checkpoint_artifact_paths p)) (snd (checkpoint_artifact_paths p))
          (Some (str_value \<delta> eid)) (optional_dict (get cp ''wake_target'')) True (Some (str_value \<delta> nb))) (\<lambda>ev.
        ireturn (Some ev)))))))"

end
