(* ===== verification/Workstream_Ops.thy ===== *)
theory Workstream_Ops
  imports Workstreams
begin

text \<open>
  The operations on workstreams (\<open>workstreams.py\<close>): reconciliation from the checkpoint files, the
  guard that decides about the delivery of a continuation, new checkpoints, the policy, resumption
  and the status report. Every operation runs under the lock of its workstream. The guard returns
  its verdict; the caller delivers before the lock is released.
\<close>

section \<open>Handlers\<close>

text \<open>\<open>except (OSError, RuntimeError, ValueError)\<close>: the engine's own errors are runtime errors.\<close>

fun contract_failure :: "err \<Rightarrow> bool" where
  "contract_failure (KeyError _) = False"
| "contract_failure TypeError = False"
| "contract_failure IntegrityError = False"
| "contract_failure AttributeError = False"
| "contract_failure _ = True"

fun key_error :: "err \<Rightarrow> bool" where
  "key_error (KeyError _) = True"
| "key_error _ = False"

definition on_error :: "(err \<Rightarrow> bool) \<Rightarrow> 'a io \<Rightarrow> (err \<Rightarrow> 'a io) \<Rightarrow> 'a io" where
  "on_error h m k d = (case m d of (Inl (Raised e), d') \<Rightarrow> if h e then k e d' else (Inl (Raised e), d') | r \<Rightarrow> r)"

lemma on_error_eq [io_simps]:
  "on_error h m k d = (r, d') \<longleftrightarrow>
     (\<exists>e d1. m d = (Inl (Raised e), d1) \<and> h e \<and> k e d1 = (r, d')) \<or> (m d = (r, d') \<and> (\<forall>e. r = Inl (Raised e) \<longrightarrow> \<not> h e))"
  by (auto simp: on_error_def split: prod.split sum.split stop.split)

section \<open>Reconciliation\<close>

definition checkpoint_files :: "path \<Rightarrow> disk \<Rightarrow> path list" where
  "checkpoint_files dir d =
     filter (\<lambda>p. p \<noteq> [] \<and> butlast p = dir \<and> 5 \<le> length (last p) \<and> drop (length (last p) - 5) (last p) = ''.json'')
       (dedup (map fst (dk_files d)))"

definition generated_kinds :: "string list" where
  "generated_kinds = [''ORCHESTRATOR_WORKSTREAM_CONTINUATION'', ''ORCHESTRATOR_WORKSTREAM_EVIDENCE'']"

fun load_checkpoints :: "string \<Rightarrow> path list \<Rightarrow> (path \<times> fields) list io" where
  "load_checkpoints w [] = ireturn []"
| "load_checkpoints w (p # ps) =
     ibind (load_object p) (\<lambda>cp.
     ibind (ilift (raise_if (\<not> hashable (get cp ''kind'')) TypeError)) (\<lambda>_.
     if get cp ''kind'' \<in> JStr ` set generated_kinds then load_checkpoints w ps
     else ibind (ilift (validate_checkpoint cp w)) (\<lambda>_. ibind (load_checkpoints w ps) (\<lambda>cps. ireturn ((p, cp) # cps)))))"

text \<open>The sequence number of a validated checkpoint.\<close>

definition sequence_of :: "fields \<Rightarrow> int" where
  "sequence_of cp = (case int_instance (get cp ''sequence'') of None \<Rightarrow> 0 | Some n \<Rightarrow> n)"

definition recover_event :: "disk_env \<Rightarrow> path \<Rightarrow> fields \<Rightarrow> nat io" where
  "recover_event \<delta> p cp =
     (if get cp ''decision'' \<noteq> JStr ''continue'' then ireturn 0
      else
        ibind (ilift (subscript (JObj cp) ''signal_path'')) (\<lambda>sp.
        ibind (iask (is_file (resolve [] (str_value \<delta> sp)))) (\<lambda>there.
        if there then ireturn 0 else ibind (ensure_checkpoint_event \<delta> cp p) (\<lambda>_. ireturn 1))))"

fun replay :: "disk_env \<Rightarrow> (path \<times> fields) list \<Rightarrow> int list \<Rightarrow> fields \<Rightarrow> nat \<Rightarrow> nat \<Rightarrow> (fields \<times> nat \<times> nat) io" where
  "replay \<delta> [] seen desc applied recovered = ireturn (desc, applied, recovered)"
| "replay \<delta> ((p, cp) # cps) seen desc applied recovered =
     ibind (ilift (raise_if (sequence_of cp \<in> set seen) (WorkstreamError ''duplicate checkpoint sequence''))) (\<lambda>_.
     ibind (apply_checkpoint \<delta> desc cp) (\<lambda>(changed, desc').
     ibind (recover_event \<delta> p cp) (\<lambda>n.
     replay \<delta> cps (sequence_of cp # seen) desc' (if changed then Suc applied else applied) (recovered + n))))"

definition migrated :: "disk_env \<Rightarrow> fields \<Rightarrow> (path \<times> fields) list \<Rightarrow> err + fields" where
  "migrated \<delta> desc cps =
     ebind (if get desc ''status'' = JStr ''active'' \<and> \<not> is_obj (get desc ''active_continuation'')
            then
              ebind (int_value \<delta> (get_or desc ''checkpoint_count'' (JInt 0))) (\<lambda>applied.
              case find (\<lambda>cp. sequence_of cp = applied) (rev (map snd cps)) of
                None \<Rightarrow> Inr desc
              | Some latest \<Rightarrow>
                  if get latest ''decision'' = JStr ''continue'' \<and> json_eq (get latest ''event_id'') (get desc ''last_scheduled_event_id'')
                  then ebind (copied latest [''checkpoint_id'', ''sequence'', ''event_id'', ''not_before'']) (\<lambda>fs.
                    Inr (dict_put ''active_continuation'' (JObj fs) desc))
                  else Inr desc)
            else Inr desc) (\<lambda>d1.
     let d2 = (if get d1 ''status'' \<noteq> JStr ''active'' then clear_schedule d1 else d1) in
     Inr (dict_put ''continuation_state_version'' (JInt 1) d2))"

definition migrate_continuation_state :: "disk_env \<Rightarrow> fields \<Rightarrow> (path \<times> fields) list \<Rightarrow> fields io" where
  "migrate_continuation_state \<delta> desc cps =
     ibind (ilift (int_value \<delta> (get_or desc ''continuation_state_version'' (JInt 0)))) (\<lambda>v.
     if 1 \<le> v then ireturn desc
     else ibind (ilift (migrated \<delta> desc cps)) (\<lambda>desc'. ibind (save_descriptor \<delta> desc') (\<lambda>_. ireturn desc')))"

definition expired_descriptor :: "string \<Rightarrow> string \<Rightarrow> fields \<Rightarrow> fields" where
  "expired_descriptor reason stamp desc =
     dict_pop ''active_continuation''
       (dict_put ''updated_at'' (JStr stamp) (dict_put ''reason'' (JStr reason) (dict_put ''status'' (JStr ''needs_user'') desc)))"

record reconciled =
  rc_workstream :: string
  rc_applied :: nat
  rc_recovered :: nat
  rc_status :: json

definition expire :: "disk_env \<Rightarrow> string \<Rightarrow> fields \<Rightarrow> rat \<Rightarrow> fields io" where
  "expire \<delta> w desc now =
     (if hashable (get desc ''status'') then
        if get desc ''status'' \<in> {JStr ''active'', JStr ''waiting_external''} then
          ibind (ilift (wall_limit_reason \<delta> desc now)) (\<lambda>reason.
          case reason of
            None \<Rightarrow> ireturn desc
          | Some s \<Rightarrow>
              let desc' = dict_pop ''waiting_on'' (expired_descriptor s (de_iso \<delta> now) desc) in
              ibind (ilift (checked_descriptor_path \<delta> w)) (\<lambda>p. ibind (atomic_json \<delta> p (JObj desc')) (\<lambda>_. ireturn desc')))
        else ireturn desc
      else ilift (Inl TypeError))"

definition reconcile_locked :: "disk_env \<Rightarrow> string \<Rightarrow> rat \<Rightarrow> reconciled io" where
  "reconcile_locked \<delta> w now =
     ibind (load_workstream \<delta> w) (\<lambda>desc.
     ibind (iask (checkpoint_files (workstream_dir \<delta> w @ [''checkpoints'']))) (\<lambda>ps.
     ibind (load_checkpoints w ps) (\<lambda>loaded.
     let cps = sort_key (\<lambda>pc. sequence_of (snd pc)) loaded in
     ibind (replay \<delta> cps [] desc 0 0) (\<lambda>(desc1, applied, recovered).
     ibind (migrate_continuation_state \<delta> desc1 cps) (\<lambda>desc2.
     ibind (expire \<delta> w desc2 now) (\<lambda>desc3.
     ibind (ilift (subscript (JObj desc3) ''status'')) (\<lambda>status.
     ireturn \<lparr>rc_workstream = w, rc_applied = applied, rc_recovered = recovered, rc_status = status\<rparr>)))))))"

text \<open>\<open>glob("*/workstream.json")\<close>, sorted\<close>

definition descriptor_files :: "disk_env \<Rightarrow> disk \<Rightarrow> path list" where
  "descriptor_files \<delta> d =
     sort (filter (\<lambda>p. length p = length (workstreams_root \<delta>) + 2 \<and> butlast (butlast p) = workstreams_root \<delta> \<and> pname p = ''workstream.json'')
       (dedup (map fst (dk_files d))))"

datatype reconcile_row = Reconciled reconciled | Broken string err

fun reconcile_each :: "disk_env \<Rightarrow> rat \<Rightarrow> path list \<Rightarrow> reconcile_row list io" where
  "reconcile_each \<delta> now [] = ireturn []"
| "reconcile_each \<delta> now (p # ps) =
     (let w = pname (butlast p) in
      ibind (on_error contract_failure (ibind (reconcile_locked \<delta> w now) (\<lambda>r. ireturn (Reconciled r))) (\<lambda>e. ireturn (Broken w e))) (\<lambda>row.
      ibind (reconcile_each \<delta> now ps) (\<lambda>rows. ireturn (row # rows))))"

definition clock_or :: "disk_env \<Rightarrow> rat option \<Rightarrow> rat io" where
  "clock_or \<delta> now = (case now of Some t \<Rightarrow> ireturn t | None \<Rightarrow> disk_now \<delta>)"

definition reconcile_workstreams :: "disk_env \<Rightarrow> rat option \<Rightarrow> reconcile_row list io" where
  "reconcile_workstreams \<delta> now =
     ibind (clock_or \<delta> now) (\<lambda>t. ibind (iask (descriptor_files \<delta>)) (\<lambda>ps. reconcile_each \<delta> t ps))"

section \<open>The delivery guard\<close>

datatype verdict = Deliver "(string \<times> string) option" | Withhold string

definition signal_identity :: "disk_env \<Rightarrow> fields \<Rightarrow> (string \<times> string) option io" where
  "signal_identity \<delta> signal =
     (case (case get signal ''operation_id'' of JStr oid \<Rightarrow> parse_continuation_operation_id oid | _ \<Rightarrow> None) of
        Some i \<Rightarrow> ireturn (Some i)
      | None \<Rightarrow>
          on_error (\<lambda>e. key_error e \<or> contract_failure e)
            (ibind (load_object (resolve [] (str_value \<delta> (get signal ''result_path'')))) (\<lambda>result.
             ibind (ilift (ebind (subscript (JObj result) ''workstream_id'') (\<lambda>w. validate_stream_id (str_value \<delta> w)))) (\<lambda>w.
             ibind (ilift (ebind (subscript (JObj result) ''checkpoint_id'') (\<lambda>c. validate_stream_id (str_value \<delta> c)))) (\<lambda>c.
             ireturn (Some (w, c))))))
            (\<lambda>_. ireturn None))"

definition guarded_state :: "disk_env \<Rightarrow> string \<Rightarrow> string \<Rightarrow> rat option \<Rightarrow> (fields \<times> fields) option io" where
  "guarded_state \<delta> w c now =
     on_error contract_failure
       (ibind (clock_or \<delta> now) (\<lambda>t.
        ibind (reconcile_locked \<delta> w t) (\<lambda>_.
        ibind (load_workstream \<delta> w) (\<lambda>desc.
        ibind (ilift (checked_checkpoint_path \<delta> w c)) (\<lambda>p.
        ibind (load_object p) (\<lambda>cp.
        ibind (ilift (validate_checkpoint cp w)) (\<lambda>_.
        ireturn (Some (desc, cp)))))))))
       (\<lambda>_. ireturn None)"

definition expected_event :: "fields \<Rightarrow> json" where
  "expected_event desc = (case get desc ''active_continuation'' of JObj a \<Rightarrow> get a ''event_id'' | _ \<Rightarrow> JNull)"

definition judge :: "disk_env \<Rightarrow> fields \<Rightarrow> string \<Rightarrow> string \<Rightarrow> rat option \<Rightarrow> fields \<Rightarrow> fields \<Rightarrow> verdict io" where
  "judge \<delta> signal w c now desc cp =
     (if get desc ''status'' \<noteq> JStr ''active'' then ireturn (Withhold ''workstream_continuation_revoked'')
      else
        ibind (clock_or \<delta> now) (\<lambda>t. ibind (ilift (wall_limit_reason \<delta> desc t)) (\<lambda>reason.
        case reason of
          Some s \<Rightarrow>
            ibind (utc_now \<delta>) (\<lambda>stamp. ibind (ilift (checked_descriptor_path \<delta> w)) (\<lambda>p.
            ibind (atomic_json \<delta> p (JObj (expired_descriptor s stamp desc))) (\<lambda>_. ireturn (Withhold ''workstream_expired''))))
        | None \<Rightarrow>
            if get cp ''decision'' \<noteq> JStr ''continue'' \<or> \<not> json_eq (get cp ''event_id'') (get signal ''event_id'')
               \<or> \<not> json_eq (expected_event desc) (get signal ''event_id'')
            then ireturn (Withhold ''workstream_continuation_revoked'')
            else ireturn (Deliver (Some (w, c))))))"

definition continuation_delivery_guard :: "disk_env \<Rightarrow> fields \<Rightarrow> rat option \<Rightarrow> verdict io" where
  "continuation_delivery_guard \<delta> signal now =
     (if get signal ''source_kind'' \<noteq> JStr ''workstream_checkpoint'' then ireturn (Deliver None)
      else
        ibind (signal_identity \<delta> signal) (\<lambda>identity.
        case identity of
          None \<Rightarrow> ireturn (Withhold ''invalid_workstream_identity'')
        | Some (w, c) \<Rightarrow>
            ibind (ilift (validate_stream_id w)) (\<lambda>w.
            ibind (guarded_state \<delta> w c now) (\<lambda>state.
            case state of
              None \<Rightarrow> ireturn (Withhold ''invalid_workstream_state'')
            | Some (desc, cp) \<Rightarrow> judge \<delta> signal w c now desc cp))))"

section \<open>Checkpoints\<close>

text \<open>
  What the delivery preflight answers, and how the operation uses it. The preflight probes the host, so its answer is
  an argument; the file it keeps of its own report is no part of a workstream and is left out.
\<close>

datatype preflight = Report fields | Refused string | Crashed err

definition enforce :: "fields \<Rightarrow> bool" where
  "enforce report \<longleftrightarrow> get report ''mode'' = JStr ''require-ready'' \<and> get report ''status'' \<noteq> JStr ''ready''"

definition preflight_step :: "preflight \<Rightarrow> err + fields" where
  "preflight_step a =
     (case a of
        Crashed e \<Rightarrow> Inl e
      | Refused s \<Rightarrow> Inl (WorkstreamError s)
      | Report r \<Rightarrow> if enforce r then Inl (WorkstreamError ''completion delivery is not ready'') else Inr r)"

text \<open>\<open>[*xs, ...]\<close>\<close>

fun unpacked :: "json \<Rightarrow> err + json list" where
  "unpacked (JList xs) = Inr xs"
| "unpacked (JStr s) = Inr (map (\<lambda>c. JStr [c]) s)"
| "unpacked (JObj fs) = Inr (map (\<lambda>kv. JStr (fst kv)) fs)"
| "unpacked _ = Inl TypeError"

definition attach_report :: "fields \<Rightarrow> fields \<Rightarrow> err + fields" where
  "attach_report output report =
     (let res = dict_put ''completion_delivery'' (JObj report) output in
      case get report ''warnings'' of
        JList (x # xs) \<Rightarrow>
          ebind (unpacked (get_or res ''warnings'' (JList []))) (\<lambda>ys. Inr (dict_put ''warnings'' (JList (ys @ x # xs)) res))
      | _ \<Rightarrow> Inr res)"

record checkpoint_request =
  rq_workstream :: string
  rq_checkpoint :: string
  rq_decision :: string
  rq_summary :: string
  rq_next :: "string option"
  rq_waiting :: "string option"
  rq_ready :: bool

definition text_json :: "string option \<Rightarrow> json" where
  "text_json t = (case t of None \<Rightarrow> JNull | Some s \<Rightarrow> JStr s)"

definition check_request :: "checkpoint_request \<Rightarrow> err + checkpoint_request" where
  "check_request q =
     ebind (validate_stream_id (rq_workstream q)) (\<lambda>w. ebind (validate_stream_id (rq_checkpoint q)) (\<lambda>c.
     ebind (raise_if (rq_decision q \<notin> set workstream_decisions) (WorkstreamError ''unsupported checkpoint decision'')) (\<lambda>_.
     ebind (bounded_stream_text (rq_summary q)) (\<lambda>summary.
     ebind (bounded_option (rq_next q)) (\<lambda>next.
     ebind (bounded_option (rq_waiting q)) (\<lambda>waiting.
     ebind (raise_if (rq_decision q = ''continue'' \<and> \<not> rq_ready q) (WorkstreamError ''continue requires explicit --ready'')) (\<lambda>_.
     ebind (raise_if (rq_decision q = ''continue'' \<and> next = None) (WorkstreamError ''continue requires --next-action'')) (\<lambda>_.
     ebind (raise_if (rq_decision q = ''complete'' \<and> next \<noteq> None) (WorkstreamError ''complete cannot retain next_action'')) (\<lambda>_.
     ebind (raise_if (rq_decision q \<noteq> ''continue'' \<and> rq_ready q) (WorkstreamError ''--ready is only valid with decision continue'')) (\<lambda>_.
     ebind (raise_if (rq_decision q = ''waiting_external'' \<and> waiting = None) (WorkstreamError ''waiting_external requires --waiting-on'')) (\<lambda>_.
     ebind (raise_if (rq_decision q \<noteq> ''waiting_external'' \<and> waiting \<noteq> None) (WorkstreamError ''--waiting-on is only valid with waiting_external'')) (\<lambda>_.
     Inr (q\<lparr>rq_summary := summary, rq_next := next, rq_waiting := waiting\<rparr>)))))))))))))"

definition same_request :: "checkpoint_request \<Rightarrow> fields \<Rightarrow> bool" where
  "same_request q ex \<longleftrightarrow>
     get_or ex ''requested_decision'' (get ex ''decision'') = JStr (rq_decision q) \<and> get ex ''summary'' = JStr (rq_summary q) \<and>
     get ex ''next_action'' = text_json (rq_next q) \<and> get ex ''waiting_on'' = text_json (rq_waiting q)"

definition repeat_checkpoint :: "disk_env \<Rightarrow> (string \<Rightarrow> json option \<Rightarrow> preflight) \<Rightarrow> checkpoint_request \<Rightarrow> path \<Rightarrow> fields io" where
  "repeat_checkpoint \<delta> pf q p =
     ibind (load_object p) (\<lambda>ex.
     ibind (ilift (validate_checkpoint ex (rq_workstream q))) (\<lambda>_.
     ibind (ilift (raise_if (\<not> same_request q ex) (WorkstreamError ''checkpoint id already exists with different content''))) (\<lambda>_.
     ibind (load_workstream \<delta> (rq_workstream q)) (\<lambda>desc.
     ibind (apply_checkpoint \<delta> desc ex) (\<lambda>_.
     let out = dict_put ''idempotent'' (JBool True) (dict_put ''checkpoint_path'' (JStr (path_str p)) ex) in
     ibind (iask (\<lambda>d. case get ex ''signal_path'' of JStr s \<Rightarrow> \<not> is_file (resolve [] s) d | _ \<Rightarrow> False)) (\<lambda>missing.
     if get ex ''decision'' = JStr ''continue'' \<and> missing then
       ibind (ilift (ebind (subscript (JObj ex) ''operation_id'') (\<lambda>oid.
         preflight_step (pf (str_value \<delta> oid) (optional_dict (get ex ''wake_target'')))))) (\<lambda>report.
       ibind (ensure_checkpoint_event \<delta> ex p) (\<lambda>ev.
       ilift (attach_report (dict_put ''recovered_signal'' (JBool True)
         (dict_put ''followup'' (case ev of None \<Rightarrow> JNull | Some e \<Rightarrow> JObj e) out)) report)))
     else ireturn out))))))"

definition new_checkpoint :: "disk_env \<Rightarrow> checkpoint_request \<Rightarrow> fields \<Rightarrow> string option \<Rightarrow> rat \<Rightarrow> int \<Rightarrow> err + fields" where
  "new_checkpoint \<delta> q desc reason now n =
     (let w = rq_workstream q; c = rq_checkpoint q; decision = rq_decision q;
          base = [(''schema_version'', JInt 1), (''kind'', JStr ''ORCHESTRATOR_WORKSTREAM_CHECKPOINT''), (''workstream_id'', JStr w),
            (''checkpoint_id'', JStr c), (''sequence'', JInt n), (''decision'', JStr (if reason = None then decision else ''needs_user'')),
            (''requested_decision'', JStr decision), (''summary'', JStr (rq_summary q)), (''created_at'', JStr (de_iso \<delta> now))]
            @ optional_field ''next_action'' (case rq_next q of None \<Rightarrow> None | Some s \<Rightarrow> Some (JStr s))
            @ optional_field ''waiting_on'' (case rq_waiting q of None \<Rightarrow> None | Some s \<Rightarrow> Some (JStr s))
            @ optional_field ''reason'' (case reason of None \<Rightarrow> None | Some s \<Rightarrow> Some (JStr s))
            @ optional_field ''wake_target'' (optional_dict (get desc ''wake_target''))
      in
      if decision = ''continue'' \<and> reason = None then
        ebind (ebind (subscript (JObj desc) ''delay_seconds'') (float_value \<delta>)) (\<lambda>delay.
        let oid = continuation_operation_id w c; eid = followup_event_id \<delta> ''workstream_checkpoint'' oid in
        ebind (event_path_for \<delta> eid) (\<lambda>ep. ebind (signal_path_for \<delta> eid) (\<lambda>sp.
        Inr (base @ [(''not_before'', JStr (de_iso \<delta> (now + delay))), (''operation_id'', JStr oid), (''event_id'', JStr eid),
           (''event_path'', JStr (path_str ep)), (''signal_path'', JStr (path_str sp))]))))
      else Inr base)"

definition emits :: "fields \<Rightarrow> bool" where
  "emits cp \<longleftrightarrow> get cp ''decision'' = JStr ''continue''"

definition store_checkpoint :: "disk_env \<Rightarrow> (string \<Rightarrow> json option \<Rightarrow> preflight) \<Rightarrow> checkpoint_request \<Rightarrow> path \<Rightarrow> fields \<Rightarrow> fields \<Rightarrow> fields io" where
  "store_checkpoint \<delta> pf q p desc cp =
     ibind (ilift (if emits cp
         then ebind (preflight_step (pf (str_of (get cp ''operation_id'')) (optional_dict (get cp ''wake_target'')))) (\<lambda>r. Inr (Some r))
         else Inr None)) (\<lambda>report.
     ibind (atomic_json \<delta> p (JObj cp)) (\<lambda>_.
     ibind (apply_checkpoint \<delta> desc cp) (\<lambda>_.
     ibind (if emits cp then ensure_checkpoint_event \<delta> cp p else ireturn None) (\<lambda>ev.
     let out = dict_put ''idempotent'' (JBool False) (dict_put ''checkpoint_path'' (JStr (path_str p)) cp) in
     case ev of
       None \<Rightarrow> ireturn out
     | Some e \<Rightarrow> ilift (attach_report (dict_put ''followup'' (JObj e) out) (case report of None \<Rightarrow> [] | Some r \<Rightarrow> r))))))"

definition add_checkpoint :: "disk_env \<Rightarrow> (string \<Rightarrow> json option \<Rightarrow> preflight) \<Rightarrow> checkpoint_request \<Rightarrow> path \<Rightarrow> fields io" where
  "add_checkpoint \<delta> pf q p =
     ibind (load_workstream \<delta> (rq_workstream q)) (\<lambda>desc.
     ibind (ilift (raise_if (get desc ''status'' = JStr ''complete'') (WorkstreamError ''completed workstream cannot accept checkpoints''))) (\<lambda>_.
     ibind (ilift (raise_if (rq_decision q = ''continue'' \<and> get desc ''status'' \<noteq> JStr ''active'') (WorkstreamError ''resume it before continue''))) (\<lambda>_.
     ibind (disk_now \<delta>) (\<lambda>now.
     ibind (ilift (if rq_decision q \<in> set automatic_decisions then limit_reason \<delta> desc now else Inr None)) (\<lambda>reason.
     ibind (ilift (int_value \<delta> (get_or desc ''checkpoint_count'' (JInt 0)))) (\<lambda>count.
     ibind (ilift (new_checkpoint \<delta> q desc reason now (count + 1))) (\<lambda>cp.
     store_checkpoint \<delta> pf q p desc cp)))))))"

definition checkpoint_workstream :: "disk_env \<Rightarrow> (string \<Rightarrow> json option \<Rightarrow> preflight) \<Rightarrow> checkpoint_request \<Rightarrow> fields io" where
  "checkpoint_workstream \<delta> pf request =
     ibind (ilift (check_request request)) (\<lambda>q.
     ibind (ilift (checked_checkpoint_path \<delta> (rq_workstream q) (rq_checkpoint q))) (\<lambda>p.
     ibind (disk_now \<delta>) (\<lambda>now.
     ibind (reconcile_locked \<delta> (rq_workstream q) now) (\<lambda>_.
     ibind (iask (is_file p)) (\<lambda>exists.
     if exists then repeat_checkpoint \<delta> pf q p else add_checkpoint \<delta> pf q p)))))"

section \<open>Policy, resumption and status\<close>

definition policy_fields :: "string list" where
  "policy_fields = [''max_continuations'', ''max_wall_seconds'']"

fun plus_one :: "json \<Rightarrow> err + json" where
  "plus_one (JInt i) = Inr (JInt (i + 1))"
| "plus_one (JBool b) = Inr (JInt (if b then 2 else 1))"
| "plus_one (JReal r) = Inr (JReal (r + 1))"
| "plus_one _ = Inl TypeError"

definition expected_revision_ok :: "json \<Rightarrow> bool" where
  "expected_revision_ok v = (case v of JNull \<Rightarrow> True | JInt i \<Rightarrow> 0 \<le> i | _ \<Rightarrow> False)"

datatype policy_result = Unchanged json fields | Updated string json json fields

definition merged :: "fields \<Rightarrow> fields \<Rightarrow> fields" where
  "merged a b = fold (\<lambda>kv. dict_put (fst kv) (snd kv)) b a"

definition policy_update :: "fields \<Rightarrow> fields \<Rightarrow> string \<Rightarrow> json \<Rightarrow> string \<Rightarrow> err + json \<times> fields" where
  "policy_update desc limits reason revision stamp =
     ebind (copied desc policy_fields) (\<lambda>previous. let after = merged previous limits in
     ebind (plus_one revision) (\<lambda>n. ebind (unpacked (get_or desc ''policy_history'' (JList []))) (\<lambda>history.
     let entry = JObj [(''revision'', n), (''before'', JObj previous), (''after'', JObj after), (''reason'', JStr reason), (''changed_at'', JStr stamp)] in
     Inr (n, dict_put ''updated_at'' (JStr stamp) (dict_put ''policy_history'' (JList (history @ [entry]))
       (dict_put ''policy_revision'' n (merged desc after)))))))"

definition set_workstream_policy :: "disk_env \<Rightarrow> string \<Rightarrow> fields \<Rightarrow> string \<Rightarrow> json \<Rightarrow> policy_result io" where
  "set_workstream_policy \<delta> w limits reason expected =
     ibind (ilift (raise_if (limits = [] \<or> list_ex (\<lambda>kv. fst kv \<notin> set policy_fields) limits)
        (WorkstreamError ''policy update requires only supported limit fields''))) (\<lambda>_.
     ibind (ilift (efold (\<lambda>kv _. optional_limit (snd kv)) limits ())) (\<lambda>_.
     ibind (ilift (bounded_stream_text reason)) (\<lambda>reason.
     ibind (ilift (raise_if (\<not> expected_revision_ok expected) (WorkstreamError ''expected_revision must be a non-negative integer''))) (\<lambda>_.
     ibind (load_workstream \<delta> w) (\<lambda>desc.
     let revision = get_or desc ''policy_revision'' (JInt 0) in
     ibind (ilift (raise_if (expected \<noteq> JNull \<and> \<not> json_eq revision expected)
        (WorkstreamError ''workstream policy revision changed; read status again''))) (\<lambda>_.
     ibind (ilift (copied desc policy_fields)) (\<lambda>previous.
     let after = merged previous limits in
     if json_eq (JObj previous) (JObj after) then ireturn (Unchanged revision after)
     else
       ibind (utc_now \<delta>) (\<lambda>stamp.
       ibind (ilift (policy_update desc limits reason revision stamp)) (\<lambda>(n, desc').
       ibind (ilift (checked_descriptor_path \<delta> w)) (\<lambda>p. ibind (atomic_json \<delta> p (JObj desc')) (\<lambda>_.
       ibind (ilift (subscript (JObj desc') ''status'')) (\<lambda>status.
       ireturn (Updated w status n after)))))))))))))"

definition resumed_descriptor :: "fields \<Rightarrow> string \<Rightarrow> fields" where
  "resumed_descriptor desc stamp =
     dict_pop ''reason'' (dict_put ''continuation_state_version'' (JInt 1) (clear_schedule (dict_pop ''waiting_on''
       (dict_put ''updated_at'' (JStr stamp) (dict_put ''status'' (JStr ''active'') desc)))))"

definition resume_workstream :: "disk_env \<Rightarrow> string \<Rightarrow> fields io" where
  "resume_workstream \<delta> w =
     ibind (ilift (validate_stream_id w)) (\<lambda>w.
     ibind (disk_now \<delta>) (\<lambda>now.
     ibind (reconcile_locked \<delta> w now) (\<lambda>_.
     ibind (load_workstream \<delta> w) (\<lambda>desc.
     ibind (ilift (raise_if (get desc ''status'' = JStr ''complete'') (WorkstreamError ''completed workstream cannot be resumed''))) (\<lambda>_.
     ibind (ilift (raise_if (get desc ''status'' = JStr ''active'') (WorkstreamError ''active workstream does not need resume''))) (\<lambda>_.
     ibind (utc_now \<delta>) (\<lambda>stamp.
     let desc' = resumed_descriptor desc stamp in
     ibind (ilift (checked_descriptor_path \<delta> w)) (\<lambda>p. ibind (atomic_json \<delta> p (JObj desc')) (\<lambda>_.
     ireturn (dict_put ''workstream_path'' (JStr (path_str p)) desc'))))))))))"

record stream_status =
  sst_streams :: "fields list"
  sst_counts :: "(string \<times> nat) list"
  sst_invalid :: "(path \<times> err) list"
  sst_checked_at :: string

fun load_streams :: "path list \<Rightarrow> fields list \<times> (path \<times> err) list \<Rightarrow> (fields list \<times> (path \<times> err) list) io" where
  "load_streams [] acc = ireturn acc"
| "load_streams (p # ps) acc =
     ibind (on_error contract_failure
        (ibind (load_object p) (\<lambda>v. ibind (ilift (validate_workstream v None)) (\<lambda>_. ireturn (fst acc @ [v], snd acc))))
        (\<lambda>e. ireturn (fst acc, snd acc @ [(p, e)]))) (\<lambda>acc'.
     load_streams ps acc')"

definition status_counts :: "disk_env \<Rightarrow> fields list \<Rightarrow> (string \<times> nat) list" where
  "status_counts \<delta> streams =
     fold (\<lambda>v counts. let s = str_value \<delta> (get_or v ''status'' (JStr ''invalid'')) in
        AList.update s ((case map_of counts s of None \<Rightarrow> 0 | Some n \<Rightarrow> n) + 1) counts) streams []"

definition workstream_status :: "disk_env \<Rightarrow> string option \<Rightarrow> stream_status io" where
  "workstream_status \<delta> w =
     ibind (case w of
         Some i \<Rightarrow> ibind (load_workstream \<delta> i) (\<lambda>v. ireturn ([v], []))
       | None \<Rightarrow> ibind (iask (descriptor_files \<delta>)) (\<lambda>ps. load_streams ps ([], []))) (\<lambda>(streams, invalid).
     ibind (utc_now \<delta>) (\<lambda>t.
     ireturn \<lparr>sst_streams = streams, sst_counts = status_counts \<delta> streams, sst_invalid = invalid, sst_checked_at = t\<rparr>))"

end
