(* ===== verification/Workstream_Steps.thy ===== *)
theory Workstream_Steps
  imports Workstream_Ops
begin

text \<open>
  The operations on workstreams as sequences of atomic steps on the files. A step writes one file:
  one that is no descriptor and no checkpoint, a new checkpoint, or the successor of a descriptor.
  Whatever the operations do, and wherever they die or fail, the files only move along these steps
  (\<open>run_ops_steps\<close> in \<open>Workstream_Refinement\<close>), so an invariant is a property of the steps.
\<close>

section \<open>Fields of descriptors\<close>

lemma map_of_pop: "map_of (dict_pop k fs) k' = (if k' = k then None else map_of fs k')"
  by (induction fs) (auto simp: dict_pop_def)

lemma map_of_put: "map_of (dict_put k v fs) k' = (if k' = k then Some v else map_of fs k')"
  by (simp add: dict_put_def)

lemma get_put [simp]: "get (dict_put k v fs) k' = (if k' = k then v else get fs k')"
  by (simp add: get_def map_of_put)

lemma get_pop [simp]: "get (dict_pop k fs) k' = (if k' = k then JNull else get fs k')"
  by (simp add: get_def map_of_pop)

lemma get_or_put [simp]: "get_or (dict_put k v fs) k' x = (if k' = k then v else get_or fs k' x)"
  by (simp add: get_or_def map_of_put)

lemma get_or_pop [simp]: "get_or (dict_pop k fs) k' x = (if k' = k then x else get_or fs k' x)"
  by (simp add: get_or_def map_of_pop)

lemma get_append_fields [simp]: "get (xs @ ys) k = (if k \<in> fst ` set xs then get xs k else get ys k)"
proof (cases "map_of xs k")
  case None
  then have "k \<notin> fst ` set xs" by (simp add: map_of_eq_None_iff)
  with None show ?thesis by (simp add: get_def map_add_def)
next
  case (Some v)
  then have "k \<in> fst ` set xs" by (metis map_of_eq_None_iff option.distinct(1))
  with Some show ?thesis by (simp add: get_def map_add_def)
qed

lemma subscript_value: "subscript (JObj fs) k = Inr v \<Longrightarrow> get fs k = v"
  by (auto simp: get_def split: option.splits)

definition count_of :: "disk_env \<Rightarrow> fields \<Rightarrow> err + int" where
  "count_of \<delta> desc = int_value \<delta> (get_or desc ''checkpoint_count'' (JInt 0))"

text \<open>What the application of a checkpoint, a migration and an expiry leave alone.\<close>

definition schedule_fields :: "string list" where
  "schedule_fields = [''active_continuation'', ''last_scheduled_event_id'', ''last_scheduled_wake_at'', ''continuation_state_version'']"

lemma get_clear [simp]:
  "get (clear_schedule desc) k = (if k \<in> {''active_continuation'', ''last_scheduled_event_id'', ''last_scheduled_wake_at''} then JNull else get desc k)"
  "get_or (clear_schedule desc) k x = (if k \<in> {''active_continuation'', ''last_scheduled_event_id'', ''last_scheduled_wake_at''} then x else get_or desc k x)"
  by (simp_all add: clear_schedule_def)

lemma get_cong: "map_of a k = map_of b k \<Longrightarrow> get a k = get b k" "map_of a k = map_of b k \<Longrightarrow> get_or a k x = get_or b k x"
  by (simp_all add: get_def get_or_def)

lemma map_of_clear: "map_of (clear_schedule desc) k = (if k \<in> {''active_continuation'', ''last_scheduled_event_id'', ''last_scheduled_wake_at''} then None else map_of desc k)"
  by (simp add: clear_schedule_def map_of_pop)

lemma positioned_fields:
  assumes "positioned \<delta> desc cp decision n = Inr d"
  shows "k \<notin> {''status'', ''checkpoint_count'', ''updated_at'', ''latest_checkpoint_path'', ''latest_checkpoint_id''} \<Longrightarrow> map_of d k = map_of desc k"
    "get d ''status'' = JStr (if decision = ''continue'' then ''active'' else decision)" "map_of d ''checkpoint_count'' = Some (JInt n)"
    "get d ''updated_at'' = get cp ''created_at''"
proof -
  from assms obtain a b c where d: "d = dict_put ''updated_at'' a (dict_put ''latest_checkpoint_path'' b (dict_put ''latest_checkpoint_id'' c
           (dict_put ''checkpoint_count'' (JInt n)
             (dict_put ''status'' (JStr (if decision = ''continue'' then ''active'' else decision)) desc))))" and a: "subscript (JObj cp) ''created_at'' = Inr a"
    unfolding positioned_def ebind_Inr_iff by blast
  show "k \<notin> {''status'', ''checkpoint_count'', ''updated_at'', ''latest_checkpoint_path'', ''latest_checkpoint_id''} \<Longrightarrow> map_of d k = map_of desc k"
    by (simp add: d map_of_put)
  show "get d ''status'' = JStr (if decision = ''continue'' then ''active'' else decision)" "map_of d ''checkpoint_count'' = Some (JInt n)"
    "get d ''updated_at'' = get cp ''created_at''"
    using subscript_value [OF a] by (simp_all add: d map_of_put)
qed

lemma counted_fields:
  assumes "counted \<delta> desc decision = Inr d"
  shows "k \<noteq> ''continuation_count'' \<Longrightarrow> map_of d k = map_of desc k"
    "if decision \<in> set automatic_decisions
     then \<exists>n. int_value \<delta> (get_or desc ''continuation_count'' (JInt 0)) = Inr n \<and> map_of d ''continuation_count'' = Some (JInt (n + 1))
     else d = desc"
  using assms by (auto simp: counted_def err_simps map_of_put split: if_splits)

lemma scheduled_fields:
  assumes "scheduled desc cp decision n = Inr d" "k \<notin> set schedule_fields"
  shows "map_of d k = map_of desc k"
  using assms by (auto simp: scheduled_def err_simps schedule_fields_def map_of_put map_of_clear split: if_splits)

lemma waiting_fields:
  assumes "waiting desc cp decision = Inr d" "k \<noteq> ''waiting_on''" "k \<noteq> ''continuation_state_version''"
  shows "map_of d k = map_of desc k"
  using assms by (auto simp: waiting_def Let_def err_simps map_of_put map_of_pop split: if_splits)

definition kept_fields :: "string list" where
  "kept_fields = [''schema_version'', ''kind'', ''workstream_id'', ''project_id'', ''goal'', ''max_continuations'', ''max_wall_seconds'',
     ''created_at'', ''wake_target'', ''delay_seconds'']"

lemma applied_fields:
  assumes "applied_descriptor \<delta> desc cp n = Inr d"
  shows "map_of d ''checkpoint_count'' = Some (JInt n)"
    "get d ''status'' = JStr (let s = str_value \<delta> (get cp ''decision'') in if s = ''continue'' then ''active'' else s)"
    "k \<in> set kept_fields \<Longrightarrow> map_of d k = map_of desc k" "get d ''updated_at'' = get cp ''created_at''"
    "if str_value \<delta> (get cp ''decision'') \<in> set automatic_decisions
     then \<exists>m. int_value \<delta> (get_or desc ''continuation_count'' (JInt 0)) = Inr m \<and> map_of d ''continuation_count'' = Some (JInt (m + 1))
     else map_of d ''continuation_count'' = map_of desc ''continuation_count''"
proof -
  from assms obtain dj d1 d2 d3 where parts: "subscript (JObj cp) ''decision'' = Inr dj" "positioned \<delta> desc cp (str_value \<delta> dj) n = Inr d1"
    "counted \<delta> d1 (str_value \<delta> dj) = Inr d2" "scheduled d2 cp (str_value \<delta> dj) n = Inr d3" "waiting d3 cp (str_value \<delta> dj) = Inr d"
    by (auto simp: applied_descriptor_def Let_def ebind_Inr_iff)
  note dj = subscript_value [OF parts(1)]
  have late: "map_of d k = map_of d2 k" if "k \<notin> set schedule_fields" "k \<noteq> ''waiting_on''" for k
    using scheduled_fields [OF parts(4) that(1)] waiting_fields [OF parts(5) that(2)] that(1) by (simp add: schedule_fields_def)
  have mid: "map_of d k = map_of d1 k" if "k \<notin> set schedule_fields" "k \<noteq> ''waiting_on''" "k \<noteq> ''continuation_count''" for k
    using late [OF that(1,2)] counted_fields(1) [OF parts(3) that(3)] by simp
  show "map_of d ''checkpoint_count'' = Some (JInt n)" using mid positioned_fields(3) [OF parts(2)] by (simp add: schedule_fields_def)
  have "map_of d ''status'' = map_of d1 ''status''" "map_of d ''updated_at'' = map_of d1 ''updated_at''"
    using mid by (simp_all add: schedule_fields_def)
  from this [THEN get_cong(1)] show "get d ''status'' = JStr (let s = str_value \<delta> (get cp ''decision'') in if s = ''continue'' then ''active'' else s)"
    "get d ''updated_at'' = get cp ''created_at''"
    using positioned_fields(2,4) [OF parts(2)] dj by (simp_all add: Let_def)
  show "map_of d k = map_of desc k" if "k \<in> set kept_fields"
    using mid [of k] positioned_fields(1) [OF parts(2), of k] that by (auto simp: schedule_fields_def kept_fields_def)
  have c: "map_of d ''continuation_count'' = map_of d2 ''continuation_count''" "map_of d1 ''continuation_count'' = map_of desc ''continuation_count''"
    using late positioned_fields(1) [OF parts(2)] by (simp_all add: schedule_fields_def)
  from counted_fields(2) [OF parts(3)] get_cong(2) [OF c(2)]
  show "if str_value \<delta> (get cp ''decision'') \<in> set automatic_decisions
     then \<exists>m. int_value \<delta> (get_or desc ''continuation_count'' (JInt 0)) = Inr m \<and> map_of d ''continuation_count'' = Some (JInt (m + 1))
     else map_of d ''continuation_count'' = map_of desc ''continuation_count''"
    using c dj by (auto split: if_splits)
qed

lemma count_known: "map_of d ''checkpoint_count'' = Some (JInt n) \<Longrightarrow> count_of \<delta> d = Inr n"
  by (simp add: count_of_def get_or_def int_value_def)

lemma migrated_fields:
  assumes "migrated \<delta> desc cps = Inr d" "k \<notin> set schedule_fields"
  shows "map_of d k = map_of desc k"
  using assms unfolding migrated_def Let_def schedule_fields_def
  by (auto simp: err_simps map_of_put map_of_clear split: if_splits option.splits)

definition expired_as :: "fields \<Rightarrow> string \<Rightarrow> string \<Rightarrow> fields \<Rightarrow> bool" where
  "expired_as desc s stamp d \<longleftrightarrow> d = expired_descriptor s stamp desc \<or> d = dict_pop ''waiting_on'' (expired_descriptor s stamp desc)"

lemma expired_fields:
  assumes "expired_as desc s stamp d"
  shows "k \<notin> {''status'', ''reason'', ''updated_at'', ''active_continuation'', ''waiting_on''} \<Longrightarrow> map_of d k = map_of desc k"
    "get d ''status'' = JStr ''needs_user''" "get d ''updated_at'' = JStr stamp" "get d ''active_continuation'' = JNull"
  using assms by (auto simp: expired_as_def expired_descriptor_def map_of_put map_of_pop)

lemma resumed_fields:
  "k \<notin> {''status'', ''reason'', ''updated_at'', ''waiting_on''} \<union> set schedule_fields \<Longrightarrow> map_of (resumed_descriptor desc stamp) k = map_of desc k"
  "get (resumed_descriptor desc stamp) ''status'' = JStr ''active''" "get (resumed_descriptor desc stamp) ''updated_at'' = JStr stamp"
  "get (resumed_descriptor desc stamp) ''active_continuation'' = JNull"
  by (auto simp: resumed_descriptor_def map_of_put map_of_pop map_of_clear schedule_fields_def)

lemma merged_map: "k \<notin> fst ` set b \<Longrightarrow> map_of (merged a b) k = map_of a k"
  unfolding merged_def by (induction b arbitrary: a) (auto simp: map_of_put)

lemma merged_keys: "fst ` set (merged a b) = fst ` set a \<union> fst ` set b"
  unfolding merged_def
proof (induction b arbitrary: a)
  case (Cons x b)
  have "fst ` set (dict_put (fst x) (snd x) a) = insert (fst x) (fst ` set a)" by (simp add: dict_put_def dom_update)
  with Cons show ?case by auto
qed simp

lemma merged_value: "map_of (merged a b) k = Some v \<Longrightarrow> (k, v) \<in> set b \<or> map_of a k = Some v"
  unfolding merged_def by (induction b arbitrary: a) (fastforce simp: map_of_put split: if_splits)+

lemma merged_member: "(k, v) \<in> set (merged a b) \<Longrightarrow> (k, v) \<in> set a \<union> set b"
proof -
  have "set (AList.update x y al) \<subseteq> insert (x, y) (set al)" for x :: string and y :: json and al by (induction al) auto
  then show "(k, v) \<in> set (merged a b) \<Longrightarrow> (k, v) \<in> set a \<union> set b"
    unfolding merged_def dict_put_def by (induction b arbitrary: a) fastforce+
qed

lemma copied_values:
  assumes "copied fs ks = Inr xs"
  shows "map fst xs = ks" "(k, v) \<in> set xs \<Longrightarrow> map_of fs k = Some v"
proof -
  let ?f = "\<lambda>k. ebind (subscript (JObj fs) k) (\<lambda>v. Inr (k, v))"
  have e: "emap ?f ks = Inr xs" using assms by (simp only: copied_def)
  have one: "?f x = Inr y \<Longrightarrow> fst y = x \<and> map_of fs x = Some (snd y)" for x y
    by (auto simp: ebind_Inr_iff split: option.splits)
  have "list_all2 (\<lambda>x y. ?f x = Inr y) ks xs" using e by (simp only: emap_Inr_iff)
  then have "list_all2 (\<lambda>x y. fst y = x) ks xs" by (rule list_all2_mono) (use one in blast)
  then show "map fst xs = ks" by (auto simp: list_all2_conv_all_nth list_eq_iff_nth_eq)
  show "(k, v) \<in> set xs \<Longrightarrow> map_of fs k = Some v" using emap_Inr_set [OF e] one by fastforce
qed

lemma policy_fields_kept:
  assumes "policy_update desc limits reason revision stamp = Inr (n, d)" "list_all (\<lambda>kv. fst kv \<in> set policy_fields \<and> optional_limit (snd kv) = Inr ()) limits"
  shows "k \<notin> set policy_fields \<Longrightarrow> k \<notin> {''updated_at'', ''policy_history'', ''policy_revision''} \<Longrightarrow> map_of d k = map_of desc k"
    "k \<in> set policy_fields \<Longrightarrow> \<exists>v. map_of d k = Some v \<and> (optional_limit v = Inr () \<or> map_of desc k = Some v)" "get d ''updated_at'' = JStr stamp"
proof -
  from assms(1) obtain previous a b where previous: "copied desc policy_fields = Inr previous"
    and d: "d = dict_put ''updated_at'' (JStr stamp) (dict_put ''policy_history'' a (dict_put ''policy_revision'' b (merged desc (merged previous limits))))"
    unfolding policy_update_def Let_def ebind_Inr_iff by blast
  have names: "fst ` set previous = set policy_fields" using copied_values(1) [OF previous] by (metis set_map)
  have keys: "fst ` set (merged previous limits) = set policy_fields"
    using names assms(2) by (auto simp: merged_keys list_all_iff)
  show "map_of d k = map_of desc k" if "k \<notin> set policy_fields" "k \<notin> {''updated_at'', ''policy_history'', ''policy_revision''}"
    using merged_map [of k "merged previous limits" desc] that by (simp add: d map_of_put keys)
  show "get d ''updated_at'' = JStr stamp" by (simp add: d)
  show "\<exists>v. map_of d k = Some v \<and> (optional_limit v = Inr () \<or> map_of desc k = Some v)" if "k \<in> set policy_fields"
  proof -
    have dk: "map_of d k = map_of (merged desc (merged previous limits)) k" using that by (auto simp: d map_of_put policy_fields_def)
    have "k \<in> fst ` set (merged desc (merged previous limits))" using that keys by (simp add: merged_keys)
    then obtain v where v: "map_of (merged desc (merged previous limits)) k = Some v" by (metis map_of_eq_None_iff not_None_eq)
    have lim: "optional_limit v = Inr ()" if "(k, v) \<in> set limits" using assms(2) that by (auto simp: list_all_iff)
    have old: "map_of desc k = Some v" if "(k, v) \<in> set previous" using copied_values(2) [OF previous] that by blast
    from merged_value [OF v] merged_member [of k v previous limits] lim old have "optional_limit v = Inr () \<or> map_of desc k = Some v" by blast
    with v dk show ?thesis by auto
  qed
qed

section \<open>Well-formed records\<close>

definition stream_statuses :: "string list" where
  "stream_statuses = [''active'', ''waiting_external'', ''needs_user'', ''blocked'', ''complete'', ''paused'']"

lemma validate_workstream_iff:
  "validate_workstream v (Some w) = Inr () \<longleftrightarrow> is_supported_schema_version (get v ''schema_version'') \<and> get v ''kind'' = JStr ''ORCHESTRATOR_WORKSTREAM'' \<and>
     get v ''workstream_id'' = JStr w \<and> (\<forall>k\<in>set policy_fields. \<exists>l. map_of v k = Some l \<and> optional_limit l = Inr ())"
  by (auto simp: validate_workstream_def err_simps policy_fields_def split: option.splits)

definition descriptor_typed :: "string \<Rightarrow> fields \<Rightarrow> bool" where
  "descriptor_typed w v \<longleftrightarrow> validate_workstream v (Some w) = Inr () \<and> get v ''status'' \<in> JStr ` set stream_statuses \<and>
     (\<exists>n\<ge>0. map_of v ''checkpoint_count'' = Some (JInt n)) \<and> (\<exists>n\<ge>0. map_of v ''continuation_count'' = Some (JInt n)) \<and>
     is_str (get v ''created_at'') \<and> is_str (get v ''updated_at'')"

definition checkpoint_shape :: "string \<Rightarrow> fields \<Rightarrow> bool" where
  "checkpoint_shape w cp \<longleftrightarrow> get cp ''schema_version'' = JInt 1 \<and> get cp ''kind'' = JStr ''ORCHESTRATOR_WORKSTREAM_CHECKPOINT'' \<and>
     get cp ''workstream_id'' = JStr w \<and> is_str (get cp ''checkpoint_id'') \<and> get cp ''sequence'' = JInt (sequence_of cp) \<and>
     get cp ''decision'' \<in> JStr ` set workstream_decisions \<and> is_str (get cp ''created_at'')"

section \<open>The steps\<close>

definition files_of :: "disk \<Rightarrow> path \<Rightarrow> content option" where
  "files_of d = (\<lambda>p. content_at p d)"

definition checkpoints_dir :: "disk_env \<Rightarrow> string \<Rightarrow> path" where
  "checkpoints_dir \<delta> w = workstream_dir \<delta> w @ [''checkpoints'']"

definition in_dir :: "path \<Rightarrow> path \<Rightarrow> bool" where
  "in_dir dir p \<longleftrightarrow> p \<noteq> [] \<and> butlast p = dir"

definition stream_file :: "disk_env \<Rightarrow> path \<Rightarrow> bool" where
  "stream_file \<delta> p \<longleftrightarrow> (\<exists>w. p = descriptor_path \<delta> w \<or> in_dir (checkpoints_dir \<delta> w) p)"

definition generated :: "fields \<Rightarrow> bool" where
  "generated cp \<longleftrightarrow> get cp ''kind'' \<in> JStr ` set generated_kinds"

text \<open>The checkpoints of a workstream, and that all of them have been applied.\<close>

definition stored :: "disk_env \<Rightarrow> string \<Rightarrow> (path \<Rightarrow> content option) \<Rightarrow> path \<Rightarrow> fields \<Rightarrow> bool" where
  "stored \<delta> w f p cp \<longleftrightarrow> in_dir (checkpoints_dir \<delta> w) p \<and> 5 \<le> length (last p) \<and> drop (length (last p) - 5) (last p) = ''.json'' \<and> f p = Some (Doc (JObj cp)) \<and> \<not> generated cp"

text \<open>The changes of a descriptor. \<open>W\<close> says which policies may be edited and which workstreams get new checkpoints.\<close>

datatype permission = May_Edit string | May_Record string

inductive change :: "permission set \<Rightarrow> disk_env \<Rightarrow> string \<Rightarrow> (path \<Rightarrow> content option) \<Rightarrow> fields \<Rightarrow> fields \<Rightarrow> bool" for W \<delta> w f desc where
  applied: "stored \<delta> w f p cp \<Longrightarrow> count_of \<delta> desc = Inr n \<Longrightarrow> sequence_of cp = n + 1 \<Longrightarrow> get desc ''status'' \<noteq> JStr ''complete'' \<Longrightarrow>
    applied_descriptor \<delta> desc cp (n + 1) = Inr desc' \<Longrightarrow> change W \<delta> w f desc desc'"
| migrated: "int_value \<delta> (get_or desc ''continuation_state_version'' (JInt 0)) = Inr v \<Longrightarrow> v < 1 \<Longrightarrow> migrated \<delta> desc cps = Inr desc' \<Longrightarrow> change W \<delta> w f desc desc'"
| expired: "get desc ''status'' \<in> {JStr ''active'', JStr ''waiting_external''} \<Longrightarrow> wall_limit_reason \<delta> desc t = Inr (Some s) \<Longrightarrow>
    expired_as desc s stamp desc' \<Longrightarrow> change W \<delta> w f desc desc'"
| policy: "May_Edit w \<in> W \<Longrightarrow> list_all (\<lambda>kv. fst kv \<in> set policy_fields \<and> optional_limit (snd kv) = Inr ()) limits \<Longrightarrow>
    policy_update desc limits reason revision stamp = Inr (n, desc') \<Longrightarrow> change W \<delta> w f desc desc'"
| resumed: "get desc ''status'' \<notin> {JStr ''complete'', JStr ''active''} \<Longrightarrow> change W \<delta> w f desc (resumed_descriptor desc stamp)"

text \<open>A new checkpoint continues the sequence, and continues automatically only within the limits.\<close>

definition recordable :: "disk_env \<Rightarrow> string \<Rightarrow> (path \<Rightarrow> content option) \<Rightarrow> fields \<Rightarrow> fields \<Rightarrow> bool" where
  "recordable \<delta> w f desc cp \<longleftrightarrow>
     get desc ''status'' \<noteq> JStr ''complete'' \<and> checkpoint_shape w cp \<and>
     count_of \<delta> desc = Inr (sequence_of cp - 1) \<and> (\<forall>p cp'. stored \<delta> w f p cp' \<longrightarrow> sequence_of cp' < sequence_of cp) \<and>
     (get cp ''decision'' \<in> JStr ` set automatic_decisions \<longrightarrow> (\<exists>t. limit_reason \<delta> desc t = Inr None)) \<and>
     (get cp ''decision'' = JStr ''continue'' \<longrightarrow> get desc ''status'' = JStr ''active'')"

inductive stream_step :: "permission set \<Rightarrow> disk_env \<Rightarrow> (path \<Rightarrow> content option) \<Rightarrow> (path \<Rightarrow> content option) \<Rightarrow> bool" for W \<delta> f where
  elsewhere: "\<not> stream_file \<delta> p \<Longrightarrow> stream_step W \<delta> f (f(p \<mapsto> c))"
| created: "f (descriptor_path \<delta> w) = None \<Longrightarrow> stream_step W \<delta> f (f(descriptor_path \<delta> w \<mapsto> Raw []))"
| started: "f (descriptor_path \<delta> w) = Some (Raw []) \<Longrightarrow> descriptor_typed w desc \<Longrightarrow> get desc ''status'' = JStr ''active'' \<Longrightarrow>
    map_of desc ''checkpoint_count'' = Some (JInt 0) \<Longrightarrow> map_of desc ''continuation_count'' = Some (JInt 0) \<Longrightarrow>
    stream_step W \<delta> f (f(descriptor_path \<delta> w \<mapsto> Doc (JObj desc)))"
| recorded: "May_Record w \<in> W \<Longrightarrow> f (descriptor_path \<delta> w) = Some (Doc (JObj desc)) \<Longrightarrow> f (checkpoint_path \<delta> w c) = None \<Longrightarrow> recordable \<delta> w f desc cp \<Longrightarrow>
    stream_step W \<delta> f (f(checkpoint_path \<delta> w c \<mapsto> Doc (JObj cp)))"
| described: "f (descriptor_path \<delta> w) = Some (Doc (JObj desc)) \<Longrightarrow> change W \<delta> w f desc desc' \<Longrightarrow>
    stream_step W \<delta> f (f(descriptor_path \<delta> w \<mapsto> Doc (JObj desc')))"

definition stream_steps :: "permission set \<Rightarrow> disk_env \<Rightarrow> disk \<Rightarrow> disk \<Rightarrow> bool" where
  "stream_steps W \<delta> d d' \<longleftrightarrow> (stream_step W \<delta>)\<^sup>*\<^sup>* (files_of d) (files_of d')"

interpretation stream: io_relation "stream_steps W \<delta>" for W \<delta>
  by unfold_locales (auto simp: stream_steps_def files_of_def content_at_def intro: rtranclp_trans)

end
