(* ===== verification/Workstream_Refinement.thy ===== *)
theory Workstream_Refinement
  imports Workstream_Steps
begin

text \<open>
  Every operation on workstreams refines the atomic steps of \<open>Workstream_Steps\<close>: a small logic of
  assertions on the files (\<open>runs\<close>) follows the operations line by line, and the refinement of
  arbitrary sequences of operations (\<open>run_ops_steps\<close>) is the result.
\<close>

section \<open>Operations as steps\<close>

text \<open>From files with \<open>P\<close>, the operation only makes steps, wherever it stops, and a result comes with \<open>Q\<close>.\<close>

definition runs ::
    "permission set \<Rightarrow> disk_env \<Rightarrow> ((path \<Rightarrow> content option) \<Rightarrow> bool) \<Rightarrow> 'a io \<Rightarrow> ('a \<Rightarrow> (path \<Rightarrow> content option) \<Rightarrow> bool) \<Rightarrow> bool" where
  "runs W \<delta> P m Q \<longleftrightarrow> (\<forall>d r d'. P (files_of d) \<longrightarrow> m d = (r, d') \<longrightarrow> stream_steps W \<delta> d d' \<and> (\<forall>x. r = Inr x \<longrightarrow> Q x (files_of d')))"

lemma runs_bind: "runs W \<delta> P m Q \<Longrightarrow> (\<And>x. runs W \<delta> (Q x) (g x) R) \<Longrightarrow> runs W \<delta> P (ibind m g) R"
  unfolding runs_def ibind_eq by (blast intro: stream.trans)

lemma runs_return: "(\<And>f. P f \<Longrightarrow> Q x f) \<Longrightarrow> runs W \<delta> P (ireturn x) Q"
  by (auto simp: runs_def io_simps intro: stream.refl)

lemma runs_lift: "(\<And>f x. P f \<Longrightarrow> m = Inr x \<Longrightarrow> Q x f) \<Longrightarrow> runs W \<delta> P (ilift m) Q"
  by (auto simp: runs_def ilift_any intro: stream.refl split: sum.splits)

lemma lift_simps [simp]:
  "ibind (ilift (Inr x)) g = g x" "ibind (ilift (Inl e)) h = ilift (Inl e)"
  "ibind (ireturn x) g = g x"
  by (auto simp: ibind_def ilift_def ireturn_def fun_eq_iff)

lemma runs_stop [simp]: "runs W \<delta> P (ilift (Inl e)) Q"
  by (rule runs_lift) simp

lemma runs_raise: "(\<not> c \<Longrightarrow> runs W \<delta> P (g ()) Q) \<Longrightarrow> runs W \<delta> P (ibind (ilift (raise_if c e)) g) Q"
  by (cases c) simp_all

lemma runs_value: "(\<And>x. m = Inr x \<Longrightarrow> runs W \<delta> P (g x) Q) \<Longrightarrow> runs W \<delta> P (ibind (ilift m) g) Q"
  by (cases m) simp_all

lemma runs_ask: "(\<And>d. P (files_of d) \<Longrightarrow> Q (g d) (files_of d)) \<Longrightarrow> runs W \<delta> P (iask g) Q"
  by (auto simp: runs_def io_simps intro: stream.refl)

lemma runs_pre: "runs W \<delta> P m Q \<Longrightarrow> (\<And>f. P' f \<Longrightarrow> P f) \<Longrightarrow> runs W \<delta> P' m Q"
  by (auto simp: runs_def)

lemma runs_post: "runs W \<delta> P m Q \<Longrightarrow> (\<And>x f. Q x f \<Longrightarrow> Q' x f) \<Longrightarrow> runs W \<delta> P m Q'"
  by (auto simp: runs_def)

lemma runs_fact: "(\<And>f. P f \<Longrightarrow> A) \<Longrightarrow> (A \<Longrightarrow> runs W \<delta> P m Q) \<Longrightarrow> runs W \<delta> P m Q"
  unfolding runs_def by blast

lemma runs_ex: "(\<And>y. runs W \<delta> (P y) m Q) \<Longrightarrow> runs W \<delta> (\<lambda>f. \<exists>y. P y f) m Q"
  unfolding runs_def by blast

lemma runs_quiet: "ioframe files_kept m \<Longrightarrow> runs W \<delta> P m (\<lambda>_. P)"
  by (auto simp: runs_def ioframe_def files_kept_def files_of_def content_at_def stream_steps_def)

lemma runs_on_error: "runs W \<delta> P m Q \<Longrightarrow> (\<And>e. runs W \<delta> (\<lambda>_. True) (k e) Q) \<Longrightarrow> runs W \<delta> P (on_error h m k) Q"
  unfolding runs_def on_error_eq by (blast intro: stream.trans)

lemma runs_write:
  assumes "\<And>f. P f \<Longrightarrow> stream_step W \<delta> f (f(p \<mapsto> Doc v))" "\<And>f. P f \<Longrightarrow> Q (f(p \<mapsto> Doc v))"
  shows "runs W \<delta> P (atomic_json \<delta> p v) (\<lambda>_. Q)"
  unfolding runs_def
proof (intro allI impI)
  fix d r d' assume P: "P (files_of d)" and run: "atomic_json \<delta> p v d = (r, d')"
  from atomic_json_files [OF run]
  have "files_of d' = files_of d \<and> r \<noteq> Inr () \<or> files_of d' = (files_of d)(p \<mapsto> Doc v)"
    by (auto simp: files_of_def content_at_def fun_eq_iff)
  with assms [OF P] show "stream_steps W \<delta> d d' \<and> (\<forall>x. r = Inr x \<longrightarrow> Q (files_of d'))"
    by (auto simp: stream_steps_def)
qed

text \<open>Operations that touch no descriptor and no checkpoint.\<close>

definition aside :: "permission set \<Rightarrow> disk_env \<Rightarrow> disk \<Rightarrow> disk \<Rightarrow> bool" where
  "aside W \<delta> d d' \<longleftrightarrow> stream_steps W \<delta> d d' \<and> (\<forall>p. stream_file \<delta> p \<longrightarrow> files_of d' p = files_of d p)"

interpretation aside: io_relation "aside W \<delta>" for W \<delta>
  by unfold_locales (auto simp: aside_def files_of_def content_at_def intro: stream.trans stream.refl stream.tick stream.read)

definition on_streams :: "disk_env \<Rightarrow> ((path \<Rightarrow> content option) \<Rightarrow> bool) \<Rightarrow> bool" where
  "on_streams \<delta> P \<longleftrightarrow> (\<forall>f g. (\<forall>p. stream_file \<delta> p \<longrightarrow> g p = f p) \<longrightarrow> P f \<longrightarrow> P g)"

lemma runs_aside: "ioframe (aside W \<delta>) m \<Longrightarrow> on_streams \<delta> P \<Longrightarrow> runs W \<delta> P m (\<lambda>_. P)"
  unfolding runs_def ioframe_def aside_def on_streams_def by metis

lemma aside_quiet: "ioframe files_kept m \<Longrightarrow> ioframe (aside W \<delta>) m"
  by (auto simp: ioframe_def files_kept_def aside_def files_of_def content_at_def stream_steps_def)

lemma aside_write: "\<not> stream_file \<delta> p \<Longrightarrow> ioframe (aside W \<delta>) (atomic_json \<delta> p v)"
  unfolding ioframe_def
proof (intro allI impI)
  fix d r d' assume p: "\<not> stream_file \<delta> p" and run: "atomic_json \<delta> p v d = (r, d')"
  have "stream_steps W \<delta> d d'"
    using runs_write [where P = "\<lambda>_. True" and \<delta> = \<delta> and p = p and v = v and Q = "\<lambda>_. True" and W = W] stream_step.elsewhere [OF p] run by (auto simp: runs_def)
  moreover have "files_of d' q = files_of d q" if "stream_file \<delta> q" for q
    using atomic_json_content(3) [OF run, of q] p that by (auto simp: files_of_def)
  ultimately show "aside W \<delta> d d'" by (simp add: aside_def)
qed

lemma stream_file_length:
  "stream_file \<delta> p \<Longrightarrow> take (length (de_state \<delta>) + 1) p = de_state \<delta> @ [''workstreams''] \<and>
     (length p = length (de_state \<delta>) + 3 \<or> length p = length (de_state \<delta>) + 4)"
  by (auto simp: stream_file_def in_dir_def descriptor_path_def workstream_dir_def workstreams_root_def checkpoints_dir_def
      elim!: rev_cases [of p] split: if_splits) (cases p rule: rev_cases; simp)+

lemma aside_files:
  "\<not> stream_file \<delta> (event_path \<delta> i)" "\<not> stream_file \<delta> (signal_path \<delta> i)"
  "in_dir (checkpoints_dir \<delta> w) p \<Longrightarrow> \<not> stream_file \<delta> (fst (checkpoint_artifact_paths p))"
  "in_dir (checkpoints_dir \<delta> w) p \<Longrightarrow> \<not> stream_file \<delta> (snd (checkpoint_artifact_paths p))"
  by (auto dest!: stream_file_length simp: event_path_def signal_path_def json_file_def events_root_def inbox_root_def
      checkpoint_artifact_paths_def Let_def in_dir_def checkpoints_dir_def workstream_dir_def workstreams_root_def)

lemma retain_aside: "ioframe (aside W \<delta>) (retain_event_and_signal \<delta> (event_path \<delta> i) (signal_path \<delta> i) event signal immutable emit)"
  unfolding retain_event_and_signal_def
  by (auto split: prod.split option.split intro!: aside.frame_intros aside_write aside_files)

lemma publication_aside:
  "ioframe (aside W \<delta>) (write_terminal_event \<delta> task status rp vp eid wake emit)"
  "ioframe (aside W \<delta>) (write_followup_event \<delta> oid source status rp vp eid wake emit nb)"
  unfolding write_terminal_event_def write_followup_event_def Let_def
  by (auto intro!: aside.frame_intros retain_aside quiet_reads [THEN aside_quiet])

lemma artifact_aside:
  "in_dir (checkpoints_dir \<delta> w) p \<Longrightarrow> checkpoint_artifact_paths p = (rp, vp) \<Longrightarrow> \<not> stream_file \<delta> rp \<and> \<not> stream_file \<delta> vp"
  using aside_files(3,4) [of \<delta> w p] by simp

lemma ensure_event_aside: "in_dir (checkpoints_dir \<delta> w) p \<Longrightarrow> ioframe (aside W \<delta>) (ensure_checkpoint_event \<delta> cp p)"
  unfolding ensure_checkpoint_event_def write_checkpoint_artifacts_def
  by (auto split: prod.split intro!: aside.frame_intros aside_write publication_aside dest: artifact_aside)

lemma recover_event_aside: "in_dir (checkpoints_dir \<delta> w) p \<Longrightarrow> ioframe (aside W \<delta>) (recover_event \<delta> p cp)"
  unfolding recover_event_def by (auto intro!: aside.frame_intros ensure_event_aside)

section \<open>Loading and applying\<close>

definition describes :: "disk_env \<Rightarrow> string \<Rightarrow> fields \<Rightarrow> (path \<Rightarrow> content option) \<Rightarrow> bool" where
  "describes \<delta> w desc f \<longleftrightarrow> f (descriptor_path \<delta> w) = Some (Doc (JObj desc)) \<and> get desc ''workstream_id'' = JStr w \<and> id_pattern w"

definition loaded :: "disk_env \<Rightarrow> string \<Rightarrow> (path \<times> fields) list \<Rightarrow> (path \<Rightarrow> content option) \<Rightarrow> bool" where
  "loaded \<delta> w cps f \<longleftrightarrow> (\<forall>(p, cp)\<in>set cps. stored \<delta> w f p cp \<and> validate_checkpoint cp w = Inr ())"

definition covers :: "disk_env \<Rightarrow> string \<Rightarrow> (path \<times> fields) list \<Rightarrow> (path \<Rightarrow> content option) \<Rightarrow> bool" where
  "covers \<delta> w cps f \<longleftrightarrow> (\<forall>p cp. stored \<delta> w f p cp \<longrightarrow> (p, cp) \<in> set cps)"

definition count_le :: "disk_env \<Rightarrow> fields \<Rightarrow> int \<Rightarrow> bool" where
  "count_le \<delta> desc k \<longleftrightarrow> (\<exists>n. count_of \<delta> desc = Inr n \<and> k \<le> n)"

definition all_applied :: "disk_env \<Rightarrow> string \<Rightarrow> fields \<Rightarrow> (path \<Rightarrow> content option) \<Rightarrow> bool" where
  "all_applied \<delta> w desc f \<longleftrightarrow> (\<forall>p cp. stored \<delta> w f p cp \<longrightarrow> count_le \<delta> desc (sequence_of cp))"

lemma dir_not_descriptor: "in_dir (checkpoints_dir \<delta> w) p \<Longrightarrow> p \<noteq> descriptor_path \<delta> w'"
proof
  assume "in_dir (checkpoints_dir \<delta> w) p" "p = descriptor_path \<delta> w'"
  then have "length (butlast p) = length (checkpoints_dir \<delta> w)" "length p = length (de_state \<delta>) + 3"
    by (auto simp: in_dir_def descriptor_path_def workstream_dir_def workstreams_root_def)
  then show False by (simp add: checkpoints_dir_def workstream_dir_def workstreams_root_def)
qed

lemma stored_update [simp]: "stored \<delta> w (f(descriptor_path \<delta> w' \<mapsto> c)) p cp = stored \<delta> w f p cp"
  using dir_not_descriptor by (auto simp: stored_def)

lemma on_streams_intros [intro]:
  "on_streams \<delta> (describes \<delta> w desc)" "on_streams \<delta> (loaded \<delta> w cps)" "on_streams \<delta> (covers \<delta> w cps)" "on_streams \<delta> (all_applied \<delta> w desc)"
  "on_streams \<delta> P \<Longrightarrow> on_streams \<delta> Q \<Longrightarrow> on_streams \<delta> (\<lambda>f. P f \<and> Q f)" "on_streams \<delta> (\<lambda>_. A)"
  "(\<And>y. on_streams \<delta> (T y)) \<Longrightarrow> on_streams \<delta> (\<lambda>f. \<exists>y. T y f)"
proof -
  have s: "stored \<delta> w g = stored \<delta> w f" if "\<forall>p. stream_file \<delta> p \<longrightarrow> g p = f p" for f g
    using that by (auto simp: stored_def stream_file_def fun_eq_iff)
  have "loaded \<delta> w cps g = loaded \<delta> w cps f" "covers \<delta> w cps g = covers \<delta> w cps f" "all_applied \<delta> w desc g = all_applied \<delta> w desc f"
    if "\<forall>p. stream_file \<delta> p \<longrightarrow> g p = f p" for f g
    by (simp_all add: loaded_def covers_def all_applied_def s [OF that])
  then show "on_streams \<delta> (loaded \<delta> w cps)" "on_streams \<delta> (covers \<delta> w cps)" "on_streams \<delta> (all_applied \<delta> w desc)"
    unfolding on_streams_def by blast+
  have "stream_file \<delta> (descriptor_path \<delta> w)" by (auto simp: stream_file_def)
  then show "on_streams \<delta> (describes \<delta> w desc)" by (simp add: on_streams_def describes_def)
qed (unfold on_streams_def, blast+)

lemma descriptor_update [simp]:
  "loaded \<delta> w cps (f(descriptor_path \<delta> w' \<mapsto> c)) = loaded \<delta> w cps f"
  "covers \<delta> w cps (f(descriptor_path \<delta> w' \<mapsto> c)) = covers \<delta> w cps f"
  "all_applied \<delta> w desc (f(descriptor_path \<delta> w' \<mapsto> c)) = all_applied \<delta> w desc f"
  by (simp_all add: loaded_def covers_def all_applied_def)

lemma load_runs: "runs W \<delta> P (load_object p) (\<lambda>v f. P f \<and> f p = Some (Doc (JObj v)))"
  by (auto simp: runs_def files_of_def io_simps stream_steps_def dest: load_object_stop)

lemma load_workstream_runs: "runs W \<delta> P (load_workstream \<delta> w) (\<lambda>desc f. P f \<and> describes \<delta> w desc f)"
proof -
  have valid: "get v ''workstream_id'' = JStr w" if "validate_workstream v (Some w) = Inr u" for v u
    using that by (auto simp: validate_workstream_def err_simps)
  show ?thesis unfolding load_workstream_def
  proof (rule runs_bind)
    show "runs W \<delta> P (ilift (checked_descriptor_path \<delta> w)) (\<lambda>p f. P f \<and> id_pattern w \<and> p = descriptor_path \<delta> w)"
      by (rule runs_lift) (auto simp: checked_descriptor_path_def validate_stream_id_def split: if_splits)
    fix p
    show "runs W \<delta> (\<lambda>f. P f \<and> id_pattern w \<and> p = descriptor_path \<delta> w)
       (ibind (load_object p) (\<lambda>v. ibind (ilift (validate_workstream v (Some w))) (\<lambda>_. ireturn v))) (\<lambda>desc f. P f \<and> describes \<delta> w desc f)"
    proof (rule runs_bind [OF load_runs])
      fix v
      let ?P = "\<lambda>f. (P f \<and> id_pattern w \<and> p = descriptor_path \<delta> w) \<and> f p = Some (Doc (JObj v))"
      show "runs W \<delta> ?P (ibind (ilift (validate_workstream v (Some w))) (\<lambda>_. ireturn v)) (\<lambda>desc f. P f \<and> describes \<delta> w desc f)"
        by (rule runs_bind [OF runs_lift [where Q = "\<lambda>_ f. ?P f \<and> get v ''workstream_id'' = JStr w"]])
          (auto simp: describes_def intro: runs_return valid)
    qed
  qed
qed

text \<open>Predicates that do not read the descriptor.\<close>

definition descriptor_free :: "disk_env \<Rightarrow> string \<Rightarrow> ((path \<Rightarrow> content option) \<Rightarrow> bool) \<Rightarrow> bool" where
  "descriptor_free \<delta> w P \<longleftrightarrow> (\<forall>f c. P f \<longrightarrow> P (f(descriptor_path \<delta> w \<mapsto> c)))"

lemma descriptor_free_intros [simp, intro]:
  "descriptor_free \<delta> w (loaded \<delta> w cps)" "descriptor_free \<delta> w (covers \<delta> w cps)" "descriptor_free \<delta> w (all_applied \<delta> w desc)" "descriptor_free \<delta> w (\<lambda>_. A)"
  "descriptor_free \<delta> w P \<Longrightarrow> descriptor_free \<delta> w Q \<Longrightarrow> descriptor_free \<delta> w (\<lambda>f. P f \<and> Q f)"
  by (auto simp: descriptor_free_def)

lemma describe_runs:
  assumes "\<And>f. describes \<delta> w desc f \<Longrightarrow> P f \<Longrightarrow> change W \<delta> w f desc desc'" "get desc' ''workstream_id'' = JStr w"
    and "descriptor_free \<delta> w P"
  shows "runs W \<delta> (\<lambda>f. describes \<delta> w desc f \<and> P f) (atomic_json \<delta> (descriptor_path \<delta> w) (JObj desc')) (\<lambda>_ f. describes \<delta> w desc' f \<and> P f)"
  by (rule runs_write) (use assms in \<open>auto simp: describes_def descriptor_free_def intro: stream_step.described\<close>)

lemma save_runs:
  assumes "\<And>f. describes \<delta> w desc f \<Longrightarrow> P f \<Longrightarrow> change W \<delta> w f desc desc'" "get desc' ''workstream_id'' = get desc ''workstream_id''"
    and "descriptor_free \<delta> w P"
  shows "runs W \<delta> (\<lambda>f. describes \<delta> w desc f \<and> P f) (save_descriptor \<delta> desc') (\<lambda>_ f. describes \<delta> w desc' f \<and> P f)"
  unfolding save_descriptor_def
proof (rule runs_fact)
  fix f assume "describes \<delta> w desc f \<and> P f"
  with assms(2) show "get desc' ''workstream_id'' = JStr w" by (simp add: describes_def)
next
  assume id: "get desc' ''workstream_id'' = JStr w"
  have desc: "runs W \<delta> (\<lambda>f. describes \<delta> w desc f \<and> P f) (atomic_json \<delta> (descriptor_path \<delta> w) (JObj desc')) (\<lambda>_ f. describes \<delta> w desc' f \<and> P f)"
    by (rule describe_runs) (use assms id in auto)
  from id have sub: "subscript (JObj desc') ''workstream_id'' = Inr (JStr w)"
    by (auto simp: get_def split: option.splits)
  show "runs W \<delta> (\<lambda>f. describes \<delta> w desc f \<and> P f)
     (ibind (ilift (ebind (subscript (JObj desc') ''workstream_id'') (\<lambda>v. checked_descriptor_path \<delta> (str_value \<delta> v)))) (\<lambda>p. atomic_json \<delta> p (JObj desc')))
     (\<lambda>_ f. describes \<delta> w desc' f \<and> P f)"
    by (rule runs_value) (auto simp: sub str_value_def checked_descriptor_path_def validate_stream_id_def simp del: subscript.simps
        intro!: desc split: if_splits)
qed

lemma valid_sequence:
  assumes "validate_checkpoint cp w = Inr ()"
  shows "ebind (subscript (JObj cp) ''sequence'') (int_value \<delta>) = Inr (sequence_of cp)" "1 \<le> sequence_of cp"
    "get cp ''decision'' \<in> JStr ` set workstream_decisions" "get cp ''workstream_id'' = JStr w"
proof -
  from assms have *: "\<exists>n. int_instance (get cp ''sequence'') = Some n \<and> 1 \<le> n" "get cp ''decision'' \<in> JStr ` set workstream_decisions"
    "get cp ''workstream_id'' = JStr w"
    by (auto simp: validate_checkpoint_def Let_def err_simps split: option.splits)
  then obtain n where n: "int_instance (get cp ''sequence'') = Some n" "1 \<le> n" by blast
  then have "subscript (JObj cp) ''sequence'' = Inr (get cp ''sequence'')"
    by (auto simp: get_def split: option.splits)
  with n show "ebind (subscript (JObj cp) ''sequence'') (int_value \<delta>) = Inr (sequence_of cp)" "1 \<le> sequence_of cp"
    by (cases "get cp ''sequence''"; simp add: int_value_def sequence_of_def)+
qed (use assms in \<open>auto simp: validate_checkpoint_def Let_def err_simps\<close>)

lemma apply_runs:
  assumes seq: "ebind (subscript (JObj cp) ''sequence'') (int_value \<delta>) = Inr (sequence_of cp)" and R: "descriptor_free \<delta> w R"
  shows "runs W \<delta> (\<lambda>f. describes \<delta> w desc f \<and> stored \<delta> w f p cp \<and> R f) (apply_checkpoint \<delta> desc cp)
     (\<lambda>(changed, desc') f. describes \<delta> w desc' f \<and> (stored \<delta> w f p cp \<and> R f) \<and> count_le \<delta> desc' (sequence_of cp) \<and>
       (\<forall>k. count_le \<delta> desc k \<longrightarrow> count_le \<delta> desc' k))"
proof -
  let ?P = "\<lambda>f. stored \<delta> w f p cp \<and> R f"
  let ?Q = "\<lambda>(changed, desc') f. describes \<delta> w desc' f \<and> ?P f \<and> count_le \<delta> desc' (sequence_of cp) \<and> (\<forall>k. count_le \<delta> desc k \<longrightarrow> count_le \<delta> desc' k)"
  have advance: "runs W \<delta> (\<lambda>f. describes \<delta> w desc f \<and> ?P f) (ibind (save_descriptor \<delta> desc') (\<lambda>_. ireturn (True, desc'))) ?Q"
    if "count_of \<delta> desc = Inr n" "get desc ''status'' \<noteq> JStr ''complete''" "sequence_of cp = n + 1" "applied_descriptor \<delta> desc cp (n + 1) = Inr desc'"
    for n desc'
  proof (rule runs_bind [OF save_runs])
    show "get desc' ''workstream_id'' = get desc ''workstream_id''"
      by (rule get_cong(1) [OF applied_fields(3) [OF that(4)]]) (simp add: kept_fields_def)
    show "runs W \<delta> (\<lambda>f. describes \<delta> w desc' f \<and> ?P f) (ireturn (True, desc')) ?Q"
      using that count_known [OF applied_fields(1) [OF that(4)]] by (intro runs_return) (auto simp: count_le_def)
    show "change W \<delta> w f desc desc'" if "?P f" for f
      using that \<open>applied_descriptor \<delta> desc cp (n + 1) = Inr desc'\<close> \<open>count_of \<delta> desc = Inr n\<close> \<open>sequence_of cp = n + 1\<close>
        \<open>get desc ''status'' \<noteq> JStr ''complete''\<close> by (auto intro: change.applied)
    show "descriptor_free \<delta> w ?P" using R by (auto simp: descriptor_free_def)
  qed
  show ?thesis
    unfolding apply_checkpoint_def count_of_def [symmetric] seq lift_simps
  proof (rule runs_value)
    fix n assume n: "count_of \<delta> desc = Inr n"
    show "runs W \<delta> (\<lambda>f. describes \<delta> w desc f \<and> ?P f)
      (if sequence_of cp \<le> n then ireturn (False, desc)
       else
         ibind (ilift (raise_if (get desc ''status'' = JStr ''complete'') (WorkstreamError ''completed workstream cannot apply checkpoint''))) (\<lambda>_.
         ibind (ilift (raise_if (sequence_of cp \<noteq> n + 1) (WorkstreamError ''checkpoint sequence gap''))) (\<lambda>_.
         ibind (ilift (applied_descriptor \<delta> desc cp (sequence_of cp))) (\<lambda>desc'.
         ibind (save_descriptor \<delta> desc') (\<lambda>_. ireturn (True, desc')))))) ?Q"
      using n advance [OF n] by (auto simp: count_le_def intro!: runs_return runs_raise runs_value)
  qed
qed

section \<open>Reconciliation\<close>

lemma checkpoint_files_set:
  "set (checkpoint_files (checkpoints_dir \<delta> w) d) =
     {p. in_dir (checkpoints_dir \<delta> w) p \<and> 5 \<le> length (last p) \<and> drop (length (last p) - 5) (last p) = ''.json'' \<and> content_at p d \<noteq> None}"
  by (auto simp: checkpoint_files_def in_dir_def content_at_def map_of_eq_None_iff)

definition json_in :: "path \<Rightarrow> path \<Rightarrow> bool" where
  "json_in dir p \<longleftrightarrow> in_dir dir p \<and> 5 \<le> length (last p) \<and> drop (length (last p) - 5) (last p) = ''.json''"

lemma loaded_Cons: "loaded \<delta> w ((p, cp) # cps) f \<longleftrightarrow> stored \<delta> w f p cp \<and> validate_checkpoint cp w = Inr () \<and> loaded \<delta> w cps f"
  by (auto simp: loaded_def)

lemma load_checkpoints_runs:
  assumes "\<forall>p\<in>set ps. json_in (checkpoints_dir \<delta> w) p"
  shows "runs W \<delta> P (load_checkpoints w ps)
     (\<lambda>cps f. P f \<and> loaded \<delta> w cps f \<and> (\<forall>p cp. p \<in> set ps \<longrightarrow> stored \<delta> w f p cp \<longrightarrow> (p, cp) \<in> set cps))"
  using assms
proof (induction ps arbitrary: P)
  case Nil
  then show ?case by (auto intro: runs_return simp: loaded_def)
next
  case (Cons p ps)
  from Cons.prems have p: "json_in (checkpoints_dir \<delta> w) p" and ps: "\<forall>p\<in>set ps. json_in (checkpoints_dir \<delta> w) p" by auto
  show ?case
    unfolding load_checkpoints.simps
  proof (rule runs_bind [OF load_runs], rule runs_raise)
    fix cp
    note rest = Cons.IH [OF ps, of "\<lambda>f. P f \<and> f p = Some (Doc (JObj cp))"]
    show "runs W \<delta> (\<lambda>f. P f \<and> f p = Some (Doc (JObj cp)))
       (if get cp ''kind'' \<in> JStr ` set generated_kinds then load_checkpoints w ps
        else ibind (ilift (validate_checkpoint cp w)) (\<lambda>_. ibind (load_checkpoints w ps) (\<lambda>cps. ireturn ((p, cp) # cps))))
       (\<lambda>cps f. P f \<and> loaded \<delta> w cps f \<and> (\<forall>q c. q \<in> set (p # ps) \<longrightarrow> stored \<delta> w f q c \<longrightarrow> (q, c) \<in> set cps))"
    proof (cases "get cp ''kind'' \<in> JStr ` set generated_kinds")
      case True
      then show ?thesis by (simp, intro runs_post [OF rest]) (auto simp: stored_def generated_def)
    next
      case False
      then show ?thesis using p
        by (simp, intro runs_value runs_bind [OF rest] runs_return) (auto simp: stored_def generated_def loaded_Cons json_in_def)
    qed
  qed
qed

text \<open>Replaying applies every checkpoint, or stops.\<close>

lemma replay_runs:
  assumes "set cps \<subseteq> set all"
  shows "runs W \<delta> (\<lambda>f. describes \<delta> w desc f \<and> loaded \<delta> w all f \<and> covers \<delta> w all f) (replay \<delta> cps seen desc a n)
     (\<lambda>(desc', _) f. describes \<delta> w desc' f \<and> (loaded \<delta> w all f \<and> covers \<delta> w all f) \<and> (\<forall>(p, cp)\<in>set cps. count_le \<delta> desc' (sequence_of cp)) \<and>
        (\<forall>k. count_le \<delta> desc k \<longrightarrow> count_le \<delta> desc' k))"
  using assms
proof (induction cps arbitrary: desc seen a n)
  case Nil
  then show ?case by (auto intro: runs_return)
next
  case (Cons x cps)
  obtain p cp where x: "x = (p, cp)" by (cases x)
  let ?P = "\<lambda>f. loaded \<delta> w all f \<and> covers \<delta> w all f"
  from Cons.prems x have mem: "(p, cp) \<in> set all" and sub: "set cps \<subseteq> set all" by auto
  let ?A = "\<lambda>desc'. count_le \<delta> desc' (sequence_of cp) \<and> (\<forall>k. count_le \<delta> desc k \<longrightarrow> count_le \<delta> desc' k)"
  let ?Q = "\<lambda>(desc', _) f. describes \<delta> w desc' f \<and> ?P f \<and> (\<forall>(p, cp)\<in>set (x # cps). count_le \<delta> desc' (sequence_of cp)) \<and>
        (\<forall>k. count_le \<delta> desc k \<longrightarrow> count_le \<delta> desc' k)"
  have rest: "runs W \<delta> (\<lambda>f. describes \<delta> w desc' f \<and> ?P f \<and> ?A desc')
     (ibind (recover_event \<delta> p cp) (\<lambda>m. replay \<delta> cps s desc' b (n + m))) ?Q" for desc' s b
  proof (rule runs_fact [where A = "in_dir (checkpoints_dir \<delta> w) p \<and> ?A desc'"])
    show "in_dir (checkpoints_dir \<delta> w) p \<and> ?A desc'" if "describes \<delta> w desc' f \<and> ?P f \<and> ?A desc'" for f
      using that mem by (auto simp: loaded_def stored_def)
    assume a: "in_dir (checkpoints_dir \<delta> w) p \<and> ?A desc'"
    show "runs W \<delta> (\<lambda>f. describes \<delta> w desc' f \<and> ?P f \<and> ?A desc') (ibind (recover_event \<delta> p cp) (\<lambda>m. replay \<delta> cps s desc' b (n + m))) ?Q"
    proof (rule runs_bind)
      show "runs W \<delta> (\<lambda>f. describes \<delta> w desc' f \<and> ?P f \<and> ?A desc') (recover_event \<delta> p cp) (\<lambda>_ f. describes \<delta> w desc' f \<and> ?P f \<and> ?A desc')"
        by (rule runs_aside) (use a in \<open>auto intro!: recover_event_aside on_streams_intros\<close>)
      show "runs W \<delta> (\<lambda>f. describes \<delta> w desc' f \<and> ?P f \<and> ?A desc') (replay \<delta> cps s desc' b (n + m)) ?Q" for m
        by (rule runs_post [OF runs_pre [OF Cons.IH [OF sub]]]) (use a x in auto)
    qed
  qed
  show ?case
    unfolding x replay.simps
  proof (rule runs_raise, rule runs_fact [where A = "validate_checkpoint cp w = Inr ()"])
    assume "validate_checkpoint cp w = Inr ()"
    note run = apply_runs [OF valid_sequence(1) [OF this], where \<delta> = \<delta> and w = w and R = ?P and desc = desc and p = p and W = W]
    show "runs W \<delta> (\<lambda>f. describes \<delta> w desc f \<and> ?P f)
       (ibind (apply_checkpoint \<delta> desc cp) (\<lambda>(changed, desc'). ibind (recover_event \<delta> p cp) (\<lambda>m.
          replay \<delta> cps (sequence_of cp # seen) desc' (if changed then Suc a else a) (n + m)))) (\<lambda>(desc', _) f. describes \<delta> w desc' f \<and> ?P f \<and> (\<forall>(p, cp)\<in>set ((p, cp) # cps). count_le \<delta> desc' (sequence_of cp)) \<and>
        (\<forall>k. count_le \<delta> desc k \<longrightarrow> count_le \<delta> desc' k))"
    proof (rule runs_bind [OF runs_pre [OF run]], goal_cases)
      case 1
      show ?case by simp
    next
      case (3 y)
      show ?case by (cases y; simp only: split_conv; rule runs_pre [OF rest [unfolded x]]) auto
    qed (use mem in \<open>auto simp: loaded_def\<close>)
  qed (use mem in \<open>auto simp: loaded_def\<close>)
qed

lemma count_le_cong: "count_of \<delta> a = count_of \<delta> b \<Longrightarrow> count_le \<delta> a k = count_le \<delta> b k"
  by (simp add: count_le_def)

lemma migrate_runs:
  assumes "descriptor_free \<delta> w P"
  shows "runs W \<delta> (\<lambda>f. describes \<delta> w desc f \<and> P f) (migrate_continuation_state \<delta> desc cps)
     (\<lambda>desc' f. describes \<delta> w desc' f \<and> P f \<and> count_of \<delta> desc' = count_of \<delta> desc)"
  unfolding migrate_continuation_state_def
proof (rule runs_value, split if_split, intro conjI impI runs_value)
  fix v desc' assume v: "int_value \<delta> (get_or desc ''continuation_state_version'' (JInt 0)) = Inr v" "\<not> 1 \<le> v" and m: "migrated \<delta> desc cps = Inr desc'"
  have "runs W \<delta> (\<lambda>f. describes \<delta> w desc f \<and> P f) (save_descriptor \<delta> desc') (\<lambda>_ f. describes \<delta> w desc' f \<and> P f)"
  proof (rule save_runs)
    show "get desc' ''workstream_id'' = get desc ''workstream_id''"
      by (rule get_cong(1) [OF migrated_fields [OF m]]) (simp add: schedule_fields_def)
  qed (use v m assms in \<open>auto intro: change.migrated\<close>)
  then show "runs W \<delta> (\<lambda>f. describes \<delta> w desc f \<and> P f) (ibind (save_descriptor \<delta> desc') (\<lambda>_. ireturn desc'))
     (\<lambda>desc' f. describes \<delta> w desc' f \<and> P f \<and> count_of \<delta> desc' = count_of \<delta> desc)"
    by (rule runs_bind) (use get_cong(2) [OF migrated_fields [OF m], of "''checkpoint_count''"] in \<open>auto intro!: runs_return simp: count_of_def schedule_fields_def\<close>)
qed (auto intro: runs_return)

lemma path_value_runs:
  "(id_pattern w \<Longrightarrow> runs W \<delta> P (g (descriptor_path \<delta> w)) Q) \<Longrightarrow> runs W \<delta> P (ibind (ilift (checked_descriptor_path \<delta> w)) g) Q"
  by (auto simp: checked_descriptor_path_def validate_stream_id_def)

lemma describes_id: "describes \<delta> w desc f \<Longrightarrow> get desc ''workstream_id'' = JStr w"
  by (simp add: describes_def)

lemma expired_change:
  assumes "get desc ''status'' \<in> {JStr ''active'', JStr ''waiting_external''}" "wall_limit_reason \<delta> desc t = Inr (Some s)"
    and "get desc ''workstream_id'' = JStr w" "descriptor_free \<delta> w P"
    and d: "expired_as desc s stamp desc'"
  shows "runs W \<delta> (\<lambda>f. describes \<delta> w desc f \<and> P f) (atomic_json \<delta> (descriptor_path \<delta> w) (JObj desc')) (\<lambda>_ f. describes \<delta> w desc' f \<and> P f)"
    "count_of \<delta> desc' = count_of \<delta> desc"
proof -
  have same: "map_of desc' ''workstream_id'' = map_of desc ''workstream_id''" "map_of desc' ''checkpoint_count'' = map_of desc ''checkpoint_count''"
    using expired_fields(1) [OF d] by simp_all
  have "get desc' ''workstream_id'' = JStr w" using get_cong(1) [OF same(1)] assms(3) by simp
  then show "runs W \<delta> (\<lambda>f. describes \<delta> w desc f \<and> P f) (atomic_json \<delta> (descriptor_path \<delta> w) (JObj desc')) (\<lambda>_ f. describes \<delta> w desc' f \<and> P f)"
    by (intro describe_runs) (use assms in \<open>auto intro: change.expired\<close>)
  show "count_of \<delta> desc' = count_of \<delta> desc" using get_cong(2) [OF same(2)] by (simp add: count_of_def)
qed

lemma expire_runs:
  assumes "descriptor_free \<delta> w P"
  shows "runs W \<delta> (\<lambda>f. describes \<delta> w desc f \<and> P f) (expire \<delta> w desc t) (\<lambda>desc' f. describes \<delta> w desc' f \<and> P f \<and> count_of \<delta> desc' = count_of \<delta> desc)"
proof (rule runs_fact [where A = "get desc ''workstream_id'' = JStr w"])
  assume id: "get desc ''workstream_id'' = JStr w"
  have "runs W \<delta> (\<lambda>f. describes \<delta> w desc f \<and> P f)
     (ibind (atomic_json \<delta> (descriptor_path \<delta> w) (JObj (dict_pop ''waiting_on'' (expired_descriptor s (de_iso \<delta> t) desc))))
       (\<lambda>_. ireturn (dict_pop ''waiting_on'' (expired_descriptor s (de_iso \<delta> t) desc))))
     (\<lambda>desc' f. describes \<delta> w desc' f \<and> P f \<and> count_of \<delta> desc' = count_of \<delta> desc)"
    if "get desc ''status'' \<in> {JStr ''active'', JStr ''waiting_external''}" "wall_limit_reason \<delta> desc t = Inr (Some s)" for s
  proof -
    let ?d = "dict_pop ''waiting_on'' (expired_descriptor s (de_iso \<delta> t) desc)"
    have e: "expired_as desc s (de_iso \<delta> t) ?d" by (simp add: expired_as_def)
    show ?thesis
      by (rule runs_bind [OF expired_change(1) [OF that id assms e]]) (use expired_change(2) [OF that id assms e] in \<open>auto intro!: runs_return\<close>)
  qed
  then show "runs W \<delta> (\<lambda>f. describes \<delta> w desc f \<and> P f) (expire \<delta> w desc t) (\<lambda>desc' f. describes \<delta> w desc' f \<and> P f \<and> count_of \<delta> desc' = count_of \<delta> desc)"
    unfolding expire_def Let_def by (auto intro!: runs_return runs_value path_value_runs split: option.split)
qed (simp add: describes_def)

definition ready :: "disk_env \<Rightarrow> string \<Rightarrow> (path \<Rightarrow> content option) \<Rightarrow> bool" where
  "ready \<delta> w f \<longleftrightarrow> (\<exists>desc. describes \<delta> w desc f \<and> all_applied \<delta> w desc f)"

lemma reconcile_runs: "runs W \<delta> P (reconcile_locked \<delta> w t) (\<lambda>_. ready \<delta> w)"
  unfolding reconcile_locked_def Let_def checkpoints_dir_def [symmetric]
proof (rule runs_bind [OF load_workstream_runs])
  fix desc
  let ?D = "checkpoints_dir \<delta> w"
  let ?found = "\<lambda>ps f. set ps = {p. json_in ?D p \<and> f p \<noteq> None}"
  let ?rest = "\<lambda>loaded. ibind (replay \<delta> (sort_key (\<lambda>pc. sequence_of (snd pc)) loaded) [] desc 0 0) (\<lambda>(desc1, applied, recovered).
     ibind (migrate_continuation_state \<delta> desc1 (sort_key (\<lambda>pc. sequence_of (snd pc)) loaded)) (\<lambda>desc2.
     ibind (expire \<delta> w desc2 t) (\<lambda>desc3.
     ibind (ilift (subscript (JObj desc3) ''status'')) (\<lambda>status.
     ireturn \<lparr>rc_workstream = w, rc_applied = applied, rc_recovered = recovered, rc_status = status\<rparr>))))"
  have rest: "runs W \<delta> (\<lambda>f. describes \<delta> w desc f \<and> loaded \<delta> w cps f \<and> covers \<delta> w cps f) (?rest cps) (\<lambda>_. ready \<delta> w)" for cps
  proof (rule runs_bind [OF runs_pre [OF replay_runs [where all = cps]]])
    show "set (sort_key (\<lambda>pc. sequence_of (snd pc)) cps) \<subseteq> set cps" by simp
    fix y :: "fields \<times> nat \<times> nat"
    obtain desc1 a n where y: "y = (desc1, a, n)" by (cases y) auto
    let ?Q = "all_applied \<delta> w desc1"
    have all_applied: "all_applied \<delta> w desc1 f"
      if "covers \<delta> w cps f" "\<forall>(p, cp)\<in>set (sort_key (\<lambda>pc. sequence_of (snd pc)) cps). count_le \<delta> desc1 (sequence_of cp)" for f
      using that by (fastforce simp: all_applied_def covers_def)
    have tail: "runs W \<delta> (\<lambda>f. describes \<delta> w desc1 f \<and> all_applied \<delta> w desc1 f)
       (ibind (migrate_continuation_state \<delta> desc1 cps') (\<lambda>desc2. ibind (expire \<delta> w desc2 t) (\<lambda>desc3.
        ibind (ilift (subscript (JObj desc3) ''status'')) (\<lambda>status. ireturn (k status))))) (\<lambda>_. ready \<delta> w)" for cps' and k :: "json \<Rightarrow> reconciled"
    proof (rule runs_bind [OF migrate_runs])
      show "descriptor_free \<delta> w (all_applied \<delta> w desc1)" by simp
      fix desc2
      let ?S = "\<lambda>f. all_applied \<delta> w desc1 f \<and> count_of \<delta> desc2 = count_of \<delta> desc1"
      show "runs W \<delta> (\<lambda>f. describes \<delta> w desc2 f \<and> ?S f)
         (ibind (expire \<delta> w desc2 t) (\<lambda>desc3. ibind (ilift (subscript (JObj desc3) ''status'')) (\<lambda>status. ireturn (k status)))) (\<lambda>_. ready \<delta> w)"
      proof (rule runs_bind [OF expire_runs])
        show "descriptor_free \<delta> w ?S" by simp
        have ready: "ready \<delta> w f" if "describes \<delta> w d3 f" "all_applied \<delta> w desc1 f" "count_of \<delta> d3 = count_of \<delta> desc1" for d3 f
          using that count_le_cong [OF that(3)] by (auto simp: ready_def all_applied_def)
        show "runs W \<delta> (\<lambda>f. describes \<delta> w d3 f \<and> ?S f \<and> count_of \<delta> d3 = count_of \<delta> desc2)
           (ibind (ilift (subscript (JObj d3) ''status'')) (\<lambda>status. ireturn (k status))) (\<lambda>_. ready \<delta> w)" for d3
          by (intro runs_value runs_return) (auto intro: ready)
      qed
    qed
    show "runs W \<delta> (case y of (desc', _) \<Rightarrow> (\<lambda>f. describes \<delta> w desc' f \<and> (loaded \<delta> w cps f \<and> covers \<delta> w cps f) \<and>
        (\<forall>(p, cp)\<in>set (sort_key (\<lambda>pc. sequence_of (snd pc)) cps). count_le \<delta> desc' (sequence_of cp)) \<and> (\<forall>k. count_le \<delta> desc k \<longrightarrow> count_le \<delta> desc' k)))
       (case y of (desc1, applied, recovered) \<Rightarrow> ibind (migrate_continuation_state \<delta> desc1 (sort_key (\<lambda>pc. sequence_of (snd pc)) cps)) (\<lambda>desc2.
        ibind (expire \<delta> w desc2 t) (\<lambda>desc3. ibind (ilift (subscript (JObj desc3) ''status'')) (\<lambda>status.
        ireturn \<lparr>rc_workstream = w, rc_applied = applied, rc_recovered = recovered, rc_status = status\<rparr>)))) (\<lambda>_. ready \<delta> w)"
      unfolding y split_conv by (rule runs_pre [OF tail]) (use all_applied in blast)
  qed auto
  show "runs W \<delta> (\<lambda>f. P f \<and> describes \<delta> w desc f) (ibind (iask (checkpoint_files ?D)) (\<lambda>ps. ibind (load_checkpoints w ps) ?rest)) (\<lambda>_. ready \<delta> w)"
  proof (rule runs_bind [OF runs_ask [where Q = "\<lambda>ps f. describes \<delta> w desc f \<and> ?found ps f"]])
    show "describes \<delta> w desc (files_of d) \<and> ?found (checkpoint_files ?D d) (files_of d)" if "P (files_of d) \<and> describes \<delta> w desc (files_of d)" for d
      using that by (auto simp: checkpoint_files_set json_in_def files_of_def)
    fix ps
    show "runs W \<delta> (\<lambda>f. describes \<delta> w desc f \<and> ?found ps f) (ibind (load_checkpoints w ps) ?rest) (\<lambda>_. ready \<delta> w)"
    proof (rule runs_fact [where A = "\<forall>p\<in>set ps. json_in ?D p"])
      assume ps: "\<forall>p\<in>set ps. json_in ?D p"
      show ?thesis
        by (rule runs_bind [OF load_checkpoints_runs [OF ps]], rule runs_pre [OF rest])
          (auto simp: covers_def stored_def json_in_def)
    qed auto
  qed
qed

section \<open>Operations\<close>

context io_relation
begin

lemma caught: "ioframe Q m \<Longrightarrow> (\<And>e. ioframe Q (k e)) \<Longrightarrow> ioframe Q (on_error h m k)"
  unfolding ioframe_def on_error_eq by (blast intro: trans)

end

lemma claim_steps:
  assumes "descriptor_typed w desc" "get desc ''status'' = JStr ''active''" "map_of desc ''checkpoint_count'' = Some (JInt 0)"
    "map_of desc ''continuation_count'' = Some (JInt 0)"
  shows "runs W \<delta> P (claim_json \<delta> (descriptor_path \<delta> w) (JObj desc)) (\<lambda>_ _. True)"
  unfolding runs_def
proof (intro allI impI)
  fix d r d' assume run: "claim_json \<delta> (descriptor_path \<delta> w) (JObj desc) d = (r, d')"
  let ?p = "descriptor_path \<delta> w"
  note keep = candidates_keep_files [unfolded ioframe_def files_kept_def, rule_format]
  have "dk_files d' = dk_files d \<or> (content_at ?p d = None \<and> (dk_files d' = AList.update ?p (Raw []) (dk_files d) \<or>
      dk_files d' = AList.update ?p (Doc (JObj desc)) (AList.update ?p (Raw []) (dk_files d))))"
  proof (cases "is_file ?p d")
    case False
    with run show ?thesis unfolding claim_json_def by (auto simp: io_simps put_file_def is_file_def dest!: keep)
  qed (use run in \<open>auto simp: claim_json_def io_simps\<close>)
  then have "files_of d' = files_of d \<or> (files_of d ?p = None \<and> (files_of d' = (files_of d)(?p \<mapsto> Raw []) \<or>
      files_of d' = (files_of d)(?p \<mapsto> Raw [], ?p \<mapsto> Doc (JObj desc))))"
    by (elim disjE conjE) (simp_all add: files_of_def content_at_def fun_eq_iff)
  moreover have "(stream_step W \<delta>)\<^sup>*\<^sup>* (files_of d) ((files_of d)(?p \<mapsto> Raw []))" if "files_of d ?p = None"
    using stream_step.created [of "files_of d" \<delta> w] that by blast
  moreover have "stream_step W \<delta> ((files_of d)(?p \<mapsto> Raw [])) ((files_of d)(?p \<mapsto> Raw [], ?p \<mapsto> Doc (JObj desc)))"
    by (rule stream_step.started) (use assms in auto)
  ultimately have "stream_steps W \<delta> d d'" unfolding stream_steps_def by (metis rtranclp.rtrancl_into_rtrancl rtranclp.rtrancl_refl)
  then show "stream_steps W \<delta> d d' \<and> (\<forall>x. r = Inr x \<longrightarrow> True)" by simp
qed

lemma clock_runs: "runs W \<delta> P (disk_now \<delta>) (\<lambda>_. P)" "runs W \<delta> P (utc_now \<delta>) (\<lambda>_. P)" "runs W \<delta> P (clock_or \<delta> now) (\<lambda>_. P)"
proof -
  have "ioframe files_kept (disk_now \<delta>)" "ioframe files_kept (utc_now \<delta>)"
    by (auto intro!: quiet_disk.frame_intros quiet_reads)
  then show "runs W \<delta> P (disk_now \<delta>) (\<lambda>_. P)" "runs W \<delta> P (utc_now \<delta>) (\<lambda>_. P)" by (auto intro: runs_quiet)
  then show "runs W \<delta> P (clock_or \<delta> now) (\<lambda>_. P)" by (cases now) (auto simp: clock_or_def intro: runs_return)
qed

lemma start_runs: "runs W \<delta> P (start_workstream \<delta> w goal delay maxc maxw bound) (\<lambda>_ _. True)"
  unfolding start_workstream_def Let_def
proof (intro runs_raise runs_value runs_bind [OF clock_runs(2)])
  fix w' g u1 u2 t b t' target
  assume w: "validate_stream_id w = Inr w'" and limits: "optional_limit maxc = Inr u1" "optional_limit maxw = Inr u2"
  let ?desc = "[(''schema_version'', JInt 1), (''kind'', JStr ''ORCHESTRATOR_WORKSTREAM''), (''workstream_id'', JStr w'),
         (''project_id'', JStr (de_project \<delta>)), (''goal'', JStr g), (''status'', JStr ''active''), (''checkpoint_count'', JInt 0),
         (''continuation_count'', JInt 0), (''continuation_state_version'', JInt 1), (''max_continuations'', maxc),
         (''delay_seconds'', JReal (round_thousandth delay)), (''max_wall_seconds'', maxw), (''created_at'', JStr t), (''updated_at'', JStr t),
         (''wake_target'', JObj target)]"
  show "runs W \<delta> P (ibind (claim_json \<delta> (descriptor_path \<delta> w') (JObj ?desc)) (\<lambda>claimed.
       ibind (ilift (raise_if (\<not> claimed) (WorkstreamError ''workstream already exists''))) (\<lambda>_. ireturn ?desc))) (\<lambda>_ _. True)"
    by (rule runs_bind [OF claim_steps])
      (use limits in \<open>auto simp: descriptor_typed_def validate_workstream_iff is_supported_schema_version_def policy_fields_def stream_statuses_def
        intro!: runs_raise runs_return\<close>)
qed

lemma efold_unit: "efold (\<lambda>x _. g x) xs () = Inr () \<longleftrightarrow> list_all (\<lambda>x. g x = Inr ()) xs"
  by (induction xs) (auto simp: ebind_Inr_iff)

lemma policy_runs: "May_Edit w \<in> W \<Longrightarrow> runs W \<delta> P (set_workstream_policy \<delta> w limits reason expected) (\<lambda>_ _. True)"
  unfolding set_workstream_policy_def Let_def
proof (intro runs_raise runs_value runs_bind [OF load_workstream_runs])
  fix u1 :: unit and reason' desc previous
  assume w: "May_Edit w \<in> W" and keys: "\<not> (limits = [] \<or> list_ex (\<lambda>kv. fst kv \<notin> set policy_fields) limits)"
    and ok: "efold (\<lambda>kv _. optional_limit (snd kv)) limits () = Inr u1"
  from ok have "list_all (\<lambda>kv. optional_limit (snd kv) = Inr ()) limits" using efold_unit [of "\<lambda>kv. optional_limit (snd kv)" limits] by simp
  with keys have keys: "list_all (\<lambda>kv. fst kv \<in> set policy_fields \<and> optional_limit (snd kv) = Inr ()) limits" by (auto simp: list_ex_iff list_all_iff)
  let ?after = "merged previous limits"
  have update: "runs W \<delta> (\<lambda>f. P f \<and> describes \<delta> w desc f)
     (ibind (atomic_json \<delta> (descriptor_path \<delta> w) (JObj desc')) (\<lambda>_. ibind (ilift (subscript (JObj desc') ''status'')) (\<lambda>status.
       ireturn (Updated w status n ?after)))) (\<lambda>_ _. True)"
    if up: "policy_update desc limits reason' (get_or desc ''policy_revision'' (JInt 0)) stamp = Inr (n, desc')" for n desc' stamp
  proof (rule runs_fact [where A = "get desc ''workstream_id'' = JStr w"])
    assume "get desc ''workstream_id'' = JStr w"
    then have id: "get desc' ''workstream_id'' = JStr w" using get_cong(1) [OF policy_fields_kept(1) [OF up keys], of "''workstream_id''"] by (simp add: policy_fields_def)
    have "runs W \<delta> (\<lambda>f. describes \<delta> w desc f \<and> True) (atomic_json \<delta> (descriptor_path \<delta> w) (JObj desc')) (\<lambda>_ f. describes \<delta> w desc' f \<and> True)"
      by (rule describe_runs) (use w keys up id in \<open>auto intro: change.policy\<close>)
    then show ?thesis by (rule runs_bind [OF runs_pre]) (auto intro!: runs_value runs_return)
  qed (simp add: describes_def)
  show "runs W \<delta> (\<lambda>f. P f \<and> describes \<delta> w desc f)
     (if json_eq (JObj previous) (JObj ?after) then ireturn (Unchanged (get_or desc ''policy_revision'' (JInt 0)) ?after)
      else ibind (utc_now \<delta>) (\<lambda>stamp. ibind (ilift (policy_update desc limits reason' (get_or desc ''policy_revision'' (JInt 0)) stamp)) (\<lambda>(n, desc').
        ibind (ilift (checked_descriptor_path \<delta> w)) (\<lambda>p. ibind (atomic_json \<delta> p (JObj desc')) (\<lambda>_. ibind (ilift (subscript (JObj desc') ''status'')) (\<lambda>status.
        ireturn (Updated w status n ?after))))))) (\<lambda>_ _. True)"
    by (auto intro!: runs_return runs_bind [OF clock_runs(2)] runs_value path_value_runs update simp del: subscript.simps split: prod.split)
qed

text \<open>A descriptor without an authorised continuation, and no migration to come.\<close>

definition revoked :: "fields \<Rightarrow> bool" where
  "revoked desc \<longleftrightarrow> get desc ''active_continuation'' = JNull \<and> get_or desc ''continuation_state_version'' (JInt 0) = JInt 1"

definition idle :: "disk_env \<Rightarrow> string \<Rightarrow> (path \<Rightarrow> content option) \<Rightarrow> bool" where
  "idle \<delta> w f \<longleftrightarrow> (\<exists>desc. describes \<delta> w desc f \<and> revoked desc \<and> all_applied \<delta> w desc f)"

lemma resume_runs: "runs W \<delta> P (resume_workstream \<delta> w) (\<lambda>_. idle \<delta> w)"
  unfolding resume_workstream_def Let_def
proof (intro path_value_runs runs_raise runs_value runs_bind [OF clock_runs(1)] runs_bind [OF reconcile_runs] runs_bind [OF load_workstream_runs]
    runs_bind [OF clock_runs(2)])
  fix w' now u desc stamp
  assume w': "validate_stream_id w = Inr w'" and status: "get desc ''status'' \<noteq> JStr ''complete''" "get desc ''status'' \<noteq> JStr ''active''"
  let ?desc = "resumed_descriptor desc stamp"
  have same: "w' = w" using w' by (simp add: validate_stream_id_def split: if_splits)
  have count: "count_of \<delta> ?desc = count_of \<delta> desc" by (simp add: count_of_def resumed_descriptor_def)
  then have all_applied: "all_applied \<delta> w' ?desc f = all_applied \<delta> w' desc f" for f by (simp add: all_applied_def count_le_def)
  have revoked: "revoked ?desc" by (simp add: revoked_def resumed_descriptor_def)
  show "runs W \<delta> (\<lambda>f. ready \<delta> w' f \<and> describes \<delta> w' desc f) (ibind (atomic_json \<delta> (descriptor_path \<delta> w') (JObj ?desc))
     (\<lambda>_. ireturn (dict_put ''workstream_path'' (JStr (path_str (descriptor_path \<delta> w'))) ?desc))) (\<lambda>_. idle \<delta> w)"
  proof (rule runs_fact [where A = "get desc ''workstream_id'' = JStr w'"])
    assume id: "get desc ''workstream_id'' = JStr w'"
    have "runs W \<delta> (\<lambda>f. describes \<delta> w' desc f \<and> all_applied \<delta> w' desc f) (atomic_json \<delta> (descriptor_path \<delta> w') (JObj ?desc))
       (\<lambda>_ f. describes \<delta> w' ?desc f \<and> all_applied \<delta> w' desc f)"
    proof (rule describe_runs)
      show "change W \<delta> w' f desc ?desc" for f by (rule change.resumed) (use status in auto)
      show "get ?desc ''workstream_id'' = JStr w'" using id by (simp add: resumed_descriptor_def)
    qed simp
    then show ?thesis
    proof (rule runs_bind [OF runs_pre])
      show "describes \<delta> w' desc f \<and> all_applied \<delta> w' desc f" if "ready \<delta> w' f \<and> describes \<delta> w' desc f" for f
        using that by (auto simp: ready_def describes_def)
      show "runs W \<delta> (\<lambda>f. describes \<delta> w' ?desc f \<and> all_applied \<delta> w' desc f)
         (ireturn (dict_put ''workstream_path'' (JStr (path_str (descriptor_path \<delta> w'))) ?desc)) (\<lambda>_. idle \<delta> w)"
        by (rule runs_return) (use all_applied revoked same in \<open>unfold idle_def, blast\<close>)
    qed
  qed (simp add: describes_def)
qed

lemma checkpoint_in_dir: "json_in (checkpoints_dir \<delta> w) (checkpoint_path \<delta> w c)"
  by (simp add: json_in_def in_dir_def checkpoint_path_def checkpoints_dir_def json_file_def butlast_append)

lemma ensure_event_runs:
  assumes "in_dir (checkpoints_dir \<delta> w) p"
  shows "runs W \<delta> P (ensure_checkpoint_event \<delta> cp p) (\<lambda>_ _. True)"
  by (rule runs_pre [OF runs_aside [OF ensure_event_aside [OF assms]]]) (auto intro: on_streams_intros)

lemma repeat_runs:
  assumes p: "p = checkpoint_path \<delta> (rq_workstream q) c"
  shows "runs W \<delta> P (repeat_checkpoint \<delta> pf q p) (\<lambda>_ _. True)"
  unfolding repeat_checkpoint_def Let_def
proof (rule runs_bind [OF load_runs], intro runs_raise runs_value runs_bind [OF load_workstream_runs])
  fix ex u desc
  let ?w = "rq_workstream q"
  let ?k = "\<lambda>_. ibind (iask (\<lambda>d. case get ex ''signal_path'' of JStr s \<Rightarrow> \<not> is_file (resolve [] s) d | _ \<Rightarrow> False)) (\<lambda>missing.
     if get ex ''decision'' = JStr ''continue'' \<and> missing then
       ibind (ilift (ebind (subscript (JObj ex) ''operation_id'') (\<lambda>oid.
         preflight_step (pf (str_value \<delta> oid) (optional_dict (get ex ''wake_target'')))))) (\<lambda>report.
       ibind (ensure_checkpoint_event \<delta> ex p) (\<lambda>ev.
       ilift (attach_report (dict_put ''recovered_signal'' (JBool True)
         (dict_put ''followup'' (case ev of None \<Rightarrow> JNull | Some e \<Rightarrow> JObj e)
           (dict_put ''idempotent'' (JBool True) (dict_put ''checkpoint_path'' (JStr (path_str p)) ex)))) report)))
     else ireturn (dict_put ''idempotent'' (JBool True) (dict_put ''checkpoint_path'' (JStr (path_str p)) ex)))"
  assume "validate_checkpoint ex ?w = Inr u"
  then have valid: "validate_checkpoint ex ?w = Inr ()" by simp
  then have kind: "\<not> generated ex" by (auto simp: generated_def generated_kinds_def validate_checkpoint_def Let_def err_simps)
  have dir: "json_in (checkpoints_dir \<delta> ?w) p" unfolding p by (rule checkpoint_in_dir)
  have "runs W \<delta> Q (?k y) (\<lambda>_ _. True)" for Q y
    using dir by (intro runs_bind [OF runs_ask [where Q = "\<lambda>_ _. True"]])
      (auto intro!: runs_return runs_value runs_bind [OF ensure_event_runs] runs_lift simp: json_in_def simp del: subscript.simps)
  then show "runs W \<delta> (\<lambda>f. (P f \<and> f p = Some (Doc (JObj ex))) \<and> describes \<delta> ?w desc f) (ibind (apply_checkpoint \<delta> desc ex) ?k) (\<lambda>_ _. True)"
    by (intro runs_bind [OF runs_pre [OF apply_runs [OF valid_sequence(1) [OF valid], where R = "\<lambda>_. True" and p = p and w = ?w]]])
      (use dir kind in \<open>auto simp: stored_def json_in_def\<close>)
qed

lemma new_checkpoint_fields:
  assumes "new_checkpoint \<delta> q desc reason now n = Inr cp"
  shows "get cp ''kind'' = JStr ''ORCHESTRATOR_WORKSTREAM_CHECKPOINT''" "get cp ''workstream_id'' = JStr (rq_workstream q)"
    "get cp ''checkpoint_id'' = JStr (rq_checkpoint q)" "subscript (JObj cp) ''sequence'' = Inr (JInt n)" "sequence_of cp = n"
    "get cp ''decision'' = JStr (if reason = None then rq_decision q else ''needs_user'')"
    "checkpoint_shape (rq_workstream q) cp \<longleftrightarrow> rq_decision q \<in> set workstream_decisions \<or> reason \<noteq> None"
proof -
  from assms obtain tail where cp: "cp = [(''schema_version'', JInt 1), (''kind'', JStr ''ORCHESTRATOR_WORKSTREAM_CHECKPOINT''), (''workstream_id'', JStr (rq_workstream q)),
            (''checkpoint_id'', JStr (rq_checkpoint q)), (''sequence'', JInt n), (''decision'', JStr (if reason = None then rq_decision q else ''needs_user'')),
            (''requested_decision'', JStr (rq_decision q)), (''summary'', JStr (rq_summary q)), (''created_at'', JStr (de_iso \<delta> now))] @ tail"
    unfolding new_checkpoint_def Let_def by (fastforce simp: ebind_Inr_iff split: if_splits)
  show seq: "sequence_of cp = n" by (simp add: cp sequence_of_def)
  show "get cp ''kind'' = JStr ''ORCHESTRATOR_WORKSTREAM_CHECKPOINT''" "get cp ''workstream_id'' = JStr (rq_workstream q)"
    "get cp ''checkpoint_id'' = JStr (rq_checkpoint q)" "subscript (JObj cp) ''sequence'' = Inr (JInt n)"
    "get cp ''decision'' = JStr (if reason = None then rq_decision q else ''needs_user'')"
    by (simp_all add: cp)
  show "checkpoint_shape (rq_workstream q) cp \<longleftrightarrow> rq_decision q \<in> set workstream_decisions \<or> reason \<noteq> None"
    unfolding checkpoint_shape_def seq by (auto simp: cp workstream_decisions_def)
qed

lemma store_runs:
  assumes W: "May_Record (rq_workstream q) \<in> W" and decision: "rq_decision q \<in> set workstream_decisions" and new: "new_checkpoint \<delta> q desc reason now (n + 1) = Inr cp" and p: "p = checkpoint_path \<delta> (rq_workstream q) c"
    and count: "count_of \<delta> desc = Inr n" and status: "get desc ''status'' \<noteq> JStr ''complete''"
    "rq_decision q = ''continue'' \<longrightarrow> get desc ''status'' = JStr ''active''"
    and limit: "(if rq_decision q \<in> set automatic_decisions then limit_reason \<delta> desc now else Inr None) = Inr reason"
  shows "runs W \<delta> (\<lambda>f. describes \<delta> (rq_workstream q) desc f \<and> all_applied \<delta> (rq_workstream q) desc f \<and> f p = None)
     (store_checkpoint \<delta> pf q p desc cp) (\<lambda>_ _. True)"
  unfolding store_checkpoint_def Let_def
proof (rule runs_value)
  fix report
  let ?w = "rq_workstream q"
  note fields = new_checkpoint_fields [OF new]
  have dir: "json_in (checkpoints_dir \<delta> ?w) p" unfolding p by (rule checkpoint_in_dir)
  have ok: "recordable \<delta> ?w f desc cp" if "all_applied \<delta> ?w desc f" for f
  proof -
    have older: "\<forall>p cp'. stored \<delta> ?w f p cp' \<longrightarrow> sequence_of cp' < sequence_of cp"
      using \<open>all_applied \<delta> ?w desc f\<close> count fields(5) by (fastforce simp: all_applied_def count_le_def)
    have "get cp ''decision'' \<in> JStr ` set automatic_decisions \<longrightarrow> limit_reason \<delta> desc now = Inr None"
      using limit fields(6) by (auto simp: automatic_decisions_def split: if_splits)
    moreover have "get cp ''decision'' = JStr ''continue'' \<longrightarrow> get desc ''status'' = JStr ''active''"
      using status(2) fields(6) by (simp split: if_splits)
    ultimately show ?thesis
      unfolding recordable_def using older fields(5,7) decision count status(1) by auto
  qed
  have storing: "runs W \<delta> (\<lambda>f. describes \<delta> ?w desc f \<and> all_applied \<delta> ?w desc f \<and> f p = None) (atomic_json \<delta> p (JObj cp))
     (\<lambda>_ f. describes \<delta> ?w desc f \<and> stored \<delta> ?w f p cp \<and> True)"
  proof (rule runs_write)
    fix f assume f: "describes \<delta> ?w desc f \<and> all_applied \<delta> ?w desc f \<and> f p = None"
    from f ok show "stream_step W \<delta> f (f(p \<mapsto> Doc (JObj cp)))" unfolding p describes_def by (blast intro: stream_step.recorded [OF W])
    have "descriptor_path \<delta> ?w \<noteq> p" using dir dir_not_descriptor by (metis json_in_def)
    with f dir fields(1) show "describes \<delta> ?w desc (f(p \<mapsto> Doc (JObj cp))) \<and> stored \<delta> ?w (f(p \<mapsto> Doc (JObj cp))) p cp \<and> True"
      by (simp add: describes_def stored_def json_in_def generated_def generated_kinds_def)
  qed
  have seq: "ebind (subscript (JObj cp) ''sequence'') (int_value \<delta>) = Inr (sequence_of cp)"
    unfolding fields(4,5) by (simp add: int_value_def)
  note app = apply_runs [OF seq, where w = ?w and R = "\<lambda>_. True" and desc = desc and p = p and W = W]
  have tail: "runs W \<delta> P (ibind (if emits cp then ensure_checkpoint_event \<delta> cp p else ireturn None) (\<lambda>ev. case ev of
       None \<Rightarrow> ireturn (dict_put ''idempotent'' (JBool False) (dict_put ''checkpoint_path'' (JStr (path_str p)) cp))
     | Some e \<Rightarrow> ilift (attach_report (dict_put ''followup'' (JObj e) (dict_put ''idempotent'' (JBool False) (dict_put ''checkpoint_path'' (JStr (path_str p)) cp)))
         (case report of None \<Rightarrow> [] | Some r \<Rightarrow> r)))) (\<lambda>_ _. True)" for P
    by (rule runs_bind [where Q = "\<lambda>_ _. True"])
      (use dir in \<open>auto intro!: ensure_event_runs runs_return runs_lift split: option.split simp: json_in_def\<close>)
  show "runs W \<delta> (\<lambda>f. describes \<delta> ?w desc f \<and> all_applied \<delta> ?w desc f \<and> f p = None)
     (ibind (atomic_json \<delta> p (JObj cp)) (\<lambda>_. ibind (apply_checkpoint \<delta> desc cp) (\<lambda>_.
      ibind (if emits cp then ensure_checkpoint_event \<delta> cp p else ireturn None) (\<lambda>ev. case ev of
       None \<Rightarrow> ireturn (dict_put ''idempotent'' (JBool False) (dict_put ''checkpoint_path'' (JStr (path_str p)) cp))
     | Some e \<Rightarrow> ilift (attach_report (dict_put ''followup'' (JObj e) (dict_put ''idempotent'' (JBool False) (dict_put ''checkpoint_path'' (JStr (path_str p)) cp)))
         (case report of None \<Rightarrow> [] | Some r \<Rightarrow> r)))))) (\<lambda>_ _. True)"
    by (rule runs_bind [OF storing], rule runs_bind [OF app tail]) simp
qed

lemma add_runs:
  assumes W: "May_Record (rq_workstream q) \<in> W" and decision: "rq_decision q \<in> set workstream_decisions" and p: "p = checkpoint_path \<delta> (rq_workstream q) c"
  shows "runs W \<delta> (\<lambda>f. ready \<delta> (rq_workstream q) f \<and> f p = None) (add_checkpoint \<delta> pf q p) (\<lambda>_ _. True)"
  unfolding add_checkpoint_def
proof (rule runs_bind [OF load_workstream_runs], intro runs_raise runs_bind [OF clock_runs(1)] runs_value)
  fix desc now reason count cp
  let ?w = "rq_workstream q"
  assume a: "get desc ''status'' \<noteq> JStr ''complete''" "\<not> (rq_decision q = ''continue'' \<and> get desc ''status'' \<noteq> JStr ''active'')"
    "(if rq_decision q \<in> set automatic_decisions then limit_reason \<delta> desc now else Inr None) = Inr reason"
    "int_value \<delta> (get_or desc ''checkpoint_count'' (JInt 0)) = Inr count" "new_checkpoint \<delta> q desc reason now (count + 1) = Inr cp"
  show "runs W \<delta> (\<lambda>f. (ready \<delta> ?w f \<and> f p = None) \<and> describes \<delta> ?w desc f) (store_checkpoint \<delta> pf q p desc cp) (\<lambda>_ _. True)"
    by (rule runs_pre [OF store_runs [OF W decision a(5) p _ a(1) _ a(3)]]) (use a(2,4) in \<open>auto simp: count_of_def ready_def describes_def\<close>)
qed

lemma check_request_same: "check_request q = Inr q' \<Longrightarrow> rq_decision q' \<in> set workstream_decisions \<and> rq_workstream q' = rq_workstream q"
  by (auto simp: check_request_def ebind_Inr_iff)

lemma checkpoint_runs:
  assumes may: "May_Record (rq_workstream request) \<in> W"
  shows "runs W \<delta> P (checkpoint_workstream \<delta> pf request) (\<lambda>_ _. True)"
  unfolding checkpoint_workstream_def
proof (intro runs_value runs_bind [OF clock_runs(1)] runs_bind [OF reconcile_runs])
  fix q :: checkpoint_request and p t u
  assume "check_request request = Inr q"
  then have decision: "rq_decision q \<in> set workstream_decisions" and W: "May_Record (rq_workstream q) \<in> W"
    using check_request_same may by auto
  assume "checked_checkpoint_path \<delta> (rq_workstream q) (rq_checkpoint q) = Inr p"
  then have p: "p = checkpoint_path \<delta> (rq_workstream q) (rq_checkpoint q)"
    by (auto simp: checked_checkpoint_path_def validate_stream_id_def split: if_splits)
  show "runs W \<delta> (ready \<delta> (rq_workstream q)) (ibind (iask (is_file p)) (\<lambda>exists. if exists then repeat_checkpoint \<delta> pf q p else add_checkpoint \<delta> pf q p)) (\<lambda>_ _. True)"
  proof (rule runs_bind [OF runs_ask [where Q = "\<lambda>exists f. ready \<delta> (rq_workstream q) f \<and> (\<not> exists \<longrightarrow> f p = None)"]])
    show "runs W \<delta> (\<lambda>f. ready \<delta> (rq_workstream q) f \<and> (\<not> exists \<longrightarrow> f p = None)) (if exists then repeat_checkpoint \<delta> pf q p else add_checkpoint \<delta> pf q p) (\<lambda>_ _. True)"
      for exists by (auto intro: repeat_runs [OF p] add_runs [OF W decision p])
  qed (simp add: is_file_def files_of_def)
qed

lemma signal_identity_runs: "runs W \<delta> P (signal_identity \<delta> signal) (\<lambda>_ _. True)"
  unfolding signal_identity_def
  by (auto split: option.split intro!: runs_return runs_on_error runs_bind [OF load_runs] runs_value simp del: subscript.simps)

text \<open>A delivered continuation is the authorised one.\<close>

definition authorised_continuation :: "disk_env \<Rightarrow> fields \<Rightarrow> string \<Rightarrow> string \<Rightarrow> (path \<Rightarrow> content option) \<Rightarrow> bool" where
  "authorised_continuation \<delta> signal w c f \<longleftrightarrow> (\<exists>desc cp. describes \<delta> w desc f \<and> get desc ''status'' = JStr ''active'' \<and>
     json_eq (expected_event desc) (get signal ''event_id'') \<and> (\<exists>t. wall_limit_reason \<delta> desc t = Inr None) \<and>
     f (checkpoint_path \<delta> w c) = Some (Doc (JObj cp)) \<and> validate_checkpoint cp w = Inr () \<and> get cp ''decision'' = JStr ''continue'' \<and>
     json_eq (get cp ''event_id'') (get signal ''event_id''))"

definition guarded :: "disk_env \<Rightarrow> string \<Rightarrow> string \<Rightarrow> fields \<times> fields \<Rightarrow> (path \<Rightarrow> content option) \<Rightarrow> bool" where
  "guarded \<delta> w c s f \<longleftrightarrow> describes \<delta> w (fst s) f \<and> f (checkpoint_path \<delta> w c) = Some (Doc (JObj (snd s))) \<and> validate_checkpoint (snd s) w = Inr ()"

lemma guarded_state_runs: "runs W \<delta> P (guarded_state \<delta> w c now) (\<lambda>s f. case s of None \<Rightarrow> True | Some x \<Rightarrow> guarded \<delta> w c x f)"
  unfolding guarded_state_def
proof (intro runs_on_error runs_bind [OF clock_runs(3)] runs_bind [OF reconcile_runs] runs_bind [OF load_workstream_runs] runs_value
      runs_bind [OF load_runs])
  fix t u desc p cp v
  assume "checked_checkpoint_path \<delta> w c = Inr p" "validate_checkpoint cp w = Inr v"
  then show "runs W \<delta> (\<lambda>f. (ready \<delta> w f \<and> describes \<delta> w desc f) \<and> f p = Some (Doc (JObj cp))) (ireturn (Some (desc, cp)))
     (\<lambda>s f. case s of None \<Rightarrow> True | Some x \<Rightarrow> guarded \<delta> w c x f)"
    by (auto simp: checked_checkpoint_path_def validate_stream_id_def guarded_def intro!: runs_return split: if_splits)
qed (auto intro: runs_return)

lemma judge_runs:
  "runs W \<delta> (guarded \<delta> w c (desc, cp)) (judge \<delta> signal w c now desc cp) (\<lambda>v f. \<forall>i. v = Deliver i \<longrightarrow> i = Some (w, c) \<and> authorised_continuation \<delta> signal w c f)"
proof (rule runs_fact [where A = "get desc ''workstream_id'' = JStr w"])
  assume id: "get desc ''workstream_id'' = JStr w"
  let ?Q = "\<lambda>v f. \<forall>i. v = Deliver i \<longrightarrow> i = Some (w, c) \<and> authorised_continuation \<delta> signal w c f"
  have expiry: "runs W \<delta> (guarded \<delta> w c (desc, cp)) (ibind (atomic_json \<delta> (descriptor_path \<delta> w) (JObj (expired_descriptor s stamp desc)))
     (\<lambda>_. ireturn (Withhold ''workstream_expired''))) ?Q"
    if "get desc ''status'' = JStr ''active''" "wall_limit_reason \<delta> desc t = Inr (Some s)" for s stamp t
  proof -
    have "runs W \<delta> (\<lambda>f. describes \<delta> w desc f \<and> True) (atomic_json \<delta> (descriptor_path \<delta> w) (JObj (expired_descriptor s stamp desc)))
       (\<lambda>_ f. describes \<delta> w (expired_descriptor s stamp desc) f \<and> True)"
      by (rule expired_change(1) [OF _ that(2) id, where stamp = stamp]) (use that in \<open>auto simp: expired_as_def\<close>)
    then show ?thesis by (rule runs_bind [OF runs_pre]) (auto intro: runs_return simp: guarded_def)
  qed
  have deliver: "runs W \<delta> (guarded \<delta> w c (desc, cp)) (ireturn (Deliver (Some (w, c)))) ?Q"
    if "get desc ''status'' = JStr ''active''" "wall_limit_reason \<delta> desc t = Inr None" "get cp ''decision'' = JStr ''continue''"
      "json_eq (get cp ''event_id'') (get signal ''event_id'')" "json_eq (expected_event desc) (get signal ''event_id'')" for t
    by (rule runs_return) (use that in \<open>auto simp: guarded_def authorised_continuation_def\<close>)
  have withhold: "runs W \<delta> (guarded \<delta> w c (desc, cp)) (ireturn (Withhold s)) ?Q" for s by (rule runs_return) simp
  show "runs W \<delta> (guarded \<delta> w c (desc, cp)) (judge \<delta> signal w c now desc cp) ?Q"
  proof (cases "get desc ''status'' = JStr ''active''")
    case True
    have verdict: "runs W \<delta> (guarded \<delta> w c (desc, cp)) (case reason of
          Some s \<Rightarrow> ibind (utc_now \<delta>) (\<lambda>stamp. ibind (ilift (checked_descriptor_path \<delta> w)) (\<lambda>p.
            ibind (atomic_json \<delta> p (JObj (expired_descriptor s stamp desc))) (\<lambda>_. ireturn (Withhold ''workstream_expired''))))
        | None \<Rightarrow> if get cp ''decision'' \<noteq> JStr ''continue'' \<or> \<not> json_eq (get cp ''event_id'') (get signal ''event_id'')
               \<or> \<not> json_eq (expected_event desc) (get signal ''event_id'')
            then ireturn (Withhold ''workstream_continuation_revoked'') else ireturn (Deliver (Some (w, c)))) ?Q"
      if r: "wall_limit_reason \<delta> desc t = Inr reason" for t reason
    proof (cases reason)
      case None
      with deliver [OF True r [unfolded None]] withhold show ?thesis by simp
    next
      case (Some s)
      show ?thesis unfolding Some option.case
        by (rule runs_bind [OF clock_runs(2)], rule path_value_runs, rule expiry [OF True r [unfolded Some]])
    qed
    from True have active: "\<not> get desc ''status'' \<noteq> JStr ''active''" by simp
    show ?thesis
      unfolding judge_def if_not_P [OF active] by (rule runs_bind [OF clock_runs(3)], rule runs_value, rule verdict)
  next
    case False
    then show ?thesis unfolding judge_def using withhold by simp
  qed
qed (simp add: guarded_def describes_def)

lemma guard_runs:
  "runs W \<delta> P (continuation_delivery_guard \<delta> signal now) (\<lambda>v f. get signal ''source_kind'' = JStr ''workstream_checkpoint'' \<longrightarrow>
     (\<forall>i. v = Deliver i \<longrightarrow> (\<exists>w c. i = Some (w, c) \<and> authorised_continuation \<delta> signal w c f)))"
proof -
  let ?Q = "\<lambda>v f. \<forall>i. v = Deliver i \<longrightarrow> (\<exists>w c. i = Some (w, c) \<and> authorised_continuation \<delta> signal w c f)"
  have state: "runs W \<delta> Q (ibind (guarded_state \<delta> w c now) (\<lambda>state. case state of None \<Rightarrow> ireturn (Withhold ''invalid_workstream_state'')
     | Some (desc, cp) \<Rightarrow> judge \<delta> signal w c now desc cp)) ?Q" for Q w c
  proof (rule runs_bind [OF guarded_state_runs])
    fix s :: "(fields \<times> fields) option"
    show "runs W \<delta> (\<lambda>f. case s of None \<Rightarrow> True | Some x \<Rightarrow> guarded \<delta> w c x f)
       (case s of None \<Rightarrow> ireturn (Withhold ''invalid_workstream_state'') | Some (desc, cp) \<Rightarrow> judge \<delta> signal w c now desc cp) ?Q"
    proof (cases s)
      case (Some x)
      then show ?thesis by (cases x) (auto intro!: runs_post [OF judge_runs])
    qed (auto intro: runs_return)
  qed
  have identified: "runs W \<delta> P (ibind (signal_identity \<delta> signal) (\<lambda>identity. case identity of
          None \<Rightarrow> ireturn (Withhold ''invalid_workstream_identity'')
        | Some (w, c) \<Rightarrow> ibind (ilift (validate_stream_id w)) (\<lambda>w. ibind (guarded_state \<delta> w c now) (\<lambda>state. case state of
              None \<Rightarrow> ireturn (Withhold ''invalid_workstream_state'') | Some (desc, cp) \<Rightarrow> judge \<delta> signal w c now desc cp)))) ?Q"
    by (rule runs_bind [OF signal_identity_runs]) (auto intro!: runs_return runs_value state split: option.split)
  show ?thesis
  proof (cases "get signal ''source_kind'' = JStr ''workstream_checkpoint''")
    case True
    then show ?thesis unfolding continuation_delivery_guard_def using identified by simp
  next
    case False
    then show ?thesis unfolding continuation_delivery_guard_def by (simp add: runs_return)
  qed
qed

lemma reconcile_each_runs: "runs W \<delta> P (reconcile_each \<delta> t ps) (\<lambda>_ _. True)"
proof (induction ps arbitrary: P)
  case (Cons p ps)
  let ?w = "pname (butlast p)"
  have "runs W \<delta> P (on_error contract_failure (ibind (reconcile_locked \<delta> ?w t) (\<lambda>r. ireturn (Reconciled r))) (\<lambda>e. ireturn (Broken ?w e))) (\<lambda>_ _. True)"
    by (intro runs_on_error runs_bind [OF reconcile_runs] runs_return) simp_all
  then show ?case
    unfolding reconcile_each.simps Let_def by (rule runs_bind) (auto intro!: runs_bind [OF Cons.IH] runs_return)
qed (auto intro: runs_return)

lemma reconcile_workstreams_runs: "runs W \<delta> P (reconcile_workstreams \<delta> now) (\<lambda>_ _. True)"
  unfolding reconcile_workstreams_def
  by (rule runs_bind [OF clock_runs(3)], rule runs_bind [OF runs_ask [where Q = "\<lambda>_ _. True"]]) (simp, rule reconcile_each_runs)

lemma load_streams_quiet: "ioframe files_kept (load_streams ps acc)"
  by (induction ps arbitrary: acc) (auto intro!: quiet_disk.frame_intros quiet_disk.caught)

lemma status_runs: "runs W \<delta> P (workstream_status \<delta> w) (\<lambda>_ _. True)"
proof -
  have "ioframe files_kept (load_workstream \<delta> i)" for i
    unfolding load_workstream_def by (auto intro!: quiet_disk.frame_intros)
  then have "ioframe files_kept (workstream_status \<delta> w)"
    unfolding workstream_status_def
    by (auto split: option.split prod.split intro!: quiet_disk.frame_intros load_streams_quiet quiet_reads)
  from runs_quiet [OF this, where P = "\<lambda>_. True"] show ?thesis by (rule runs_pre) simp
qed

section \<open>Sequences of operations\<close>

datatype stream_op =
    Start string string rat json json "err + fields"
  | Checkpoint "string \<Rightarrow> json option \<Rightarrow> preflight" checkpoint_request
  | Set_Policy string fields string json
  | Resume string
  | Reconcile "rat option"
  | Guard fields "rat option"
  | Show_Status "string option"
  | Publication publication

definition discard :: "'a io \<Rightarrow> unit io" where
  "discard m = ibind m (\<lambda>_. ireturn ())"

definition run_op :: "disk_env \<Rightarrow> stream_op \<Rightarrow> unit io" where
  "run_op \<delta> op = (case op of
      Start w goal delay maxc maxw bound \<Rightarrow> discard (start_workstream \<delta> w goal delay maxc maxw bound)
    | Checkpoint pf q \<Rightarrow> discard (checkpoint_workstream \<delta> pf q)
    | Set_Policy w limits reason expected \<Rightarrow> discard (set_workstream_policy \<delta> w limits reason expected)
    | Resume w \<Rightarrow> discard (resume_workstream \<delta> w)
    | Reconcile now \<Rightarrow> discard (reconcile_workstreams \<delta> now)
    | Guard signal now \<Rightarrow> discard (continuation_delivery_guard \<delta> signal now)
    | Show_Status w \<Rightarrow> discard (workstream_status \<delta> w)
    | Publication p \<Rightarrow> discard (publish \<delta> p))"

text \<open>An operation that dies or raises is followed by the next one, from the files it left behind.\<close>

fun run_ops :: "disk_env \<Rightarrow> stream_op list \<Rightarrow> disk \<Rightarrow> disk" where
  "run_ops \<delta> [] d = d"
| "run_ops \<delta> (op # ops) d = run_ops \<delta> ops (snd (run_op \<delta> op d))"

lemma publish_runs: "runs W \<delta> P (publish \<delta> p) (\<lambda>_ _. True)"
proof -
  have "ioframe (aside W \<delta>) (publish \<delta> p)" by (cases p) (simp_all add: publish_def publication_aside)
  from runs_aside [OF this, where P = "\<lambda>_. True"] show ?thesis by (rule runs_pre) (auto intro: on_streams_intros)
qed

fun permits :: "stream_op \<Rightarrow> permission set" where
  "permits (Set_Policy w _ _ _) = {May_Edit w}"
| "permits (Checkpoint _ q) = {May_Record (rq_workstream q)}"
| "permits _ = {}"

lemma run_op_steps:
  assumes "permits op \<subseteq> W"
  shows "stream_steps W \<delta> d (snd (run_op \<delta> op d))"
proof -
  have "runs W \<delta> (\<lambda>_. True) (run_op \<delta> op) (\<lambda>_ _. True)"
    using assms by (cases op) (auto simp: run_op_def discard_def intro!: runs_return runs_bind start_runs checkpoint_runs policy_runs resume_runs
        reconcile_workstreams_runs guard_runs status_runs publish_runs)
  then show ?thesis unfolding runs_def by (metis prod.collapse)
qed

lemma run_ops_steps:
  "(stream_step (\<Union> (permits ` set ops)) \<delta>)\<^sup>*\<^sup>* (files_of d) (files_of (run_ops \<delta> ops d))"
proof -
  have "(stream_step W \<delta>)\<^sup>*\<^sup>* (files_of d) (files_of (run_ops \<delta> ops d))" if "\<Union> (permits ` set ops) \<subseteq> W" for W
    using that
  proof (induction ops arbitrary: d)
    case (Cons op ops)
    then have "(stream_step W \<delta>)\<^sup>*\<^sup>* (files_of d) (files_of (snd (run_op \<delta> op d)))"
      using run_op_steps [of op W \<delta> d] by (simp add: stream_steps_def)
    with Cons show ?case by (simp add: rtranclp_trans)
  qed simp
  then show ?thesis by simp
qed


end
