(* ===== verification/Workstream_Properties.thy ===== *)
theory Workstream_Properties
  imports Workstream_Refinement
begin

text \<open>
  What the steps guarantee: a completed workstream is final, checkpoints are immutable and their
  sequence numbers distinct, every record stays well formed, automatic continuations stay within
  the limit. Each is an invariant of the atomic steps, proved from the effect of a step on one
  workstream, and holds of arbitrary sequences of operations by the refinement.
\<close>

section \<open>The effect of a step on one workstream\<close>

lemma descriptor_inj: "descriptor_path \<delta> w = descriptor_path \<delta> w' \<longleftrightarrow> w = w'"
  by (auto simp: descriptor_path_def workstream_dir_def)

lemma dir_inj: "in_dir (checkpoints_dir \<delta> w) p \<Longrightarrow> in_dir (checkpoints_dir \<delta> w') p \<Longrightarrow> w = w'"
  by (auto simp: in_dir_def checkpoints_dir_def workstream_dir_def)

definition same_checkpoints :: "disk_env \<Rightarrow> string \<Rightarrow> (path \<Rightarrow> content option) \<Rightarrow> (path \<Rightarrow> content option) \<Rightarrow> bool" where
  "same_checkpoints \<delta> w f g \<longleftrightarrow> (\<forall>p. in_dir (checkpoints_dir \<delta> w) p \<longrightarrow> g p = f p)"

lemma same_checkpoints_stored: "same_checkpoints \<delta> w f g \<Longrightarrow> stored \<delta> w g = stored \<delta> w f"
  by (auto simp: same_checkpoints_def stored_def fun_eq_iff)

lemma step_cases:
  assumes "stream_step W \<delta> f g"
  obtains (other) "g (descriptor_path \<delta> w) = f (descriptor_path \<delta> w)" "same_checkpoints \<delta> w f g"
  | (created) "f (descriptor_path \<delta> w) = None" "g (descriptor_path \<delta> w) = Some (Raw [])" "same_checkpoints \<delta> w f g"
  | (started) desc where "f (descriptor_path \<delta> w) = Some (Raw [])" "g (descriptor_path \<delta> w) = Some (Doc (JObj desc))" "same_checkpoints \<delta> w f g"
      "descriptor_typed w desc" "get desc ''status'' = JStr ''active''" "map_of desc ''checkpoint_count'' = Some (JInt 0)"
      "map_of desc ''continuation_count'' = Some (JInt 0)"
  | (recorded) desc p cp where "f (descriptor_path \<delta> w) = Some (Doc (JObj desc))" "g (descriptor_path \<delta> w) = f (descriptor_path \<delta> w)"
      "json_in (checkpoints_dir \<delta> w) p" "f p = None" "recordable \<delta> w f desc cp" "g = f(p \<mapsto> Doc (JObj cp))" "May_Record w \<in> W"
  | (described) desc desc' where "f (descriptor_path \<delta> w) = Some (Doc (JObj desc))" "g (descriptor_path \<delta> w) = Some (Doc (JObj desc'))"
      "same_checkpoints \<delta> w f g" "change W \<delta> w f desc desc'"
  using assms
proof cases
  case (elsewhere p c)
  have "p \<noteq> descriptor_path \<delta> w" "\<not> in_dir (checkpoints_dir \<delta> w) p" using elsewhere by (auto simp: stream_file_def)
  with elsewhere show ?thesis by (intro other) (auto simp: same_checkpoints_def)
next
  case (created v)
  show ?thesis
  proof (cases "v = w")
    case True
    with created that(2) show ?thesis using dir_not_descriptor by (auto simp: same_checkpoints_def)
  next
    case False
    with created show ?thesis using dir_not_descriptor by (intro other) (auto simp: same_checkpoints_def descriptor_inj)
  qed
next
  case (started v desc)
  show ?thesis
  proof (cases "v = w")
    case True
    show ?thesis by (rule that(3) [of desc]) (use started True dir_not_descriptor in \<open>auto simp: same_checkpoints_def\<close>)
  next
    case False
    with started show ?thesis using dir_not_descriptor by (intro other) (auto simp: same_checkpoints_def descriptor_inj)
  qed
next
  case (recorded v desc c cp)
  have in_dir: "json_in (checkpoints_dir \<delta> v) (checkpoint_path \<delta> v c)" by (rule checkpoint_in_dir)
  then have d: "descriptor_path \<delta> w \<noteq> checkpoint_path \<delta> v c" using dir_not_descriptor by (metis json_in_def)
  show ?thesis
  proof (cases "v = w")
    case True
    show ?thesis by (rule that(4) [of desc "checkpoint_path \<delta> v c" cp]) (use recorded True in_dir d in auto)
  next
    case False
    then have "\<not> in_dir (checkpoints_dir \<delta> w) (checkpoint_path \<delta> v c)" using in_dir dir_inj by (auto simp: json_in_def)
    with recorded d show ?thesis by (intro other) (auto simp: same_checkpoints_def)
  qed
next
  case (described v desc desc')
  show ?thesis
  proof (cases "v = w")
    case True
    show ?thesis by (rule that(5) [of desc desc']) (use described True dir_not_descriptor in \<open>auto simp: same_checkpoints_def\<close>)
  next
    case False
    with described show ?thesis using dir_not_descriptor by (intro other) (auto simp: same_checkpoints_def descriptor_inj)
  qed
qed

lemma steps_keep: "(stream_step W \<delta>)\<^sup>*\<^sup>* f g \<Longrightarrow> I f \<Longrightarrow> (\<And>f g. stream_step W \<delta> f g \<Longrightarrow> I f \<Longrightarrow> I g) \<Longrightarrow> I g"
  by (induction rule: rtranclp_induct) auto

lemma stored_recorded:
  "json_in (checkpoints_dir \<delta> w) p \<Longrightarrow> f p = None \<Longrightarrow> checkpoint_shape w cp \<Longrightarrow>
   stored \<delta> w (f(p \<mapsto> Doc (JObj cp))) q c \<longleftrightarrow> stored \<delta> w f q c \<or> q = p \<and> c = cp"
  by (auto simp: stored_def json_in_def generated_def generated_kinds_def checkpoint_shape_def)

section \<open>Completed workstreams and stored checkpoints\<close>

definition final_fields :: "string list" where
  "final_fields = [''workstream_id'', ''status'', ''checkpoint_count'', ''continuation_count'', ''latest_checkpoint_id'', ''latest_checkpoint_path'', ''goal'']"

lemma completed_change:
  assumes "change W \<delta> w f desc d" "get desc ''status'' = JStr ''complete''" "k \<in> set final_fields"
  shows "map_of d k = map_of desc k"
  using assms(1)
proof cases
  case (migrated v cps)
  from migrated_fields [OF migrated(3), of k] assms(3) show ?thesis by (auto simp: schedule_fields_def final_fields_def)
next
  case (policy limits reason revision stamp n)
  from policy_fields_kept(1) [OF policy(3,2), of k] assms(3) show ?thesis by (auto simp: policy_fields_def final_fields_def)
qed (use assms in auto)

text \<open>C30: A completed workstream is final: whatever operations follow, on it or on others, interrupted anywhere, it stays
  completed with the same checkpoints, counters and last checkpoint, and no checkpoint is added to it.\<close>

theorem completed_workstream_is_final:
  assumes "files_of d (descriptor_path \<delta> w) = Some (Doc (JObj desc))" "get desc ''status'' = JStr ''complete''"
  shows "\<exists>desc'. files_of (run_ops \<delta> ops d) (descriptor_path \<delta> w) = Some (Doc (JObj desc')) \<and>
     list_all (\<lambda>k. map_of desc' k = map_of desc k) final_fields \<and> same_checkpoints \<delta> w (files_of d) (files_of (run_ops \<delta> ops d))"
    (is "?I (files_of (run_ops \<delta> ops d))")
proof (rule steps_keep [OF run_ops_steps, where I = ?I])
  show "?I (files_of d)" using assms(1) by (simp add: same_checkpoints_def list_all_iff)
  fix f g assume "stream_step (\<Union> (permits ` set ops)) \<delta> f g" and "?I f"
  then obtain e where e: "f (descriptor_path \<delta> w) = Some (Doc (JObj e))" "list_all (\<lambda>k. map_of e k = map_of desc k) final_fields"
    and same: "same_checkpoints \<delta> w (files_of d) f" by blast
  have status: "get e ''status'' = JStr ''complete''" using e(2) assms(2) get_cong(1) [of e "''status''" desc] by (simp add: final_fields_def)
  from \<open>stream_step _ \<delta> f g\<close> show "?I g"
  proof (cases rule: step_cases [where w = w])
    case other
    with e same show ?thesis by (auto simp: same_checkpoints_def)
  next
    case (recorded desc p cp)
    with e status show ?thesis by (auto simp: recordable_def)
  next
    case (described a b)
    with e have a: "a = e" by simp
    from completed_change [OF described(4) [unfolded a] status] e(2) described(2,3) same
    show ?thesis by (auto simp: same_checkpoints_def list_all_iff)
  qed (use e in auto)
qed

text \<open>A stored checkpoint is never changed and never removed, whatever operations follow and wherever they stop.\<close>

theorem checkpoints_are_immutable:
  assumes "in_dir (checkpoints_dir \<delta> w) p" "files_of d p = Some c"
  shows "files_of (run_ops \<delta> ops d) p = Some c"
proof (rule steps_keep [OF run_ops_steps, where I = "\<lambda>f. f p = Some c"])
  show "files_of d p = Some c" by fact
  fix f g assume "stream_step (\<Union> (permits ` set ops)) \<delta> f g" and "f p = Some c"
  then show "g p = Some c"
    by (cases rule: step_cases [where w = w]) (use assms(1) in \<open>auto simp: same_checkpoints_def\<close>)
qed

section \<open>Every record stays well formed\<close>

definition no_checkpoints :: "disk_env \<Rightarrow> string \<Rightarrow> (path \<Rightarrow> content option) \<Rightarrow> bool" where
  "no_checkpoints \<delta> w f \<longleftrightarrow> (\<forall>p. json_in (checkpoints_dir \<delta> w) p \<longrightarrow> f p = None)"

definition checkpoints_typed :: "disk_env \<Rightarrow> string \<Rightarrow> fields \<Rightarrow> (path \<Rightarrow> content option) \<Rightarrow> bool" where
  "checkpoints_typed \<delta> w desc f \<longleftrightarrow>
     (\<forall>p c. json_in (checkpoints_dir \<delta> w) p \<longrightarrow> f p = Some c \<longrightarrow>
        (\<exists>cp. c = Doc (JObj cp) \<and> checkpoint_shape w cp \<and> validate_checkpoint cp w = Inr () \<and> count_le \<delta> desc (sequence_of cp - 1))) \<and>
     (\<forall>p q a b. stored \<delta> w f p a \<longrightarrow> stored \<delta> w f q b \<longrightarrow> sequence_of a = sequence_of b \<longrightarrow> p = q)"

definition well_kept :: "disk_env \<Rightarrow> string \<Rightarrow> (path \<Rightarrow> content option) \<Rightarrow> bool" where
  "well_kept \<delta> w f \<longleftrightarrow> (case f (descriptor_path \<delta> w) of
      None \<Rightarrow> no_checkpoints \<delta> w f
    | Some (Raw s) \<Rightarrow> s = [] \<and> no_checkpoints \<delta> w f
    | Some (Doc v) \<Rightarrow> \<exists>desc. v = JObj desc \<and> descriptor_typed w desc \<and> checkpoints_typed \<delta> w desc f)"

definition fresh :: "disk_env \<Rightarrow> string \<Rightarrow> (path \<Rightarrow> content option) \<Rightarrow> bool" where
  "fresh \<delta> w f \<longleftrightarrow> f (descriptor_path \<delta> w) = None \<and> no_checkpoints \<delta> w f"

lemma typed_count:
  assumes "descriptor_typed w desc"
  obtains n k where "map_of desc ''checkpoint_count'' = Some (JInt n)" "0 \<le> n" "count_of \<delta> desc = Inr n"
    "map_of desc ''continuation_count'' = Some (JInt k)" "0 \<le> k" "int_value \<delta> (get_or desc ''continuation_count'' (JInt 0)) = Inr k"
  using assms count_known by (auto simp: descriptor_typed_def get_or_def int_value_def)

lemma typed_change:
  assumes "descriptor_typed w desc" and "\<And>k. k \<in> {''schema_version'', ''kind'', ''workstream_id'', ''created_at''} \<Longrightarrow> map_of d k = map_of desc k"
    and "\<And>k. k \<in> set policy_fields \<Longrightarrow> \<exists>v. map_of d k = Some v \<and> (optional_limit v = Inr () \<or> map_of desc k = Some v)"
    and "get d ''status'' \<in> JStr ` set stream_statuses" "\<exists>n\<ge>0. map_of d ''checkpoint_count'' = Some (JInt n)"
    "\<exists>n\<ge>0. map_of d ''continuation_count'' = Some (JInt n)" "is_str (get d ''updated_at'')"
  shows "descriptor_typed w d"
proof -
  have "get d k = get desc k" if "k \<in> {''schema_version'', ''kind'', ''workstream_id'', ''created_at''}" for k
    using assms(2) [OF that] by (rule get_cong(1))
  then have g: "get d ''schema_version'' = get desc ''schema_version''" "get d ''kind'' = get desc ''kind''"
    "get d ''workstream_id'' = get desc ''workstream_id''" "get d ''created_at'' = get desc ''created_at''" by simp_all
  have "\<exists>l. map_of d k = Some l \<and> optional_limit l = Inr ()" if "k \<in> set policy_fields" for k
    using assms(3) [OF that] assms(1) that by (auto simp: descriptor_typed_def validate_workstream_iff)
  then show ?thesis using assms(1,4-7) g by (simp add: descriptor_typed_def validate_workstream_iff)
qed

definition typed_fields :: "string list" where
  "typed_fields = [''schema_version'', ''kind'', ''workstream_id'', ''created_at'', ''checkpoint_count'', ''continuation_count'']"

lemma typed_same:
  assumes "descriptor_typed w desc" and "\<And>k. k \<in> set typed_fields \<Longrightarrow> map_of d k = map_of desc k"
    and "\<And>k. k \<in> set policy_fields \<Longrightarrow> \<exists>v. map_of d k = Some v \<and> (optional_limit v = Inr () \<or> map_of desc k = Some v)"
    and "get d ''status'' \<in> JStr ` set stream_statuses" "is_str (get d ''updated_at'')"
  shows "descriptor_typed w d" "count_le \<delta> desc k \<Longrightarrow> count_le \<delta> d k"
proof -
  have c: "map_of d ''checkpoint_count'' = map_of desc ''checkpoint_count''" "map_of d ''continuation_count'' = map_of desc ''continuation_count''"
    using assms(2) by (simp_all add: typed_fields_def)
  show "descriptor_typed w d"
    by (rule typed_change [OF assms(1)]) (use assms c in \<open>auto simp: typed_fields_def descriptor_typed_def\<close>)
  show "count_le \<delta> desc k \<Longrightarrow> count_le \<delta> d k" using get_cong(2) [OF c(1)] by (simp add: count_le_def count_of_def)
qed

lemma typed_limits:
  assumes "descriptor_typed w desc" "k \<in> set policy_fields" "map_of d k = map_of desc k"
  shows "\<exists>v. map_of d k = Some v \<and> (optional_limit v = Inr () \<or> map_of desc k = Some v)"
  using assms by (auto simp: descriptor_typed_def validate_workstream_iff)

lemma change_typed:
  assumes "change W \<delta> w f desc d" "descriptor_typed w desc" "\<And>p cp. stored \<delta> w f p cp \<Longrightarrow> checkpoint_shape w cp"
  shows "descriptor_typed w d \<and> (\<forall>k. count_le \<delta> desc k \<longrightarrow> count_le \<delta> d k)"
  using assms(1)
proof cases
  case (applied p cp n)
  note fields = applied_fields [OF applied(5)]
  obtain k where n: "map_of desc ''checkpoint_count'' = Some (JInt n)" "0 \<le> n"
    and k: "map_of desc ''continuation_count'' = Some (JInt k)" "0 \<le> k" "int_value \<delta> (get_or desc ''continuation_count'' (JInt 0)) = Inr k"
    using assms(2) applied(2) by (elim typed_count [of w desc \<delta>]) auto
  have cp: "checkpoint_shape w cp" using assms(3) [OF applied(1)] .
  then obtain s where s: "get cp ''decision'' = JStr s" "s \<in> set workstream_decisions" by (auto simp: checkpoint_shape_def)
  have "descriptor_typed w d"
  proof (rule typed_change [OF assms(2)])
    show "map_of d k = map_of desc k" if "k \<in> {''schema_version'', ''kind'', ''workstream_id'', ''created_at''}" for k
      by (rule fields(3)) (use that in \<open>auto simp: kept_fields_def\<close>)
    show "\<exists>v. map_of d k = Some v \<and> (optional_limit v = Inr () \<or> map_of desc k = Some v)" if "k \<in> set policy_fields" for k
      by (rule typed_limits [OF assms(2) that fields(3)]) (use that in \<open>auto simp: kept_fields_def policy_fields_def\<close>)
    show "get d ''status'' \<in> JStr ` set stream_statuses"
      using fields(2) s by (auto simp: str_value_def Let_def workstream_decisions_def stream_statuses_def)
    show "\<exists>m\<ge>0. map_of d ''checkpoint_count'' = Some (JInt m)" using fields(1) n(2) by auto
    show "\<exists>m\<ge>0. map_of d ''continuation_count'' = Some (JInt m)" using fields(5) k by (auto split: if_splits)
    show "is_str (get d ''updated_at'')" using fields(4) cp by (simp add: checkpoint_shape_def)
  qed
  moreover have "count_le \<delta> d k" if "count_le \<delta> desc k" for k
    using that applied(2) count_known [OF fields(1)] by (auto simp: count_le_def)
  ultimately show ?thesis by blast
next
  case (migrated v cps)
  have same: "map_of d k = map_of desc k" if "k \<notin> set schedule_fields" for k using migrated_fields [OF migrated(3) that] .
  have "get d ''status'' = get desc ''status''" "get d ''updated_at'' = get desc ''updated_at''"
    by (rule get_cong(1) [OF same]; simp add: schedule_fields_def)+
  then have s: "get d ''status'' \<in> JStr ` set stream_statuses" "is_str (get d ''updated_at'')" using assms(2) by (simp_all add: descriptor_typed_def)
  show ?thesis
    by (intro conjI allI impI typed_same [OF assms(2) same typed_limits [OF assms(2) _ same] s])
      (auto simp: typed_fields_def policy_fields_def schedule_fields_def)
next
  case (expired t s stamp)
  note e = expired_fields [OF expired(3)]
  have s: "get d ''status'' \<in> JStr ` set stream_statuses" "is_str (get d ''updated_at'')" using e(2,3) by (simp_all add: stream_statuses_def)
  show ?thesis
    by (intro conjI allI impI typed_same [OF assms(2) e(1) typed_limits [OF assms(2) _ e(1)] s]) (auto simp: typed_fields_def policy_fields_def)
next
  case (policy limits reason revision stamp n)
  note p = policy_fields_kept [OF policy(3,2)]
  have "get d ''status'' = get desc ''status''" by (rule get_cong(1) [OF p(1)]) (simp_all add: policy_fields_def)
  then have s: "get d ''status'' \<in> JStr ` set stream_statuses" "is_str (get d ''updated_at'')" using p(3) assms(2) by (simp_all add: descriptor_typed_def)
  show ?thesis
    by (intro conjI allI impI typed_same [OF assms(2) p(1) p(2) s]) (auto simp: typed_fields_def policy_fields_def)
next
  case (resumed stamp)
  note r = resumed_fields [where desc = desc and stamp = stamp, folded resumed(1)]
  have s: "get d ''status'' \<in> JStr ` set stream_statuses" "is_str (get d ''updated_at'')" using r(2,3) by (simp_all add: stream_statuses_def)
  show ?thesis
    by (intro conjI allI impI typed_same [OF assms(2) r(1) typed_limits [OF assms(2) _ r(1)] s])
      (auto simp: typed_fields_def policy_fields_def schedule_fields_def)
qed

lemma shape_validates: "checkpoint_shape w cp \<Longrightarrow> 1 \<le> sequence_of cp \<Longrightarrow> validate_checkpoint cp w = Inr ()"
  by (auto simp: checkpoint_shape_def validate_checkpoint_def is_supported_schema_version_def Let_def elim!: is_str.elims)

lemma well_kept_step:
  assumes "stream_step W \<delta> f g" "well_kept \<delta> w f"
  shows "well_kept \<delta> w g"
  using assms(1)
proof (cases rule: step_cases [where w = w])
  case other
  have "no_checkpoints \<delta> w g = no_checkpoints \<delta> w f" "checkpoints_typed \<delta> w desc g = checkpoints_typed \<delta> w desc f" for desc
    using other(2) same_checkpoints_stored [OF other(2)]
    by (auto simp: no_checkpoints_def checkpoints_typed_def same_checkpoints_def json_in_def)
  with other(1) assms(2) show ?thesis by (simp add: well_kept_def cong: option.case_cong content.case_cong)
next
  case created
  have "no_checkpoints \<delta> w g = no_checkpoints \<delta> w f" using created(3) by (auto simp: no_checkpoints_def same_checkpoints_def json_in_def)
  with created assms(2) show ?thesis by (simp add: well_kept_def)
next
  case (started desc)
  have "no_checkpoints \<delta> w g" using started assms(2) by (auto simp: no_checkpoints_def same_checkpoints_def json_in_def well_kept_def)
  then have "checkpoints_typed \<delta> w desc g" by (auto simp: no_checkpoints_def checkpoints_typed_def stored_def json_in_def)
  with started show ?thesis by (simp add: well_kept_def)
next
  case (recorded desc p cp)
  from recorded(1) assms(2) have typed: "descriptor_typed w desc" "checkpoints_typed \<delta> w desc f" by (auto simp: well_kept_def)
  from recorded(5) have shape: "checkpoint_shape w cp" and count: "count_of \<delta> desc = Inr (sequence_of cp - 1)"
    and top: "\<And>q c. stored \<delta> w f q c \<Longrightarrow> sequence_of c < sequence_of cp" by (auto simp: recordable_def)
  obtain n where n: "count_of \<delta> desc = Inr n" "0 \<le> n" using typed(1) by (rule typed_count [of w desc \<delta>])
  then have v: "validate_checkpoint cp w = Inr ()" "count_le \<delta> desc (sequence_of cp - 1)"
    using shape_validates [OF shape] count by (auto simp: count_le_def)
  have st: "stored \<delta> w g q c \<longleftrightarrow> stored \<delta> w f q c \<or> q = p \<and> c = cp" for q c
    unfolding recorded(6) by (rule stored_recorded [where f = f, OF recorded(3,4) shape])
  have "checkpoints_typed \<delta> w desc g"
    unfolding checkpoints_typed_def
  proof (intro conjI allI impI)
    fix q c assume "json_in (checkpoints_dir \<delta> w) q" "g q = Some c"
    then show "\<exists>cp. c = Doc (JObj cp) \<and> checkpoint_shape w cp \<and> validate_checkpoint cp w = Inr () \<and> count_le \<delta> desc (sequence_of cp - 1)"
      using typed(2) recorded(6) v shape by (cases "q = p") (auto simp: checkpoints_typed_def)
  next
    fix q r a b assume "stored \<delta> w g q a" "stored \<delta> w g r b" "sequence_of a = sequence_of b"
    then show "q = r" using st top typed(2) unfolding checkpoints_typed_def by (metis order_less_irrefl)
  qed
  with recorded(1,2) typed(1) show ?thesis by (simp add: well_kept_def)
next
  case (described desc d)
  from described(1) assms(2) have typed: "descriptor_typed w desc" "checkpoints_typed \<delta> w desc f" by (auto simp: well_kept_def)
  have shape: "checkpoint_shape w cp" if "stored \<delta> w f p cp" for p cp
    using typed(2) that by (fastforce simp: checkpoints_typed_def stored_def json_in_def)
  have c: "descriptor_typed w d \<and> (\<forall>k. count_le \<delta> desc k \<longrightarrow> count_le \<delta> d k)"
    by (rule change_typed [OF described(4) typed(1)]) (rule shape)
  have "checkpoints_typed \<delta> w d g"
    unfolding checkpoints_typed_def same_checkpoints_stored [OF described(3)]
  proof (intro conjI allI impI)
    fix q x assume q: "json_in (checkpoints_dir \<delta> w) q" "g q = Some x"
    then have "f q = Some x" using described(3) by (simp add: same_checkpoints_def json_in_def)
    with q typed(2) obtain cp where "x = Doc (JObj cp)" "checkpoint_shape w cp" "validate_checkpoint cp w = Inr ()" "count_le \<delta> desc (sequence_of cp - 1)"
      unfolding checkpoints_typed_def by blast
    moreover from this c have "count_le \<delta> d (sequence_of cp - 1)" by blast
    ultimately show "\<exists>cp. x = Doc (JObj cp) \<and> checkpoint_shape w cp \<and> validate_checkpoint cp w = Inr () \<and> count_le \<delta> d (sequence_of cp - 1)" by blast
  qed (use typed(2) in \<open>auto simp: checkpoints_typed_def\<close>)
  with described(2) c show ?thesis by (simp add: well_kept_def)
qed

text \<open>C31: From a fresh workstream on, every record stays well formed: whatever operations follow and wherever they stop,
  the descriptor is missing, or empty because its creation was interrupted, or a valid descriptor with a known status and
  natural counters; every checkpoint file is a valid checkpoint of the workstream at most one ahead of the descriptor,
  and no two have the same sequence number.\<close>

theorem workstream_records_typed:
  assumes "fresh \<delta> w (files_of d)"
  shows "well_kept \<delta> w (files_of (run_ops \<delta> ops d))"
  by (rule steps_keep [OF run_ops_steps, where I = "well_kept \<delta> w"])
    (use assms well_kept_step in \<open>auto simp: fresh_def well_kept_def\<close>)

section \<open>Continuations stay within the limit\<close>

text \<open>A stored checkpoint that continues automatically and is not applied yet.\<close>

definition pending :: "disk_env \<Rightarrow> string \<Rightarrow> fields \<Rightarrow> (path \<Rightarrow> content option) \<Rightarrow> bool" where
  "pending \<delta> w desc f \<longleftrightarrow> (\<exists>p cp. stored \<delta> w f p cp \<and> count_of \<delta> desc = Inr (sequence_of cp - 1) \<and> get cp ''decision'' \<in> JStr ` set automatic_decisions)"

definition in_limit :: "disk_env \<Rightarrow> string \<Rightarrow> int \<Rightarrow> (path \<Rightarrow> content option) \<Rightarrow> bool" where
  "in_limit \<delta> w l f \<longleftrightarrow> (\<forall>desc. f (descriptor_path \<delta> w) = Some (Doc (JObj desc)) \<longrightarrow> map_of desc ''max_continuations'' = Some (JInt l) \<longrightarrow>
     (\<exists>k. map_of desc ''continuation_count'' = Some (JInt k) \<and> k \<le> l \<and> (pending \<delta> w desc f \<longrightarrow> k < l)))"

lemma pending_cong: "map_of d ''checkpoint_count'' = map_of desc ''checkpoint_count'' \<Longrightarrow> stored \<delta> w g = stored \<delta> w f \<Longrightarrow> pending \<delta> w d g = pending \<delta> w desc f"
  using get_cong(2) [of d "''checkpoint_count''" desc] by (simp add: pending_def count_of_def)

lemma in_limitI:
  assumes "g (descriptor_path \<delta> w) = Some (Doc (JObj d))"
    and "map_of d ''max_continuations'' = Some (JInt l) \<Longrightarrow> \<exists>k. map_of d ''continuation_count'' = Some (JInt k) \<and> k \<le> l \<and> (pending \<delta> w d g \<longrightarrow> k < l)"
  shows "in_limit \<delta> w l g"
  using assms by (auto simp: in_limit_def)

text \<open>Only the application of a checkpoint and an edit of the policy change what the bound is about.\<close>

lemma quiet_change:
  assumes "change W \<delta> w f desc d" "May_Edit w \<notin> W"
  shows "(\<forall>k\<in>{''checkpoint_count'', ''continuation_count'', ''max_continuations''}. map_of d k = map_of desc k) \<or>
    (\<exists>p cp n. stored \<delta> w f p cp \<and> count_of \<delta> desc = Inr n \<and> sequence_of cp = n + 1 \<and> applied_descriptor \<delta> desc cp (n + 1) = Inr d)"
  using assms(1)
proof cases
  case (migrated v cps)
  have "map_of d k = map_of desc k" if "k \<in> {''checkpoint_count'', ''continuation_count'', ''max_continuations''}" for k
    by (rule migrated_fields [OF migrated(3)]) (use that in \<open>auto simp: schedule_fields_def\<close>)
  then show ?thesis by blast
next
  case (expired t s stamp)
  have "map_of d k = map_of desc k" if "k \<in> {''checkpoint_count'', ''continuation_count'', ''max_continuations''}" for k
    by (rule expired_fields(1) [OF expired(3)]) (use that in auto)
  then show ?thesis by blast
next
  case (resumed stamp)
  have "map_of d k = map_of desc k" if "k \<in> {''checkpoint_count'', ''continuation_count'', ''max_continuations''}" for k
    unfolding resumed(1) by (rule resumed_fields(1)) (use that in \<open>auto simp: schedule_fields_def\<close>)
  then show ?thesis by blast
qed (use assms(2) in blast)+

lemma in_limit_step:
  assumes "stream_step W \<delta> f g" "May_Edit w \<notin> W" "well_kept \<delta> w f" "in_limit \<delta> w l f"
  shows "in_limit \<delta> w l g"
  using assms(1)
proof (cases rule: step_cases [where w = w])
  case other
  then show ?thesis using assms(4) same_checkpoints_stored [OF other(2)] by (simp add: in_limit_def pending_def)
next
  case created
  then show ?thesis by (simp add: in_limit_def)
next
  case (started desc)
  have "no_checkpoints \<delta> w g" using started assms(3) by (auto simp: no_checkpoints_def same_checkpoints_def json_in_def well_kept_def)
  then have "\<not> pending \<delta> w desc g" by (auto simp: pending_def no_checkpoints_def stored_def json_in_def)
  moreover have "0 \<le> l" if "map_of desc ''max_continuations'' = Some (JInt l)"
    using started(4) that by (auto simp: descriptor_typed_def validate_workstream_iff policy_fields_def optional_limit_def)
  ultimately show ?thesis using started by (intro in_limitI) auto
next
  case (recorded desc p cp)
  from recorded(1) assms(3) have typed: "descriptor_typed w desc" by (auto simp: well_kept_def)
  from recorded(5) have shape: "checkpoint_shape w cp" and count: "count_of \<delta> desc = Inr (sequence_of cp - 1)"
    and limit: "get cp ''decision'' \<in> JStr ` set automatic_decisions \<Longrightarrow> \<exists>t. limit_reason \<delta> desc t = Inr None"
    and top: "\<And>q c. stored \<delta> w f q c \<Longrightarrow> sequence_of c < sequence_of cp" by (auto simp: recordable_def)
  obtain k where k: "map_of desc ''continuation_count'' = Some (JInt k)" "int_value \<delta> (get_or desc ''continuation_count'' (JInt 0)) = Inr k"
    using typed by (rule typed_count [of w desc \<delta>])
  have st: "stored \<delta> w g q c \<longleftrightarrow> stored \<delta> w f q c \<or> q = p \<and> c = cp" for q c
    unfolding recorded(6) by (rule stored_recorded [where f = f, OF recorded(3,4) shape])
  show ?thesis
  proof (rule in_limitI)
    show "g (descriptor_path \<delta> w) = Some (Doc (JObj desc))" using recorded(1,2) by simp
    assume l: "map_of desc ''max_continuations'' = Some (JInt l)"
    then have "k \<le> l" using assms(4) recorded(1) k(1) by (auto simp: in_limit_def)
    moreover have "k < l" if "pending \<delta> w desc g"
    proof -
      from that st top count have "get cp ''decision'' \<in> JStr ` set automatic_decisions" by (force simp: pending_def)
      from limit [OF this] obtain t where "limit_reason \<delta> desc t = Inr None" by blast
      with l k(2) show ?thesis by (auto simp: limit_reason_def ebind_Inr_iff split: if_splits)
    qed
    ultimately show "\<exists>k. map_of desc ''continuation_count'' = Some (JInt k) \<and> k \<le> l \<and> (pending \<delta> w desc g \<longrightarrow> k < l)" using k by blast
  qed
next
  case (described desc d)
  from described(1) assms(3) have typed: "descriptor_typed w desc" "checkpoints_typed \<delta> w desc f" by (auto simp: well_kept_def)
  note st = same_checkpoints_stored [OF described(3)]
  from quiet_change [OF described(4) assms(2)] show ?thesis
  proof (elim disjE exE conjE)
    assume "\<forall>k\<in>{''checkpoint_count'', ''continuation_count'', ''max_continuations''}. map_of d k = map_of desc k"
    then have same: "map_of d ''checkpoint_count'' = map_of desc ''checkpoint_count''" "map_of d ''continuation_count'' = map_of desc ''continuation_count''"
      "map_of d ''max_continuations'' = map_of desc ''max_continuations''" by simp_all
    show ?thesis
      by (rule in_limitI [where g = g, OF described(2)]) (use assms(4) described(1) same pending_cong [OF same(1) st] in \<open>auto simp: in_limit_def\<close>)
  next
    fix p cp n assume a: "stored \<delta> w f p cp" "count_of \<delta> desc = Inr n" "sequence_of cp = n + 1" "applied_descriptor \<delta> desc cp (n + 1) = Inr d"
    note fields = applied_fields [OF a(4)]
    have max: "map_of d ''max_continuations'' = map_of desc ''max_continuations''" by (rule fields(3)) (simp add: kept_fields_def)
    have shape: "checkpoint_shape w c \<and> sequence_of c \<le> n + 1" if "stored \<delta> w f q c" for q c
    proof -
      from that have "json_in (checkpoints_dir \<delta> w) q" "f q = Some (Doc (JObj c))" by (auto simp: stored_def json_in_def)
      then obtain c' where "Doc (JObj c) = Doc (JObj c')" "checkpoint_shape w c'" "count_le \<delta> desc (sequence_of c' - 1)"
        using typed(2) unfolding checkpoints_typed_def by blast
      then show ?thesis using a(2) by (auto simp: count_le_def)
    qed
    show ?thesis
    proof (rule in_limitI [where g = g, OF described(2)])
      assume l: "map_of d ''max_continuations'' = Some (JInt l)"
      then obtain k where k: "map_of desc ''continuation_count'' = Some (JInt k)" "k \<le> l" "pending \<delta> w desc f \<longrightarrow> k < l"
        using assms(4) described(1) max by (auto simp: in_limit_def)
      have "\<not> pending \<delta> w d g"
      proof
        assume "pending \<delta> w d g"
        then obtain q c where "stored \<delta> w f q c" "sequence_of c = n + 2" using count_known [OF fields(1), of \<delta>] st by (auto simp: pending_def)
        with shape show False by fastforce
      qed
      moreover have "\<exists>m. map_of d ''continuation_count'' = Some (JInt m) \<and> m \<le> l"
      proof (cases "str_value \<delta> (get cp ''decision'') \<in> set automatic_decisions")
        case True
        then have "get cp ''decision'' \<in> JStr ` set automatic_decisions"
          using shape [OF a(1)] by (auto simp: checkpoint_shape_def str_value_def)
        then have "pending \<delta> w desc f" unfolding pending_def using a(1-3) by (intro exI [of _ p] exI [of _ cp]) simp
        with k(3) have "k < l" by blast
        with fields(5) True k(1) show ?thesis by (auto simp: get_or_def int_value_def)
      next
        case False
        with fields(5) k show ?thesis by simp
      qed
      ultimately show "\<exists>k. map_of d ''continuation_count'' = Some (JInt k) \<and> k \<le> l \<and> (pending \<delta> w d g \<longrightarrow> k < l)" by blast
    qed
  qed
qed

text \<open>C32: From a fresh workstream on, and as long as its policy is not permits, the automatic continuations stay within
  the limit it was started with, whatever operations follow on it or on others, crashes and recoveries included.\<close>

theorem continuations_stay_within_limit:
  assumes "fresh \<delta> w (files_of d)" "May_Edit w \<notin> \<Union> (permits ` set ops)"
    and "files_of (run_ops \<delta> ops d) (descriptor_path \<delta> w) = Some (Doc (JObj desc))" "get desc ''max_continuations'' = JInt l"
  shows "\<exists>k. get desc ''continuation_count'' = JInt k \<and> 0 \<le> k \<and> k \<le> l"
proof -
  let ?I = "\<lambda>f. well_kept \<delta> w f \<and> in_limit \<delta> w l f"
  have "?I (files_of (run_ops \<delta> ops d))"
    by (rule steps_keep [OF run_ops_steps, where I = ?I])
      (use assms(1,2) well_kept_step in_limit_step in \<open>auto simp: fresh_def well_kept_def in_limit_def\<close>)
  moreover have "map_of desc ''max_continuations'' = Some (JInt l)" using assms(4) by (auto simp: get_def split: option.splits)
  ultimately obtain k where k: "map_of desc ''continuation_count'' = Some (JInt k)" "k \<le> l" and typed: "descriptor_typed w desc"
    using assms(3) by (auto simp: in_limit_def well_kept_def)
  then have "0 \<le> k" by (auto simp: descriptor_typed_def)
  with k show ?thesis by (auto simp: get_def)
qed

section \<open>Deliveries\<close>

lemma discard_disk: "snd (discard m d) = snd (m d)"
  by (auto simp: discard_def ibind_def ireturn_def split: prod.split sum.split)

lemma run_op_guard: "files_of (run_ops \<delta> (ops @ [Guard signal now]) d) = files_of (snd (continuation_delivery_guard \<delta> signal now (run_ops \<delta> ops d)))"
  by (induction ops arbitrary: d) (simp_all add: run_op_def discard_disk)

lemma guard_delivers:
  assumes "continuation_delivery_guard \<delta> signal now d = (Inr (Deliver i), d')" "get signal ''source_kind'' = JStr ''workstream_checkpoint''"
  shows "\<exists>w c. i = Some (w, c) \<and> authorised_continuation \<delta> signal w c (files_of d')"
  using guard_runs [of "{}" \<delta> "\<lambda>_. True" signal now] assms unfolding runs_def by blast


lemma idle_step:
  assumes "stream_step W \<delta> f g" "idle \<delta> w f" "May_Record w \<notin> W"
  shows "idle \<delta> w g"
proof -
  from assms(2) obtain desc where desc: "f (descriptor_path \<delta> w) = Some (Doc (JObj desc))" "revoked desc" "all_applied \<delta> w desc f" "id_pattern w"
    "get desc ''workstream_id'' = JStr w"
    by (auto simp: idle_def describes_def)
  from assms(1) show ?thesis
  proof (cases rule: step_cases [where w = w])
    case other
    with desc show ?thesis by (auto simp: idle_def describes_def all_applied_def same_checkpoints_stored)
  next
    case (recorded e p cp)
    with assms(3) show ?thesis by simp
  next
    case (described e d)
    with desc have e: "e = desc" by simp
    have keep: ?thesis
      if "get d ''active_continuation'' = JNull" "get_or d ''continuation_state_version'' (JInt 0) = JInt 1" "map_of d ''checkpoint_count'' = map_of desc ''checkpoint_count''"
        "map_of d ''workstream_id'' = map_of desc ''workstream_id''"
      using that described(2) desc same_checkpoints_stored [OF described(3)] get_cong(1) [OF that(4)] get_cong(2) [OF that(3)]
      by (auto simp: idle_def describes_def all_applied_def revoked_def count_le_def count_of_def)
    have version: "get_or d ''continuation_state_version'' (JInt 0) = JInt 1"
      if "map_of d ''continuation_state_version'' = map_of desc ''continuation_state_version''"
      using get_cong(2) [OF that, of "JInt 0"] desc(2) by (simp add: revoked_def)
    from described(4) [unfolded e] show ?thesis
    proof cases
      case (applied p cp n)
      have "count_le \<delta> desc (sequence_of cp)" using desc(3) applied(1) unfolding all_applied_def by blast
      then have "sequence_of cp \<le> n" using applied(2) by (simp add: count_le_def)
      with applied(3) show ?thesis by simp
    next
      case (migrated v cps)
      with desc(2) show ?thesis by (auto simp: revoked_def int_value_def)
    next
      case (expired t s stamp)
      note x = expired_fields [OF expired(3)]
      show ?thesis by (rule keep [OF x(4) version [OF x(1)] x(1) x(1)]) simp_all
    next
      case (policy limits reason revision stamp n)
      note x = policy_fields_kept(1) [OF policy(3,2)]
      have "get d ''active_continuation'' = JNull" using get_cong(1) [OF x, of "''active_continuation''"] desc(2) by (simp add: policy_fields_def revoked_def)
      then show ?thesis by (rule keep [OF _ version [OF x] x x]) (simp_all add: policy_fields_def)
    next
      case (resumed stamp)
      have v: "get_or d ''continuation_state_version'' (JInt 0) = JInt 1" by (simp add: resumed(1) resumed_descriptor_def)
      show ?thesis
        by (rule keep [OF _ v]) (simp_all add: resumed(1) resumed_fields schedule_fields_def)
    qed
  qed (use desc in auto)
qed

lemma json_eq_null: "json_eq JNull x \<Longrightarrow> x = JNull"
  by (cases x) (auto simp: json_eq_def split: if_splits)

text \<open>C34: Resuming a stopped workstream revokes every continuation that was scheduled before: until a new checkpoint is
  recorded, no signal of that workstream is delivered, whatever happens in between.\<close>

theorem resumption_revokes_continuations:
  assumes "resume_workstream \<delta> w d = (Inr out, d1)" "May_Record w \<notin> \<Union> (permits ` set ops)"
    and "continuation_delivery_guard \<delta> signal now (run_ops \<delta> ops d1) = (Inr (Deliver i), d')"
    and "get signal ''source_kind'' = JStr ''workstream_checkpoint''" "get signal ''event_id'' \<noteq> JNull"
  shows "\<exists>v c. i = Some (v, c) \<and> v \<noteq> w"
proof -
  have "idle \<delta> w (files_of d1)" using resume_runs [of "{}" \<delta> "\<lambda>_. True" w] assms(1) unfolding runs_def by blast
  then have "idle \<delta> w (files_of (run_ops \<delta> (ops @ [Guard signal now]) d1))"
    by (rule steps_keep [OF run_ops_steps, where I = "idle \<delta> w"]) (use idle_step assms(2) in auto)
  then have "idle \<delta> w (files_of d')" unfolding run_op_guard using assms(3) by simp
  moreover obtain v c where v: "i = Some (v, c)" "authorised_continuation \<delta> signal v c (files_of d')"
    using guard_delivers [OF assms(3,4)] by blast
  ultimately have "v \<noteq> w"
    using assms(5) json_eq_null by (auto simp: idle_def describes_def authorised_continuation_def revoked_def expected_event_def)
  with v(1) show ?thesis by simp
qed

section \<open>Operation identifiers\<close>

lemma id_pattern_no_colon: "id_pattern s \<Longrightarrow> CHR '':'' \<notin> set s"
proof (cases s)
  case (Cons a t)
  have "\<not> is_alnum (CHR '':'')" by (simp add: is_alnum_def)
  moreover from this have "\<not> is_id_char (CHR '':'')" by (simp add: is_id_char_def)
  moreover assume "id_pattern s"
  ultimately show ?thesis using Cons by (auto simp: list_all_iff)
qed simp

text \<open>C35: The operation id of a continuation is unambiguous: parsing yields a pair of identifiers exactly when the text is
  the encoding of that pair.\<close>

theorem operation_id_roundtrip:
  "parse_continuation_operation_id oid = Some (w, c) \<longleftrightarrow> id_pattern w \<and> id_pattern c \<and> oid = continuation_operation_id w c"
proof
  assume p: "parse_continuation_operation_id oid = Some (w, c)"
  let ?rest = "drop (length operation_prefix) oid"
  from p have pre: "take (length operation_prefix) oid = operation_prefix" and colon: "CHR '':'' \<in> set ?rest"
    and w: "w = takeWhile (\<lambda>c. c \<noteq> CHR '':'') ?rest" and c: "c = drop (Suc (length w)) ?rest" and ids: "id_pattern w" "id_pattern c"
    by (auto simp: parse_continuation_operation_id_def Let_def split: if_splits)
  from split_list_first [OF colon] obtain ys zs where rest: "?rest = ys @ CHR '':'' # zs" "CHR '':'' \<notin> set ys" by blast
  have "takeWhile (\<lambda>c. c \<noteq> CHR '':'') ?rest = ys" unfolding rest(1) using rest(2) by (subst takeWhile_append2) auto
  with w have "w = ys" by simp
  with c rest(1) have "?rest = w @ CHR '':'' # c" by simp
  then have "oid = operation_prefix @ w @ CHR '':'' # c" using pre by (metis append_take_drop_id)
  with ids show "id_pattern w \<and> id_pattern c \<and> oid = continuation_operation_id w c" by (simp add: continuation_operation_id_def)
next
  assume a: "id_pattern w \<and> id_pattern c \<and> oid = continuation_operation_id w c"
  then have "CHR '':'' \<notin> set w" using id_pattern_no_colon by blast
  then have "takeWhile (\<lambda>c. c \<noteq> CHR '':'') (w @ CHR '':'' # c) = w" by (subst takeWhile_append2) auto
  with a show "parse_continuation_operation_id oid = Some (w, c)"
    by (simp add: parse_continuation_operation_id_def continuation_operation_id_def Let_def)
qed

section \<open>A concrete workstream\<close>

definition demo_bound :: "err + fields" where
  "demo_bound = Inr [(''schema_version'', JInt 1), (''kind'', JStr ''ORCHESTRATOR_BINDING''), (''host'', JStr ''codex''), (''target_thread_id'', JStr ''x'')]"

definition demo_stream_start :: stream_op where
  "demo_stream_start = Start ''v'' ''g'' 0 (JInt 1) JNull demo_bound"

definition demo_descriptor :: "string \<Rightarrow> string \<Rightarrow> fields" where
  "demo_descriptor w status = [(''schema_version'', JInt 1), (''kind'', JStr ''ORCHESTRATOR_WORKSTREAM''), (''workstream_id'', JStr w),
     (''status'', JStr status), (''checkpoint_count'', JInt 1), (''continuation_state_version'', JInt 1), (''max_continuations'', JInt 1),
     (''max_wall_seconds'', JNull)]
     @ (if status = ''active'' then [(''active_continuation'', JObj [(''event_id'', JStr ''i'')])] else [])"

definition demo_checkpoint :: fields where
  "demo_checkpoint = [(''schema_version'', JInt 1), (''kind'', JStr ''ORCHESTRATOR_WORKSTREAM_CHECKPOINT''), (''workstream_id'', JStr ''v''),
     (''checkpoint_id'', JStr ''c''), (''sequence'', JInt 1), (''decision'', JStr ''continue''), (''event_id'', JStr ''i''), (''signal_path'', JStr ''/w/r'')]"

definition demo_signal :: fields where
  "demo_signal = [(''source_kind'', JStr ''workstream_checkpoint''), (''operation_id'', JStr ''workstream:v:c''), (''event_id'', JStr ''i'')]"

definition demo_streams :: disk where
  "demo_streams = demo_disk\<lparr>dk_files := [([''w'', ''r''], Raw ''r''),
     ([''w'', ''s'', ''workstreams'', ''v'', ''workstream.json''], Doc (JObj (demo_descriptor ''v'' ''active''))),
     ([''w'', ''s'', ''workstreams'', ''v'', ''checkpoints'', ''c.json''], Doc (JObj demo_checkpoint)),
     ([''w'', ''s'', ''workstreams'', ''w'', ''workstream.json''], Doc (JObj (demo_descriptor ''w'' ''paused'')))]\<rparr>"

lemma demo_guard:
  "fst (continuation_delivery_guard (demo_disk_env well) demo_signal None demo_streams) = Inr (Deliver (Some (''v'', ''c'')))"
  by code_simp

lemma demo_resume:
  "case resume_workstream (demo_disk_env well) ''w'' demo_streams of (Inr out, d) \<Rightarrow>
     fst (continuation_delivery_guard (demo_disk_env well) demo_signal None d) = Inr (Deliver (Some (''v'', ''c''))) | _ \<Rightarrow> False"
  by code_simp

lemma demo_started:
  "case files_of (run_ops (demo_disk_env well) [demo_stream_start] demo_disk) [''w'', ''s'', ''workstreams'', ''v'', ''workstream.json''] of
     Some (Doc (JObj desc)) \<Rightarrow> get desc ''max_continuations'' = JInt 1 | _ \<Rightarrow> False"
  by code_simp

lemma demo_stream_path: "descriptor_path (demo_disk_env f) u = [''w'', ''s'', ''workstreams'', u, ''workstream.json'']"
  "checkpoints_dir (demo_disk_env f) u = [''w'', ''s'', ''workstreams'', u, ''checkpoints'']"
  by (simp_all add: descriptor_path_def workstream_dir_def workstreams_root_def checkpoints_dir_def demo_disk_env_def)

lemma demo_stream_fresh: "fresh (demo_disk_env f) ''v'' (files_of demo_disk)"
proof -
  have "p \<notin> {[''w'', ''r''], [''w'', ''e'']}" if "json_in [''w'', ''s'', ''workstreams'', ''v'', ''checkpoints''] p" for p :: path
    using that by (auto simp: json_in_def in_dir_def)
  then show ?thesis by (auto simp: fresh_def no_checkpoints_def demo_stream_path files_of_def content_at_def demo_disk_def)
qed

definition demo_completed :: disk where
  "demo_completed = demo_disk\<lparr>dk_files := [([''w'', ''s'', ''workstreams'', ''v'', ''workstream.json''], Doc (JObj (demo_descriptor ''v'' ''complete'')))]\<rparr>"

definition demo_stream_request :: checkpoint_request where
  "demo_stream_request = \<lparr>rq_workstream = ''v'', rq_checkpoint = ''c'', rq_decision = ''continue'', rq_summary = ''s'',
     rq_next = Some ''n'', rq_waiting = None, rq_ready = True\<rparr>"

definition demo_ready :: "string \<Rightarrow> json option \<Rightarrow> preflight" where
  "demo_ready _ _ = Report []"

theorem completed_workstream_is_final_witness:
  "\<exists>desc. files_of (run_ops (demo_disk_env (dies_at 3)) [Resume ''v'', Checkpoint demo_ready demo_stream_request] demo_completed)
       [''w'', ''s'', ''workstreams'', ''v'', ''workstream.json''] = Some (Doc (JObj desc)) \<and> map_of desc ''status'' = Some (JStr ''complete'')"
proof -
  have "files_of demo_completed (descriptor_path (demo_disk_env (dies_at 3)) ''v'') = Some (Doc (JObj (demo_descriptor ''v'' ''complete'')))"
    by (simp add: demo_stream_path files_of_def content_at_def demo_completed_def)
  from completed_workstream_is_final [OF this, of "[Resume ''v'', Checkpoint demo_ready demo_stream_request]"] show ?thesis
    by (auto simp: demo_stream_path demo_descriptor_def final_fields_def)
qed

theorem checkpoints_are_immutable_witness:
  "files_of (run_ops (demo_disk_env (dies_at 3)) [Checkpoint demo_ready demo_stream_request, Resume ''w''] demo_streams)
     [''w'', ''s'', ''workstreams'', ''v'', ''checkpoints'', ''c.json''] = Some (Doc (JObj demo_checkpoint))"
  by (rule checkpoints_are_immutable [where w = "''v''"])
    (simp_all add: in_dir_def demo_stream_path files_of_def content_at_def demo_streams_def)

theorem workstream_records_typed_witness:
  "well_kept (demo_disk_env (dies_at 7)) ''v''
     (files_of (run_ops (demo_disk_env (dies_at 7)) [demo_stream_start, Checkpoint demo_ready demo_stream_request, Resume ''v''] demo_disk))"
  by (rule workstream_records_typed [OF demo_stream_fresh])

theorem continuations_stay_within_limit_witness:
  "\<exists>desc k. files_of (run_ops (demo_disk_env well) [demo_stream_start] demo_disk) [''w'', ''s'', ''workstreams'', ''v'', ''workstream.json''] = Some (Doc (JObj desc)) \<and>
     get desc ''continuation_count'' = JInt k \<and> 0 \<le> k \<and> k \<le> 1"
proof -
  from demo_started obtain desc where
    desc: "files_of (run_ops (demo_disk_env well) [demo_stream_start] demo_disk) (descriptor_path (demo_disk_env well) ''v'') = Some (Doc (JObj desc))"
    and limit: "get desc ''max_continuations'' = JInt 1"
    unfolding demo_stream_path by (auto split: option.splits content.splits json.splits)
  have "May_Edit ''v'' \<notin> \<Union> (permits ` set [demo_stream_start])" by (simp add: demo_stream_start_def)
  from continuations_stay_within_limit [OF demo_stream_fresh this desc limit] desc show ?thesis by (auto simp: demo_stream_path)
qed


theorem resumption_revokes_continuations_witness:
  "\<exists>out d1 v c. resume_workstream (demo_disk_env well) ''w'' demo_streams = (Inr out, d1) \<and>
     fst (continuation_delivery_guard (demo_disk_env well) demo_signal None d1) = Inr (Deliver (Some (v, c))) \<and> v \<noteq> ''w''"
proof -
  from demo_resume obtain out d1 where resume: "resume_workstream (demo_disk_env well) ''w'' demo_streams = (Inr out, d1)"
    and deliver: "fst (continuation_delivery_guard (demo_disk_env well) demo_signal None d1) = Inr (Deliver (Some (''v'', ''c'')))"
    by (auto split: prod.splits sum.splits)
  obtain r d' where run: "continuation_delivery_guard (demo_disk_env well) demo_signal None (run_ops (demo_disk_env well) [] d1) = (r, d')" by fastforce
  with deliver have r: "r = Inr (Deliver (Some (''v'', ''c'')))" by simp
  have "\<exists>v c. Some (''v'', ''c'') = Some (v, c) \<and> v \<noteq> ''w''"
    by (rule resumption_revokes_continuations [OF resume _ run [unfolded r]]) (simp_all add: demo_signal_def)
  with resume deliver show ?thesis by blast
qed

end
