(* ===== verification/Spec2Isabelle.thy ===== *)
theory Spec2Isabelle
  imports Resource_Properties Operation_Wait Resource_Metrics Release_Upgrade Resource_Config Authority_Properties Runner_Properties
    Workstream_Properties
begin

text \<open>
  The verification development of the orchestration engine (\<open>src/src/orchestrator_engine\<close>).

  \<^bold>\<open>The program.\<close> The engine coordinates unattended work of coding agents on one machine. Two halves of
  it carry its guarantees. The native resource authority lends physical resources to stages of
  requests: a transactional ledger decides who holds what (\<open>resource_queue.py\<close>), a service
  authenticates the projects, captures their inputs, starts a supervisor per stage and delivers the
  outcomes (\<open>resource_service.py\<close>, \<open>resource_adapters.py\<close>), the supervisor runs the commands and
  gives the resources back (\<open>resource_runner.py\<close>), and a report measures waiting and ownership
  (\<open>resource_metrics.py\<close>). The file-based half publishes durable events (\<open>core.py\<close>), continues a
  long conversation in checkpoints (\<open>workstreams.py\<close>), identifies and stops worker processes
  (\<open>worker_lease.py\<close>), binds a host (\<open>binding.py\<close>) and waits for operations
  (\<open>operation_wait.py\<close>).

  \<^bold>\<open>Shared ground.\<close> \<open>Engine_Prelude\<close>: JSON values with Python's equality, exceptions as \<open>err + 'a\<close>, raising
  loops, order-preserving de-duplication, association lists as dicts. \<open>Recipe_Paths\<close>: relative POSIX
  paths and their resolution. \<open>Host_Binding\<close> (\<open>binding.py\<close>, the identifiers of \<open>core.py\<close>): bindings,
  wake targets and when two name the same destination.

  \<^bold>\<open>The ledger\<close> (\<open>resource_queue.py\<close>). \<open>Resource_Registry\<close>: normalisation of the registry and of the
  needs of a stage, and the search for the candidates of a selector. \<open>Resource_Assign\<close>: capacity
  claims and the search for a joint assignment, with its completeness. \<open>Resource_Ledger\<close>: the tables
  as a record, transactions as state passers that may raise and are then rolled back.
  \<open>Resource_Ops\<close>: one definition per transaction of the class \<open>Ledger\<close>; \<open>Resource_Schedule\<close>: the
  scheduler. \<open>Resource_Steps\<close>: the abstract specification, atomic edges of the stage life cycle
  with their guards; \<open>Resource_Refinement\<close> and \<open>Schedule_Refinement\<close>: every transaction is a sequence
  of them. \<open>Resource_Safety\<close>, \<open>Resource_Properties\<close>: what holds in every reachable ledger, with
  the concrete run of \<open>Resource_Demo\<close> as witness.

  \<^bold>\<open>The authority and the supervisor.\<close> \<open>Resource_Config\<close>: validation, update and crash reconciliation
  of the configuration, input manifests and contracts. \<open>Release_Upgrade\<close>
  (\<open>resource_adapters.py\<close>): the typed recipe, its compilation, the verdict on a result.
  \<open>Resource_Authority\<close>: the class \<open>Authority\<close> over a ledger, processes and files; \<open>Resource_Runner\<close>:
  the supervisor of one stage, whose ledger other processes change between its transactions
  (\<open>rn_others\<close>, an arbitrary function). \<open>Authority_Properties\<close> and \<open>Runner_Properties\<close> show that
  both move the ledger by the life-cycle steps only, so the ledger's invariants hold through the
  whole service; and what they add: no release without proof, order and cleanup of the commands,
  termination, delivery. \<open>Resource_Metrics\<close>: the report, with the interval union against its
  specification as a set of instants.

  \<^bold>\<open>Workers and waits.\<close> \<open>Worker_Lease\<close>: process identity, group snapshots and the identity-safe stop.
  \<open>Operation_Wait\<close>: targets, summaries and the waiting loop.

  \<^bold>\<open>Durable files\<close> (\<open>core.py\<close>). \<open>Durable_Files\<close>: a disk of JSON files, recovery markers and journals on
  which every effect can succeed, raise \<open>OSError\<close> or be the last one of its process (\<open>de_fault\<close>, an
  arbitrary function of the number of the effect); atomic replacement, exclusive creation, the
  candidate markers of the two indexes and their recovery pass. The locale \<open>io_relation\<close> is the
  contract between an operation and what it may leave behind; it is interpreted for \<open>files_kept\<close>,
  \<open>aside\<close> and \<open>stream_steps\<close>. \<open>Terminal_Events\<close>: events, signals, verification, the inbox and log
  compaction, with immutability of outcomes and convergence of retries.

  \<^bold>\<open>Workstreams\<close> (\<open>workstreams.py\<close>). \<open>Workstreams\<close>: descriptors, limits, checkpoints and their application;
  \<open>Workstream_Ops\<close>: reconciliation, the delivery guard and the commands. \<open>Workstream_Steps\<close>: the
  abstract specification, atomic steps of the files of all workstreams with the guards of the code;
  \<open>Workstream_Refinement\<close>: any sequence of operations, each interrupted anywhere, is a sequence of
  those steps (assertions \<open>runs\<close> follow the operations line by line); \<open>Workstream_Properties\<close>: the
  invariants of the steps, and what a delivery presupposes.

  \<^bold>\<open>Correspondence.\<close> A definition has the name of the function or method it models where Isabelle
  allows it; a loop is a \<open>fun\<close> over its list, a \<open>while\<close> loop recursion with fuel or with the
  remaining time as its measure. Fuel bounds: selector expansion carries the trail of names, which
  cannot exceed the registry; waiting and supervision loops take fuel, and the termination theorems
  give an amount that suffices when the clock advances by a positive step towards a deadline (one
  unit per round until the deadline is passed). Times are rationals, in the metrics integers.

  \<^bold>\<open>Parameters.\<close> Not under the repository and therefore arguments: the operating system (process table,
  signals, spawning), clocks, time formatting and parsing, digests and random identifiers, the
  iteration order of sets of strings (\<open>str_hash\<close>), and the status functions that a wait polls. The
  answers of the delivery preflight and of the host binding are arguments of the workstream
  operations. Hypotheses about parameters are named definitions: \<open>fresh_ids\<close>, \<open>crash_only\<close>,
  \<open>healthy\<close>, an advancing clock.

  \<^bold>\<open>Not modelled.\<close> The HTTP transport, SQLite itself (a transaction is atomic), file permissions, the
  advisory locks (they make the operations sequential where the code holds them), retry loops around
  sharing violations, text of error messages beyond a constant prefix, the fixed descriptive strings of
  reports. Whole modules left out, as they only talk to external tools or report on files:
  \<open>continuity.py\<close>, \<open>workers.py\<close>, \<open>watcher.py\<close>, \<open>wakeup.py\<close>, \<open>github_actions.py\<close>,
  \<open>github_pull_requests.py\<close>, \<open>codex_app.py\<close>, \<open>vscode_chat.py\<close>, \<open>local_checks.py\<close>,
  \<open>task_diagnostics.py\<close>, \<open>metrics/\<close>, the operation reports and the command lines.
\<close>

end
